(* ===== verification/Prelude.thy ===== *)
theory Prelude
  imports Main "HOL-Library.Word" "HOL-Library.Char_ord" "HOL-Library.List_Lexorder"
    "HOL-Library.Sublist"
begin

text \<open>
  Shared vocabulary of the development: Go's 64-bit integers, errors as values, string
  helpers of the standard library that several packages use, generic lemmas on maps, lists
  and sums, and the locale of inductive invariants that every state machine of the
  development instantiates.

  Conventions. A Go \<open>int\<close>/\<open>int64\<close> is an \<^typ>\<open>int\<close>, wrapped with \<open>wrap64\<close> where the
  source can overflow; a \<open>uint64\<close> counter is a \<open>64 word\<close>. A \<open>string\<close> is its list of bytes,
  and \<open><\<close> on strings is Go's bytewise order. A \<open>time.Time\<close> is an \<^typ>\<open>int\<close> of nanoseconds and
  every operation that reads the clock takes the reading as an argument. A pair
  \<open>(T, error)\<close> is a value of \<open>go_error + 'a\<close>. The message of an error is the format string
  of the source, without its arguments rendered into it.
\<close>

named_theorems step_defs \<open>definitions unfolded when a transition is analysed\<close>
named_theorems inv_defs \<open>definitions of invariants\<close>

section \<open>Integers\<close>

definition MaxInt :: int where
  "MaxInt = 2 ^ 63 - 1"

definition MinInt :: int where
  "MinInt = - (2 ^ 63)"

definition wrap64 :: "int \<Rightarrow> int" where
  "wrap64 x = (x + 2 ^ 63) mod 2 ^ 64 - 2 ^ 63"

abbreviation in_int64 :: "int \<Rightarrow> bool" where
  "in_int64 x \<equiv> MinInt \<le> x \<and> x \<le> MaxInt"

lemma wrap64_id [simp]: "in_int64 x \<Longrightarrow> wrap64 x = x"
  by (simp add: wrap64_def MaxInt_def MinInt_def)

lemma wrap64_0 [simp]: "wrap64 0 = 0"
  by (simp add: wrap64_def)

lemma wrap64_range: "in_int64 (wrap64 x)"
proof -
  have "0 \<le> (x + 2 ^ 63) mod 2 ^ 64" and "(x + 2 ^ 63) mod 2 ^ 64 < (2 ^ 64 :: int)"
    by simp_all
  then show ?thesis
    by (simp add: wrap64_def MaxInt_def MinInt_def)
qed

section \<open>Errors as values\<close>

text \<open>
  The error values of the program. \<open>APIError status msg cause\<close> is \<open>*httpx.APIError\<close>;
  \<open>Sentinel\<close> is a package-level \<open>errors.New\<close> value, compared by identity through its name;
  \<open>Wrapped\<close> is \<open>fmt.Errorf\<close> with \<open>%w\<close> verbs; \<open>InsufficientStockError\<close> is the warehouse's own
  error type.
\<close>

datatype go_error =
    APIError int string "go_error option"
  | Sentinel string
  | Wrapped string "go_error list"
  | InsufficientStockError string int int

type_synonym 'a res = "go_error + 'a"

fun is_ok :: "'a + 'b \<Rightarrow> bool" where
  "is_ok (Inl _) = False"
| "is_ok (Inr _) = True"

lemma is_ok_iff: "is_ok r \<longleftrightarrow> (\<exists>x. r = Inr x)"
  by (cases r) simp_all

lemma not_is_ok_iff: "\<not> is_ok r \<longleftrightarrow> (\<exists>e. r = Inl e)"
  by (cases r) simp_all

section \<open>Strings\<close>

text \<open>\<open>strings.HasPrefix\<close>, \<open>strings.TrimPrefix\<close>.\<close>

definition HasPrefix :: "string \<Rightarrow> string \<Rightarrow> bool" where
  "HasPrefix s p \<longleftrightarrow> prefix p s"

definition TrimPrefix :: "string \<Rightarrow> string \<Rightarrow> string" where
  "TrimPrefix s p = (if prefix p s then drop (length p) s else s)"

lemma HasPrefix_append [simp]: "HasPrefix (p @ s) p"
  by (simp add: HasPrefix_def)

lemma TrimPrefix_append [simp]: "TrimPrefix (p @ s) p = s"
  by (simp add: TrimPrefix_def)

lemma TrimPrefix_inverse: "HasPrefix s p \<Longrightarrow> p @ TrimPrefix s p = s"
  by (auto simp: HasPrefix_def TrimPrefix_def prefix_def)

text \<open>The character classes shared by the three identifier checks of the program.\<close>

definition is_lower :: "char \<Rightarrow> bool" where
  "is_lower c \<longleftrightarrow> CHR ''a'' \<le> c \<and> c \<le> CHR ''z''"

definition is_upper :: "char \<Rightarrow> bool" where
  "is_upper c \<longleftrightarrow> CHR ''A'' \<le> c \<and> c \<le> CHR ''Z''"

definition is_digit :: "char \<Rightarrow> bool" where
  "is_digit c \<longleftrightarrow> CHR ''0'' \<le> c \<and> c \<le> CHR ''9''"

definition is_alnum :: "char \<Rightarrow> bool" where
  "is_alnum c \<longleftrightarrow> is_lower c \<or> is_upper c \<or> is_digit c"

section \<open>Subsequences\<close>

lemma subseq_distinct: "subseq xs ys \<Longrightarrow> distinct ys \<Longrightarrow> distinct xs"
  by (auto simp: subseq_conv_nths)

lemma subseq_set: "subseq xs ys \<Longrightarrow> set xs \<subseteq> set ys"
  using set_nths_subset by (fastforce simp: subseq_conv_nths)

lemma subseq_sorted: "subseq xs ys \<Longrightarrow> sorted ys \<Longrightarrow> sorted (xs :: 'a :: linorder list)"
  by (induction rule: list_emb.induct) (auto dest: subseq_set)

section \<open>Invariants of transition systems\<close>

text \<open>
  A component with state is a set of initial states, a step relation and an invariant; the
  invariant then holds after every finite run.
\<close>

locale invariant_system =
  fixes init :: "'s \<Rightarrow> bool"
    and step :: "'s \<Rightarrow> 's \<Rightarrow> bool"
    and inv :: "'s \<Rightarrow> bool"
  assumes init_inv: "init s \<Longrightarrow> inv s"
    and step_inv: "inv s \<Longrightarrow> step s t \<Longrightarrow> inv t"
begin

lemma run_inv: "step\<^sup>*\<^sup>* s t \<Longrightarrow> inv s \<Longrightarrow> inv t"
  by (induction rule: rtranclp_induct) (auto intro: step_inv)

lemma reachable_inv: "init s \<Longrightarrow> step\<^sup>*\<^sup>* s t \<Longrightarrow> inv t"
  by (blast intro: run_inv init_inv)

end


lemma subseq_map_preimage:
  "subseq xs (map f ys) \<Longrightarrow> \<exists>zs. subseq zs ys \<and> xs = map f zs"
proof (induction ys arbitrary: xs)
  case Nil
  then show ?case by (intro exI [of _ "[]"]) simp
next
  case (Cons y ys)
  from Cons.prems consider "subseq xs (map f ys)" | xs' where "xs = f y # xs'" "subseq xs' (map f ys)"
    by (cases xs) (auto split: if_splits)
  then show ?case
  proof cases
    case 1
    then show ?thesis using Cons.IH by (meson list_emb_Cons)
  next
    case 2
    then obtain zs where "subseq zs ys" "xs' = map f zs" using Cons.IH by blast
    with 2 show ?thesis by (intro exI [of _ "y # zs"]) simp
  qed
qed


lemma length_filter_mono: "(\<And>x. x \<in> set xs \<Longrightarrow> P x \<Longrightarrow> Q x) \<Longrightarrow> length (filter P xs) \<le> length (filter Q xs)"
  by (induction xs) auto

lemma distinct_map_sort_key: "distinct (map f (sort_key f xs)) \<longleftrightarrow> distinct (map f xs)"
  by (simp add: distinct_map)


section \<open>Codecs\<close>

text \<open>The round trip the program relies on for every value it stores or sends as JSON.\<close>

definition codec_ok :: "('a \<Rightarrow> string option) \<Rightarrow> (string \<Rightarrow> 'a option) \<Rightarrow> bool" where
  "codec_ok enc dec \<longleftrightarrow> (\<forall>x s. enc x = Some s \<longrightarrow> s \<noteq> '''' \<and> dec s = Some x)"

lemma codec_okD: "codec_ok enc dec \<Longrightarrow> enc x = Some s \<Longrightarrow> s \<noteq> '''' \<and> dec s = Some x"
  by (simp add: codec_ok_def)

text \<open>A codec for the values of a table, each with its text.\<close>

definition table_enc :: "('a \<times> string) list \<Rightarrow> 'a \<Rightarrow> string option" where
  "table_enc t x = map_of t x"

definition table_dec :: "('a \<times> string) list \<Rightarrow> string \<Rightarrow> 'a option" where
  "table_dec t s = map_of (map (\<lambda>(x, y). (y, x)) t) s"

lemma table_codec_ok:
  assumes "distinct (map snd t)" and "'''' \<notin> snd ` set t"
  shows "codec_ok (table_enc t) (table_dec t)"
proof -
  have "map_of (map (\<lambda>(x, y). (y, x)) t) s = Some x" if "(x, s) \<in> set t" for x s
  proof (rule map_of_is_SomeI)
    have "map fst (map (\<lambda>(x, y). (y, x)) t) = map snd t" by (induction t) auto
    then show "distinct (map fst (map (\<lambda>(x, y). (y, x)) t))" using assms(1) by (simp only:)
    show "(s, x) \<in> set (map (\<lambda>(x, y). (y, x)) t)" using that by force
  qed
  with assms(2) show ?thesis
    by (force simp: codec_ok_def table_enc_def table_dec_def dest: map_of_SomeD)
qed

end
