(* ===== verification/Httpx_Errors.thy ===== *)
theory Httpx_Errors
  imports Prelude
begin

text \<open>
  \<^verbatim>\<open>src/internal/httpx/errors.go\<close> and the error half of \<^verbatim>\<open>src/internal/httpx/respond.go\<close>: the
  error type that carries an HTTP status, how a status is read back from an error chain, and
  how a handler's error becomes a response.
\<close>

section \<open>HTTP statuses the program names\<close>

abbreviation "StatusOK \<equiv> (200 :: int)"
abbreviation "StatusCreated \<equiv> (201 :: int)"
abbreviation "StatusNoContent \<equiv> (204 :: int)"
abbreviation "StatusBadRequest \<equiv> (400 :: int)"
abbreviation "StatusUnauthorized \<equiv> (401 :: int)"
abbreviation "StatusPaymentRequired \<equiv> (402 :: int)"
abbreviation "StatusNotFound \<equiv> (404 :: int)"
abbreviation "StatusConflict \<equiv> (409 :: int)"
abbreviation "StatusTooManyRequests \<equiv> (429 :: int)"
abbreviation "StatusInternalServerError \<equiv> (500 :: int)"
abbreviation "StatusBadGateway \<equiv> (502 :: int)"
abbreviation "StatusServiceUnavailable \<equiv> (503 :: int)"

section \<open>Building and inspecting errors\<close>

definition Errorf :: "int \<Rightarrow> string \<Rightarrow> go_error" where
  "Errorf status msg = APIError status msg None"

definition Wrap :: "int \<Rightarrow> go_error \<Rightarrow> string \<Rightarrow> go_error" where
  "Wrap status err msg = APIError status msg (Some err)"

text \<open>
  \<open>errors.As(err, &apiErr)\<close>: the first \<open>*APIError\<close> met walking the chain depth first; the
  status and message it carries.
\<close>

fun as_api :: "go_error \<Rightarrow> (int \<times> string) option" where
  "as_api (APIError status msg cause) = Some (status, msg)"
| "as_api (Sentinel name) = None"
| "as_api (Wrapped msg []) = None"
| "as_api (Wrapped msg (e # es)) =
     (case as_api e of Some a \<Rightarrow> Some a | None \<Rightarrow> as_api (Wrapped msg es))"
| "as_api (InsufficientStockError p r a) = None"

text \<open>\<open>errors.Is(err, sentinel)\<close> for a package-level sentinel.\<close>

fun errors_is :: "go_error \<Rightarrow> string \<Rightarrow> bool" where
  "errors_is (APIError status msg None) name = False"
| "errors_is (APIError status msg (Some e)) name = errors_is e name"
| "errors_is (Sentinel n) name = (n = name)"
| "errors_is (Wrapped msg []) name = False"
| "errors_is (Wrapped msg (e # es)) name = (errors_is e name \<or> errors_is (Wrapped msg es) name)"
| "errors_is (InsufficientStockError p r a) name = False"

definition StatusOf :: "go_error option \<Rightarrow> int" where
  "StatusOf err =
     (case err of
        None \<Rightarrow> StatusOK
      | Some e \<Rightarrow> (case as_api e of
                    Some (status, _) \<Rightarrow> status
                  | None \<Rightarrow> StatusInternalServerError))"

definition IsStatus :: "go_error \<Rightarrow> int \<Rightarrow> bool" where
  "IsStatus err status =
     (case as_api err of Some (s, _) \<Rightarrow> s = status | None \<Rightarrow> False)"

lemma as_api_Errorf [simp]: "as_api (Errorf s m) = Some (s, m)"
  by (simp add: Errorf_def)

lemma as_api_Wrap [simp]: "as_api (Wrap s e m) = Some (s, m)"
  by (simp add: Wrap_def)

lemma IsStatus_Errorf [simp]: "IsStatus (Errorf s m) t \<longleftrightarrow> s = t"
  by (simp add: IsStatus_def)

lemma IsStatus_Wrap [simp]: "IsStatus (Wrap s e m) t \<longleftrightarrow> s = t"
  by (simp add: IsStatus_def)

lemma StatusOf_built [simp]:
  "StatusOf (Some (Errorf s m)) = s" "StatusOf (Some (Wrap s e m)) = s"
  by (simp_all add: StatusOf_def)

lemma IsStatus_StatusOf: "IsStatus e s \<Longrightarrow> StatusOf (Some e) = s"
  by (auto simp: IsStatus_def StatusOf_def split: option.splits)

section \<open>Rendering an error\<close>

text \<open>
  A response as the client sees it: its status and, for an error, the \<open>error\<close> and
  \<open>requestId\<close> members of the body.
\<close>

record error_response =
  er_status :: int
  er_error :: string
  er_requestId :: string

definition WriteError :: "string \<Rightarrow> go_error \<Rightarrow> error_response" where
  "WriteError requestID err =
     (case as_api err of
        Some (status, msg) \<Rightarrow>
          (if status \<ge> 500
           then \<lparr>er_status = status, er_error = msg, er_requestId = requestID\<rparr>
           else \<lparr>er_status = status, er_error = msg, er_requestId = requestID\<rparr>)
      | None \<Rightarrow>
          \<lparr>er_status = StatusInternalServerError, er_error = ''internal error'',
           er_requestId = requestID\<rparr>)"

text \<open>The adapter \<open>H\<close>: a handler that returned an error has it rendered, one that did not
  has already written its own response \<open>r\<close>.\<close>

definition H :: "string \<Rightarrow> (go_error + 'r) \<Rightarrow> error_response + 'r" where
  "H requestID outcome =
     (case outcome of Inl err \<Rightarrow> Inl (WriteError requestID err) | Inr r \<Rightarrow> Inr r)"

lemma WriteError_status: "er_status (WriteError rid e) = StatusOf (Some e)"
  by (auto simp: WriteError_def StatusOf_def split: option.splits)

section \<open>Request bodies\<close>

definition maxRequestBody :: nat where "maxRequestBody = 1048576"

text \<open>\<open>DecodeJSON\<close>: \<open>decode\<close> is the strict decoder of the target on the bytes it is given.\<close>

definition DecodeJSON :: "(string \<Rightarrow> 'a + go_error) \<Rightarrow> string \<Rightarrow> 'a res" where
  "DecodeJSON decode body =
     (case decode (take maxRequestBody body) of
        Inr err \<Rightarrow> Inl (Wrap StatusBadRequest err ''malformed JSON body'')
      | Inl v \<Rightarrow> Inr v)"

text \<open>No handler reads more than a mebibyte of a request, and a body that is refused is the client's
  fault.\<close>

lemma DecodeJSON_bounded:
  "DecodeJSON decode body = DecodeJSON decode (take maxRequestBody body)"
  "DecodeJSON decode body = Inl err \<Longrightarrow> StatusOf (Some err) = StatusBadRequest"
  by (auto simp: DecodeJSON_def StatusOf_def Wrap_def split: sum.splits)


end
