(* ===== verification/Breaker.thy ===== *)
theory Breaker
  imports Httpx_Errors
begin

text \<open>
  \<^verbatim>\<open>src/internal/httpx/breaker.go\<close>: the circuit breaker every service-to-service client goes
  through. \<open>Allow\<close> and \<open>Record\<close> run under the breaker's mutex, so each is one atomic step on the
  record below; the clock reading is an argument.
\<close>

datatype BreakerState = BreakerClosed | BreakerHalfOpen | BreakerOpen

record BreakerConfig =
  FailureThreshold :: int
  OpenFor :: int
  HalfOpenSuccesses :: int

definition breaker_withDefaults :: "BreakerConfig \<Rightarrow> BreakerConfig" where
  "breaker_withDefaults c =
     (let c1 = (if FailureThreshold c \<le> 0 then c\<lparr>FailureThreshold := 5\<rparr> else c);
          c2 = (if OpenFor c1 \<le> 0 then c1\<lparr>OpenFor := 5 * 10 ^ 9\<rparr> else c1);
          c3 = (if HalfOpenSuccesses c2 \<le> 0 then c2\<lparr>HalfOpenSuccesses := 2\<rparr> else c2)
      in c3)"

record Breaker =
  b_cfg :: BreakerConfig
  b_state :: BreakerState
  consecutiveFailures :: int
  openedAt :: int
  halfOpenSuccesses :: int
  halfOpenInFlight :: bool

definition NewBreaker :: "BreakerConfig \<Rightarrow> Breaker" where
  "NewBreaker cfg =
     \<lparr>b_cfg = breaker_withDefaults cfg, b_state = BreakerClosed, consecutiveFailures = 0,
      openedAt = 0, halfOpenSuccesses = 0, halfOpenInFlight = False\<rparr>"

definition ErrBreakerOpen :: go_error where
  "ErrBreakerOpen = Sentinel ''circuit breaker is open''"

definition transition :: "BreakerState \<Rightarrow> Breaker \<Rightarrow> Breaker" where
  "transition target b = (if b_state b = target then b else b\<lparr>b_state := target\<rparr>)"

definition Allow :: "int \<Rightarrow> Breaker \<Rightarrow> go_error option \<times> Breaker" where
  "Allow now b =
     (case b_state b of
        BreakerClosed \<Rightarrow> (None, b)
      | BreakerOpen \<Rightarrow>
          (if now - openedAt b < OpenFor (b_cfg b) then (Some ErrBreakerOpen, b)
           else (None, (transition BreakerHalfOpen b)\<lparr>halfOpenInFlight := True\<rparr>))
      | BreakerHalfOpen \<Rightarrow>
          (if halfOpenInFlight b then (Some ErrBreakerOpen, b)
           else (None, b\<lparr>halfOpenInFlight := True\<rparr>)))"

text \<open>\<open>Record(err)\<close>; \<open>failed\<close> is \<open>err != nil\<close>, the only thing the method looks at.\<close>

definition Record :: "int \<Rightarrow> bool \<Rightarrow> Breaker \<Rightarrow> Breaker" where
  "Record now failed b0 =
     (let b = b0\<lparr>halfOpenInFlight := False\<rparr> in
      if failed then
        (let b1 = b\<lparr>consecutiveFailures := consecutiveFailures b + 1\<rparr> in
         if b_state b1 = BreakerHalfOpen
            \<or> consecutiveFailures b1 \<ge> FailureThreshold (b_cfg b1)
         then transition BreakerOpen (b1\<lparr>openedAt := now, halfOpenSuccesses := 0\<rparr>)
         else b1)
      else
        (let b1 = b\<lparr>consecutiveFailures := 0\<rparr> in
         if b_state b1 = BreakerHalfOpen then
           (let b2 = b1\<lparr>halfOpenSuccesses := halfOpenSuccesses b1 + 1\<rparr> in
            if halfOpenSuccesses b2 \<ge> HalfOpenSuccesses (b_cfg b2)
            then transition BreakerClosed (b2\<lparr>halfOpenSuccesses := 0\<rparr>)
            else b2)
         else if b_state b1 = BreakerOpen then transition BreakerClosed b1
         else b1))"

definition countsAsUnavailable :: "int \<Rightarrow> go_error option \<Rightarrow> bool" where
  "countsAsUnavailable status err \<longleftrightarrow>
     (if err \<noteq> None \<and> status = 0 then True
      else status \<ge> 500 \<or> status = StatusTooManyRequests)"

lemmas breaker_defs = Allow_def Record_def transition_def

section \<open>The invariant\<close>

text \<open>
  What the mutex-protected fields keep true of each other: the counters never pass the
  threshold that would have moved the breaker, and only a half-open breaker has a probe out
  or probe successes counted.
\<close>

definition breaker_inv :: "Breaker \<Rightarrow> bool" where
  "breaker_inv b \<longleftrightarrow>
     0 < FailureThreshold (b_cfg b) \<and> 0 < OpenFor (b_cfg b) \<and> 0 < HalfOpenSuccesses (b_cfg b) \<and>
     0 \<le> consecutiveFailures b \<and>
     (b_state b = BreakerClosed \<longrightarrow> consecutiveFailures b < FailureThreshold (b_cfg b)) \<and>
     0 \<le> halfOpenSuccesses b \<and> halfOpenSuccesses b < HalfOpenSuccesses (b_cfg b) \<and>
     (b_state b \<noteq> BreakerHalfOpen \<longrightarrow> halfOpenSuccesses b = 0 \<and> \<not> halfOpenInFlight b)"

lemma breaker_withDefaults_pos:
  "0 < FailureThreshold (breaker_withDefaults c)"
  "0 < OpenFor (breaker_withDefaults c)"
  "0 < HalfOpenSuccesses (breaker_withDefaults c)"
  by (simp_all add: breaker_withDefaults_def Let_def)

lemma NewBreaker_inv: "breaker_inv (NewBreaker cfg)"
  by (simp add: breaker_inv_def NewBreaker_def breaker_withDefaults_pos)

lemma Allow_inv: "breaker_inv b \<Longrightarrow> breaker_inv (snd (Allow now b))"
  by (auto simp: breaker_inv_def Allow_def transition_def split: BreakerState.splits)

lemma Record_inv: "breaker_inv b \<Longrightarrow> breaker_inv (Record now failed b)"
  by (cases "b_state b") (auto simp: breaker_inv_def Record_def transition_def Let_def)

text \<open>Every interleaving of calls to the two methods, from any number of goroutines.\<close>

inductive breaker_step :: "Breaker \<Rightarrow> Breaker \<Rightarrow> bool" where
  do_allow: "breaker_step b (snd (Allow now b))"
| do_record: "breaker_step b (Record now failed b)"

interpretation brk: invariant_system "\<lambda>b. \<exists>cfg. b = NewBreaker cfg" breaker_step breaker_inv
proof
  show "breaker_inv s" if "\<exists>cfg. s = NewBreaker cfg" for s
    using that NewBreaker_inv by blast
  show "breaker_inv t" if "breaker_inv s" "breaker_step s t" for s t
    using that(2,1) by (induction rule: breaker_step.induct) (simp_all add: Allow_inv Record_inv)
qed

section \<open>Properties\<close>

text \<open>
  In every state that calls to the breaker can reach, from any initial configuration,
  the counters stay below the thresholds that move it: a closed breaker has seen fewer
  consecutive failures than its threshold, a half-open one fewer successful probes than it
  needs, and outside half-open no probe is outstanding.
\<close>

lemma breaker_reachable_inv:
  "breaker_step\<^sup>*\<^sup>* (NewBreaker cfg) b \<Longrightarrow> breaker_inv b"
  by (rule brk.reachable_inv) blast+

lemma breaker_reachable_inv_witness:
  "breaker_inv (Record 7 True (NewBreaker
     \<lparr>FailureThreshold = 1, OpenFor = 10, HalfOpenSuccesses = 1\<rparr>))"
  by (rule breaker_reachable_inv [OF r_into_rtranclp [where r = breaker_step], OF breaker_step.do_record])

text \<open>
  A run of consecutive failures reported to a closed breaker.
\<close>

fun record_failures :: "int list \<Rightarrow> Breaker \<Rightarrow> Breaker" where
  "record_failures [] b = b"
| "record_failures (t # ts) b = record_failures ts (Record t True b)"

lemma Record_failure_closed:
  "b_state b = BreakerClosed \<Longrightarrow> consecutiveFailures b + 1 < FailureThreshold (b_cfg b) \<Longrightarrow>
   b_state (Record t True b) = BreakerClosed \<and>
   consecutiveFailures (Record t True b) = consecutiveFailures b + 1 \<and>
   b_cfg (Record t True b) = b_cfg b"
  by (simp add: Record_def Let_def)

lemma Record_failure_trips:
  "b_state b = BreakerClosed \<Longrightarrow> consecutiveFailures b + 1 \<ge> FailureThreshold (b_cfg b) \<Longrightarrow>
   b_state (Record t True b) = BreakerOpen \<and> openedAt (Record t True b) = t \<and>
   b_cfg (Record t True b) = b_cfg b"
  by (simp add: Record_def Let_def transition_def)

lemma record_failures_snoc [simp]:
  "record_failures (ts @ [t]) b = Record t True (record_failures ts b)"
  by (induction ts arbitrary: b) simp_all

lemma record_failures_closed:
  "b_state b = BreakerClosed \<Longrightarrow>
   consecutiveFailures b + int (length ts) < FailureThreshold (b_cfg b) \<Longrightarrow>
   b_state (record_failures ts b) = BreakerClosed \<and>
   consecutiveFailures (record_failures ts b) = consecutiveFailures b + int (length ts) \<and>
   b_cfg (record_failures ts b) = b_cfg b"
proof (induction ts rule: rev_induct)
  case (snoc t ts)
  then show ?case by (auto simp: Record_failure_closed)
qed simp

text \<open>
  The breaker trips exactly at the threshold: a closed breaker with no failures counted
  stays closed after fewer than \<open>FailureThreshold\<close> consecutive failures, opens on the one that
  reaches it, and then refuses every call until \<open>OpenFor\<close> has passed since that failure.
\<close>

lemma breaker_trips_at_threshold:
  assumes "b_state b = BreakerClosed" and "consecutiveFailures b = 0"
    and "int (length ts) + 1 = FailureThreshold (b_cfg b)"
  shows "b_state (record_failures ts b) = BreakerClosed \<and>
         b_state (record_failures (ts @ [t]) b) = BreakerOpen \<and>
         (\<forall>now. now - t < OpenFor (b_cfg b) \<longleftrightarrow>
                fst (Allow now (record_failures (ts @ [t]) b)) = Some ErrBreakerOpen)"
proof -
  have closed: "b_state (record_failures ts b) = BreakerClosed"
      "consecutiveFailures (record_failures ts b) + 1 \<ge> FailureThreshold (b_cfg (record_failures ts b))"
      "b_cfg (record_failures ts b) = b_cfg b"
    using record_failures_closed [of b ts] assms by auto
  show ?thesis
    using Record_failure_trips [OF closed(1,2), of t] closed(1,3) by (simp add: Allow_def)
qed

lemma breaker_trips_at_threshold_witness:
  "b_state (record_failures [5] (NewBreaker
       \<lparr>FailureThreshold = 2, OpenFor = 10, HalfOpenSuccesses = 1\<rparr>)) = BreakerClosed \<and>
   b_state (record_failures ([5] @ [6]) (NewBreaker
       \<lparr>FailureThreshold = 2, OpenFor = 10, HalfOpenSuccesses = 1\<rparr>)) = BreakerOpen"
  using breaker_trips_at_threshold [where ts = "[5]" and t = 6 and b = "NewBreaker
       \<lparr>FailureThreshold = 2, OpenFor = 10, HalfOpenSuccesses = 1\<rparr>"]
  by (simp add: NewBreaker_def breaker_withDefaults_def)

section \<open>Calls in flight\<close>

text \<open>
  The breaker together with the calls that were allowed and have not been recorded yet. Each
  outstanding call remembers whether it was let through as a half-open probe. A call that
  \<open>Allow\<close> refuses never becomes outstanding; \<open>Finish\<close> reports the outcome of an outstanding
  call, as \<open>Client.do\<close> does once per allowed attempt.
\<close>

datatype breaker_event = Start nat int | Finish nat bool int

fun breaker_run :: "breaker_event list \<Rightarrow> Breaker \<times> (nat \<times> bool) list \<Rightarrow> Breaker \<times> (nat \<times> bool) list"
where
  "breaker_run [] s = s"
| "breaker_run (Start i now # es) (b, calls) =
     (case Allow now b of
        (None, b') \<Rightarrow> breaker_run es (b', (i, b_state b' = BreakerHalfOpen) # calls)
      | (Some e, b') \<Rightarrow> breaker_run es (b', calls))"
| "breaker_run (Finish i failed now # es) (b, calls) =
     (if i \<in> fst ` set calls
      then breaker_run es (Record now failed b, filter (\<lambda>c. fst c \<noteq> i) calls)
      else breaker_run es (b, calls))"

text \<open>
  A half-open breaker does not hold to one probe at a time: with the default
  configuration there is a run in which a call admitted while the breaker was closed finishes
  after the cool-off, its \<open>Record\<close> clears the in-flight mark of the probe that is still out,
  and the next call is admitted as a second simultaneous probe.
\<close>

lemma breaker_two_probes_in_flight:
  "\<exists>es. length (filter snd (snd (breaker_run es
     (NewBreaker \<lparr>FailureThreshold = 0, OpenFor = 0, HalfOpenSuccesses = 0\<rparr>, [])))) = 2"
proof -
  let ?cfg = "\<lparr>FailureThreshold = 0, OpenFor = 0, HalfOpenSuccesses = 0\<rparr>"
  let ?es = "[Start 0 0, Start 1 0, Start 2 0, Start 3 0, Start 4 0, Start 5 0,
              Finish 1 True 1, Finish 2 True 1, Finish 3 True 1, Finish 4 True 1, Finish 5 True 1,
              Start 6 6000000000, Finish 0 False 6000000001, Start 7 6000000002]"
  have "length (filter snd (snd (breaker_run ?es (NewBreaker ?cfg, [])))) = 2"
    by (simp add: NewBreaker_def breaker_withDefaults_def breaker_defs)
  then show ?thesis by blast
qed

end
