(* ===== verification/Http_Client.thy ===== *)
theory Http_Client
  imports Breaker
begin

text \<open>
  \<^verbatim>\<open>src/internal/httpx/client.go\<close>: the client every service uses to call another. The network is
  the environment: for each attempt it supplies what happened on the wire, the clock readings
  the breaker takes and whether the caller's context was cancelled.
\<close>

record ClientConfig =
  Dependency :: string
  ConnectTimeout :: int
  RequestTimeout :: int
  MaxAttempts :: int
  RetryBaseDelay :: int
  RetryMaxDelay :: int
  BreakerCfg :: BreakerConfig
  DisableBreaker :: bool

definition client_withDefaults :: "ClientConfig \<Rightarrow> ClientConfig" where
  "client_withDefaults c0 =
     (let c1 = (if Dependency c0 = '''' then c0\<lparr>Dependency := ''unknown''\<rparr> else c0);
          c2 = (if ConnectTimeout c1 \<le> 0 then c1\<lparr>ConnectTimeout := 500 * 10 ^ 6\<rparr> else c1);
          c3 = (if RequestTimeout c2 \<le> 0 then c2\<lparr>RequestTimeout := 5 * 10 ^ 9\<rparr> else c2);
          c4 = (if MaxAttempts c3 \<le> 0 then c3\<lparr>MaxAttempts := 3\<rparr> else c3);
          c5 = (if RetryBaseDelay c4 \<le> 0 then c4\<lparr>RetryBaseDelay := 50 * 10 ^ 6\<rparr> else c4);
          c6 = (if RetryMaxDelay c5 \<le> 0 then c5\<lparr>RetryMaxDelay := 10 ^ 9\<rparr> else c5)
      in c6)"

record Client =
  dependency :: string
  maxAttempts :: int
  baseDelay :: int
  maxDelay :: int
  breaker :: "Breaker option"

definition NewClient :: "ClientConfig \<Rightarrow> Client" where
  "NewClient cfg0 =
     (let cfg = client_withDefaults cfg0 in
      \<lparr>dependency = Dependency cfg, maxAttempts = MaxAttempts cfg,
       baseDelay = RetryBaseDelay cfg, maxDelay = RetryMaxDelay cfg,
       breaker = (if DisableBreaker cfg then None else Some (NewBreaker (BreakerCfg cfg)))\<rparr>)"

datatype http_method = GET | HEAD | PUT | DELETE | OPTIONS | POST | PATCH

definition isIdempotent :: "http_method \<Rightarrow> bool" where
  "isIdempotent m =
     (case m of GET \<Rightarrow> True | HEAD \<Rightarrow> True | PUT \<Rightarrow> True | DELETE \<Rightarrow> True | OPTIONS \<Rightarrow> True
      | _ \<Rightarrow> False)"

definition retryable :: "int \<Rightarrow> go_error option \<Rightarrow> bool" where
  "retryable status err \<longleftrightarrow>
     (if status = 0 \<and> err \<noteq> None then True
      else status \<ge> 500 \<or> status = StatusTooManyRequests)"

text \<open>
  What one request met on the wire: the request could not be built, the transport failed
  (refused, timed out), or a response with a status arrived whose body does or does not
  decode into the caller's value.
\<close>

datatype wire = BuildFailed go_error | TransportFailed go_error | Response int "go_error option"

text \<open>\<open>attempt\<close>; \<open>wants\<close> is \<open>out != nil\<close>.\<close>

fun attempt :: "bool \<Rightarrow> wire \<Rightarrow> int \<times> go_error option" where
  "attempt wants (BuildFailed e) =
     (0, Some (Wrap StatusInternalServerError e ''building request for %s''))"
| "attempt wants (TransportFailed e) =
     (0, Some (Wrap StatusServiceUnavailable e ''calling %s''))"
| "attempt wants (Response code decode) =
     (if code < 200 \<or> code > 299 then (code, Some (Errorf code ''%s %s returned %d''))
      else if \<not> wants \<or> code = StatusNoContent then (code, None)
      else (case decode of
              Some e \<Rightarrow> (code, Some (Wrap StatusBadGateway e ''decoding response from %s''))
            | None \<Rightarrow> (code, None)))"

text \<open>
  The jittered delay before the next attempt. \<open>draw n\<close> is \<open>rand.Int64N(n)\<close>, a number in
  \<open>[0, n)\<close>; the shift is Go's on \<open>int64\<close>, which drops the bits shifted out.
\<close>

definition backoff :: "Client \<Rightarrow> (int \<Rightarrow> int) \<Rightarrow> nat \<Rightarrow> int" where
  "backoff c draw att =
     (let ceiling0 = wrap64 (baseDelay c * 2 ^ (att - 1));
          ceiling = (if ceiling0 > maxDelay c \<or> ceiling0 \<le> 0 then maxDelay c else ceiling0)
      in draw (ceiling + 1))"

text \<open>What the environment does around one attempt.\<close>

record attempt_env =
  ctx_err :: "go_error option"
  allow_at :: int
  on_wire :: wire
  record_at :: int
  wait_err :: "go_error option"

text \<open>
  The retry loop of \<open>do\<close>, from attempt number \<open>att\<close>; \<open>n\<close> attempts are left. It returns the
  error the call returns, the breaker afterwards and what was put on the wire.
\<close>

fun do_loop ::
  "bool \<Rightarrow> nat \<Rightarrow> nat \<Rightarrow> (nat \<Rightarrow> attempt_env) \<Rightarrow> Breaker option
     \<Rightarrow> go_error option \<times> Breaker option \<times> wire list" where
  "do_loop wants att 0 env br = (None, br, [])"
| "do_loop wants att (Suc n) env br =
     (let ev = env att in
      case ctx_err ev of
        Some e \<Rightarrow> (Some (Wrap StatusServiceUnavailable e ''calling %s''), br, [])
      | None \<Rightarrow>
        (case (case br of None \<Rightarrow> (None, None)
                        | Some b \<Rightarrow> (let (r, b') = Allow (allow_at ev) b in (r, Some b'))) of
           (Some e, br1) \<Rightarrow>
             (Some (Wrap StatusServiceUnavailable e ''%s is unavailable (circuit open)''), br1, [])
         | (None, br1) \<Rightarrow>
             (let (status, err) = attempt wants (on_wire ev);
                  br2 = map_option (Record (record_at ev) (countsAsUnavailable status err)) br1
              in case err of
                   None \<Rightarrow> (None, br2, [on_wire ev])
                 | Some e \<Rightarrow>
                     (if n = 0 \<or> \<not> retryable status err then (Some e, br2, [on_wire ev])
                      else (case wait_err ev of
                              Some we \<Rightarrow> (Some (Wrap StatusServiceUnavailable we ''calling %s''),
                                          br2, [on_wire ev])
                            | None \<Rightarrow>
                                (let (r, br3, ws) = do_loop wants (Suc att) n env br2
                                 in (r, br3, on_wire ev # ws)))))))"

text \<open>\<open>do\<close>; \<open>encode_err\<close> is the outcome of \<open>json.Marshal(body)\<close>.\<close>

definition do_call ::
  "Client \<Rightarrow> http_method \<Rightarrow> bool \<Rightarrow> go_error option \<Rightarrow> (nat \<Rightarrow> attempt_env)
     \<Rightarrow> go_error option \<times> Client \<times> wire list" where
  "do_call c m wants encode_err env =
     (case encode_err of
        Some e \<Rightarrow> (Some (Wrap StatusInternalServerError e ''encoding request for %s''), c, [])
      | None \<Rightarrow>
          (let attempts = (if isIdempotent m then nat (maxAttempts c) else 1);
               (r, br, ws) = do_loop wants 1 attempts env (breaker c)
           in (r, c\<lparr>breaker := br\<rparr>, ws)))"

section \<open>Properties\<close>

lemma do_loop_wire_bound: "length (snd (snd (do_loop wants att n env br))) \<le> n"
  by (induction wants att n env br rule: do_loop.induct)
    (auto simp: Let_def split: option.splits prod.splits)

lemma do_loop_one_wire: "length (snd (snd (do_loop wants att 1 env br))) \<le> 1"
  by (rule do_loop_wire_bound)

text \<open>
  C29. A call never puts more than its budget on the wire: a POST is sent at most once, so
  the transport cannot charge a card or hold stock twice, and an idempotent method at most
  \<open>maxAttempts\<close> times.
\<close>

theorem post_sent_at_most_once:
  "length (snd (snd (do_call c POST wants enc env))) \<le> 1 \<and>
   length (snd (snd (do_call c m wants enc env))) \<le> max 1 (nat (maxAttempts c))"
  using do_loop_wire_bound [of wants 1 1 env "breaker c"]
    do_loop_wire_bound [of wants 1 "nat (maxAttempts c)" env "breaker c"]
  by (auto simp: do_call_def isIdempotent_def Let_def split: option.splits prod.splits)

text \<open>What a caller can conclude from a nil error: the last thing on the wire was a success.\<close>

lemma attempt_ok_2xx:
  "attempt wants w = (s, None) \<Longrightarrow> \<exists>d. w = Response s d \<and> 200 \<le> s \<and> s \<le> 299"
  by (cases w) (auto split: if_splits option.splits)

lemma do_loop_ok:
  "do_loop wants att n env br = (None, br', ws) \<Longrightarrow> 0 < n \<Longrightarrow>
   ws \<noteq> [] \<and> snd (attempt wants (last ws)) = None"
proof (induction wants att n env br arbitrary: br' ws rule: do_loop.induct)
  case (2 wants att n env br)
  show ?case
  proof (cases "n = 0")
    case True
    with "2.prems" show ?thesis
      by (auto simp: Let_def split: option.splits prod.splits if_splits)
  next
    case False
    with "2.prems" "2.IH" show ?thesis
      by (fastforce simp: Let_def split: option.splits prod.splits if_splits)
  qed
qed simp

text \<open>
  A call returns no error only when the last attempt it made was answered with a status
  in the 200s: a loop that ran out of attempts, an open breaker and a cancelled context all
  surface as an error.
\<close>

lemma nil_error_means_2xx:
  assumes "do_call c m wants enc env = (None, c', ws)" and "0 < maxAttempts c"
  shows "\<exists>code d. ws \<noteq> [] \<and> last ws = Response code d \<and> 200 \<le> code \<and> code \<le> 299"
proof -
  obtain att br where "do_loop wants 1 att env (breaker c) = (None, br, ws)" and "0 < att"
    using assms by (auto simp: do_call_def Let_def split: option.splits prod.splits if_splits)
  then have "ws \<noteq> []" and "snd (attempt wants (last ws)) = None"
    using do_loop_ok by blast+
  then show ?thesis
    using attempt_ok_2xx [of wants "last ws" "fst (attempt wants (last ws))"]
    by (metis prod.collapse)
qed

definition demo_env :: attempt_env where
  "demo_env = \<lparr>ctx_err = None, allow_at = 0, on_wire = Response 200 None, record_at = 0,
               wait_err = None\<rparr>"

definition demo_client :: Client where
  "demo_client = \<lparr>dependency = ''kv'', maxAttempts = 3, baseDelay = 50000000,
                  maxDelay = 1000000000, breaker = None\<rparr>"

lemma nil_error_means_2xx_witness:
  "\<exists>code d. [Response 200 None] \<noteq> [] \<and> last [Response 200 None] = Response code d \<and>
            200 \<le> code \<and> code \<le> 299"
proof (rule nil_error_means_2xx)
  show "do_call demo_client POST True None (\<lambda>_. demo_env) = (None, demo_client, [Response 200 None])"
    by (simp add: do_call_def isIdempotent_def demo_client_def demo_env_def)
  show "0 < maxAttempts demo_client"
    by (simp add: demo_client_def)
qed

text \<open>
  The back-off before any retry, however large the attempt number and however the shift
  overflows, is between zero and the configured maximum.
\<close>

lemma backoff_bounded:
  assumes "\<And>n. 0 < n \<Longrightarrow> 0 \<le> draw n \<and> draw n < n" and "0 < maxDelay c"
  shows "0 \<le> backoff c draw att \<and> backoff c draw att \<le> maxDelay c"
  using assms(1) [of "maxDelay c + 1"] assms(1) [of "wrap64 (baseDelay c * 2 ^ (att - 1)) + 1"] assms(2)
  by (auto simp: backoff_def Let_def)

lemma backoff_bounded_witness:
  "0 \<le> backoff demo_client (\<lambda>n. n - 1) 60 \<and> backoff demo_client (\<lambda>n. n - 1) 60 \<le> maxDelay demo_client"
  by (rule backoff_bounded) (simp_all add: demo_client_def)

end
