(* ===== verification/Orders.thy ===== *)
theory Orders
  imports Httpx_Errors "HOL-Library.AList"
begin

text \<open>
  The order line shared by cart and warehouse (\<^verbatim>\<open>src/internal/orders/orders.go\<close>) and the
  warehouse's canonical form of a list of lines (\<open>normalize\<close> and \<open>sameItems\<close> of
  \<^verbatim>\<open>src/internal/warehouse/inventory.go\<close>). Go visits the map of totals in an unspecified order, but
  the ids are sorted before use, so the result does not depend on it.
\<close>

record orders_Item =
  o_ProductID :: string
  o_Quantity :: int

fun add_totals :: "orders_Item list \<Rightarrow> (string \<times> int) list \<Rightarrow> (string \<times> int) list res" where
  "add_totals [] totals = Inr totals"
| "add_totals (it # its) totals =
     (let held = (case map_of totals (o_ProductID it) of None \<Rightarrow> 0 | Some t \<Rightarrow> t) in
      if o_ProductID it = '''' \<or> o_Quantity it \<le> 0
      then Inl (Errorf StatusBadRequest ''positive quantity and productId required'')
      else if held > MaxInt - o_Quantity it
      then Inl (Errorf StatusBadRequest ''quantity sum overflows'')
      else add_totals its (AList.update (o_ProductID it) (wrap64 (held + o_Quantity it)) totals))"

definition normalize :: "orders_Item list \<Rightarrow> orders_Item list res" where
  "normalize items =
     (if items = [] then Inl (Errorf StatusBadRequest ''items must not be empty'')
      else (case add_totals items [] of
              Inl err \<Rightarrow> Inl err
            | Inr totals \<Rightarrow>
                Inr (map (\<lambda>(k, t). \<lparr>o_ProductID = k, o_Quantity = t\<rparr>) (sort_key fst totals))))"

fun sameItems :: "orders_Item list \<Rightarrow> orders_Item list \<Rightarrow> bool" where
  "sameItems [] [] = True"
| "sameItems (a # as) (b # bs) = (a = b \<and> sameItems as bs)"
| "sameItems _ _ = False"

lemma sameItems_eq [simp]: "sameItems xs ys \<longleftrightarrow> xs = ys"
  by (induction xs ys rule: sameItems.induct) auto

section \<open>What normalization keeps\<close>

text \<open>The units of product \<open>p\<close> in a list of lines.\<close>

definition qty :: "string \<Rightarrow> orders_Item list \<Rightarrow> int" where
  "qty p items = (\<Sum>it \<leftarrow> items. if o_ProductID it = p then o_Quantity it else 0)"

lemma qty_simps [simp]:
  "qty p [] = 0"
  "qty p (it # its) = (if o_ProductID it = p then o_Quantity it else 0) + qty p its"
  "qty p (xs @ ys) = qty p xs + qty p ys"
  by (simp_all add: qty_def)

text \<open>Canonical lines: no product twice, in order, each with a positive quantity.\<close>

definition canonical :: "orders_Item list \<Rightarrow> bool" where
  "canonical items \<longleftrightarrow> sorted (map o_ProductID items) \<and> distinct (map o_ProductID items) \<and>
     (\<forall>it \<in> set items. o_ProductID it \<noteq> '''' \<and> 0 < o_Quantity it \<and> o_Quantity it \<le> MaxInt)"

definition valid_lines :: "orders_Item list \<Rightarrow> bool" where
  "valid_lines items \<longleftrightarrow> items \<noteq> [] \<and> (\<forall>it \<in> set items. o_ProductID it \<noteq> '''' \<and> 0 < o_Quantity it) \<and>
     (\<forall>p. qty p items \<le> MaxInt)"

definition tot :: "(string \<times> int) list \<Rightarrow> string \<Rightarrow> int" where
  "tot totals p = (case map_of totals p of None \<Rightarrow> 0 | Some t \<Rightarrow> t)"

definition totals_ok :: "(string \<times> int) list \<Rightarrow> bool" where
  "totals_ok totals \<longleftrightarrow> distinct (map fst totals) \<and>
     (\<forall>(k, t) \<in> set totals. k \<noteq> '''' \<and> 0 < t \<and> t \<le> MaxInt)"

lemma qty_absent: "p \<notin> o_ProductID ` set items \<Longrightarrow> qty p items = 0"
  by (induction items) auto

lemma qty_nonneg: "\<forall>it \<in> set items. 0 < o_Quantity it \<Longrightarrow> 0 \<le> qty p items"
  by (induction items) auto

lemma tot_update: "tot (AList.update k t totals) p = (if p = k then t else tot totals p)"
  by (simp add: tot_def update_conv')

lemma totals_ok_update:
  assumes "totals_ok totals" and "k \<noteq> ''''" "0 < t" "t \<le> MaxInt"
  shows "totals_ok (AList.update k t totals)"
proof -
  have "(j, x) = (k, t) \<or> (j, x) \<in> set totals" if "(j, x) \<in> set (AList.update k t totals)" for j x
    using that by (induction totals) (auto split: if_splits)
  with assms show ?thesis
    by (fastforce simp: totals_ok_def distinct_update)
qed

lemma tot_range: "totals_ok totals \<Longrightarrow> 0 \<le> tot totals p \<and> tot totals p \<le> MaxInt"
  by (fastforce simp: tot_def totals_ok_def MaxInt_def dest: map_of_SomeD split: option.split)

lemma add_totals_ok:
  assumes "add_totals items totals = Inr out" and "totals_ok totals"
  shows "totals_ok out \<and> (\<forall>p. tot out p = tot totals p + qty p items) \<and>
         (\<forall>it \<in> set items. o_ProductID it \<noteq> '''' \<and> 0 < o_Quantity it)"
  using assms
proof (induction items totals rule: add_totals.induct)
  case (2 it its totals)
  let ?k = "o_ProductID it" and ?q = "o_Quantity it"
  let ?t = "tot totals ?k"
  have guard: "?k \<noteq> ''''" "0 < ?q" "?t + ?q \<le> MaxInt"
    using "2.prems"(1) by (auto simp: Let_def tot_def split: if_splits option.splits)
  have range: "0 \<le> ?t" using tot_range [OF "2.prems"(2)] by blast
  then have w: "wrap64 (?t + ?q) = ?t + ?q"
    using guard by (intro wrap64_id) (simp add: MinInt_def)
  have rest: "add_totals its (AList.update ?k (?t + ?q) totals) = Inr out"
    using "2.prems"(1) w by (auto simp: Let_def tot_def split: if_splits option.splits)
  have "totals_ok (AList.update ?k (?t + ?q) totals)"
    using "2.prems"(2) guard range by (intro totals_ok_update) simp_all
  then show ?case
    using "2.IH" [OF refl] rest w guard by (auto simp: tot_def [symmetric] tot_update Let_def)
qed simp

lemma add_totals_complete:
  assumes "totals_ok totals" and "\<forall>it \<in> set items. o_ProductID it \<noteq> '''' \<and> 0 < o_Quantity it"
    and "\<forall>p. tot totals p + qty p items \<le> MaxInt"
  shows "is_ok (add_totals items totals)"
  using assms
proof (induction items totals rule: add_totals.induct)
  case (2 it its totals)
  let ?k = "o_ProductID it" and ?q = "o_Quantity it"
  let ?t = "tot totals ?k"
  have guard: "?k \<noteq> ''''" "0 < ?q" using "2.prems"(2) by simp_all
  have "?t + qty ?k (it # its) \<le> MaxInt" using "2.prems"(3) by blast
  moreover have "0 \<le> qty ?k its" using "2.prems"(2) by (intro qty_nonneg) simp
  ultimately have le: "?t + ?q \<le> MaxInt" by simp
  have range: "0 \<le> ?t" using tot_range [OF "2.prems"(1)] by blast
  then have w: "wrap64 (?t + ?q) = ?t + ?q"
    using guard le by (intro wrap64_id) (simp add: MinInt_def)
  have "totals_ok (AList.update ?k (?t + ?q) totals)"
    using "2.prems"(1) guard range le by (intro totals_ok_update) simp_all
  moreover have "\<forall>p. tot (AList.update ?k (?t + ?q) totals) p + qty p its \<le> MaxInt"
    using "2.prems"(3) by (auto simp: tot_update add.assoc split: if_splits)
  ultimately show ?case
    using "2.IH" [OF refl] "2.prems"(2) w guard le by (simp add: tot_def [symmetric] Let_def)
qed simp

lemma qty_of_totals:
  assumes "distinct (map fst m)"
  shows "qty p (map (\<lambda>(k, t). \<lparr>o_ProductID = k, o_Quantity = t\<rparr>) m) = tot m p"
  using assms
proof (induction m)
  case (Cons kt m)
  obtain k t where kt: "kt = (k, t)" by force
  have "map_of m k = None" using Cons.prems kt by (simp add: map_of_eq_None_iff)
  then have "tot m k = 0" by (simp add: tot_def)
  with Cons kt show ?case by (auto simp: tot_def)
qed (simp add: tot_def)

lemma tot_sort_key: "distinct (map fst m) \<Longrightarrow> tot (sort_key fst m) p = tot m p"
  using map_of_inject_set [of "sort_key fst m" m]
  by (simp add: tot_def distinct_map_sort_key)

lemma normalize_ok:
  assumes "normalize items = Inr ns"
  shows "canonical ns" and "\<And>p. qty p ns = qty p items" and "valid_lines items"
proof -
  have empty: "totals_ok []" "tot [] p = 0" for p by (simp_all add: totals_ok_def tot_def)
  obtain m where m: "add_totals items [] = Inr m" "items \<noteq> []"
      "ns = map (\<lambda>(k, t). \<lparr>o_ProductID = k, o_Quantity = t\<rparr>) (sort_key fst m)"
    using assms by (auto simp: normalize_def split: if_splits sum.splits)
  note r = add_totals_ok [OF m(1) empty(1)]
  have dist: "distinct (map fst m)" using r by (simp add: totals_ok_def)
  have keys: "map o_ProductID ns = map fst (sort_key fst m)"
    by (simp add: m(3) case_prod_unfold comp_def)
  show "qty p ns = qty p items" for p
    using qty_of_totals [of "sort_key fst m" p] dist r
    by (simp add: m(3) distinct_map_sort_key tot_sort_key empty)
  have "distinct (map fst (sort_key fst m))" by (simp only: dist distinct_map_sort_key)
  then show "canonical ns"
    unfolding canonical_def keys using r by (auto simp: m(3) totals_ok_def)
  have "qty p items \<le> MaxInt" for p
    using r tot_range [of m p] by (simp add: empty)
  then show "valid_lines items" using r m(2) by (simp add: valid_lines_def)
qed

text \<open>
  Normalizing lines succeeds exactly on a non-empty list of named products with positive
  quantities whose totals fit an \<open>int\<close>, and then gives canonical lines (sorted, no product
  twice, positive) with the same units of every product. No total wraps.
\<close>

lemma normalize_correct:
  "(is_ok (normalize items) \<longleftrightarrow> valid_lines items) \<and>
   (\<forall>ns. normalize items = Inr ns \<longrightarrow> canonical ns \<and> (\<forall>p. qty p ns = qty p items))"
proof -
  have "is_ok (normalize items)" if "valid_lines items"
    using that add_totals_complete [of "[]" items]
    by (cases "add_totals items []") (auto simp: normalize_def valid_lines_def totals_ok_def tot_def)
  then have "is_ok (normalize items) \<longleftrightarrow> valid_lines items"
    using normalize_ok(3) by (cases "normalize items") auto
  with normalize_ok show ?thesis by blast
qed


definition demo_lines :: "orders_Item list" where
  "demo_lines = [\<lparr>o_ProductID = ''p2'', o_Quantity = 1\<rparr>, \<lparr>o_ProductID = ''p1'', o_Quantity = 2\<rparr>,
                 \<lparr>o_ProductID = ''p2'', o_Quantity = 3\<rparr>]"

lemma normalize_demo:
  "normalize demo_lines = Inr [\<lparr>o_ProductID = ''p1'', o_Quantity = 2\<rparr>, \<lparr>o_ProductID = ''p2'', o_Quantity = 4\<rparr>]"
  by (simp add: normalize_def demo_lines_def Let_def MaxInt_def MinInt_def wrap64_def)

lemma normalize_correct_witness:
  "canonical [\<lparr>o_ProductID = ''p1'', o_Quantity = 2\<rparr>, \<lparr>o_ProductID = ''p2'', o_Quantity = 4\<rparr>] \<and>
   valid_lines demo_lines"
  using normalize_correct [of demo_lines] normalize_demo by simp

end
