(* ===== verification/Go_Float.thy ===== *)
theory Go_Float
  imports Prelude "HOL-Library.Log_Nat"
begin

text \<open>
  Go's \<open>float64\<close>: IEEE 754 binary64 with round to nearest, ties to even, as the cart's prices
  and weights use it. A finite value is the rational it denotes; the sign of zero is not
  represented, no comparison or total of the program depends on it.
\<close>

datatype float64 = NaN | Inf bool | Fin rat

text \<open>The exponent \<open>e\<close> with \<open>2^e \<le> x < 2^(e+1)\<close>, for positive \<open>x\<close>.\<close>

definition expo :: "rat \<Rightarrow> int" where
  "expo x = (let (n, d) = quotient_of x; e = bitlen n - bitlen d
             in if 2 powi e \<le> x then e else e - 1)"

definition round_even :: "rat \<Rightarrow> int" where
  "round_even x = (let f = \<lfloor>x\<rfloor>; d = x - of_int f
                   in if d < 1 / 2 then f else if d > 1 / 2 then f + 1
                      else if even f then f else f + 1)"

definition rnd :: "rat \<Rightarrow> float64" where
  "rnd x = (if x = 0 then Fin 0
            else (let u = max (expo \<bar>x\<bar> - 52) (- 1074); y = of_int (round_even (x / 2 powi u)) * 2 powi u
                  in if \<bar>y\<bar> \<ge> 2 powi 1024 then Inf (x < 0) else Fin y))"

fun fadd :: "float64 \<Rightarrow> float64 \<Rightarrow> float64" where
  "fadd NaN y = NaN"
| "fadd x NaN = NaN"
| "fadd (Inf s) (Inf t) = (if s = t then Inf s else NaN)"
| "fadd (Inf s) (Fin b) = Inf s"
| "fadd (Fin a) (Inf t) = Inf t"
| "fadd (Fin a) (Fin b) = rnd (a + b)"

fun fmul :: "float64 \<Rightarrow> float64 \<Rightarrow> float64" where
  "fmul NaN y = NaN"
| "fmul x NaN = NaN"
| "fmul (Inf s) (Inf t) = Inf (s \<noteq> t)"
| "fmul (Inf s) (Fin b) = (if b = 0 then NaN else Inf (s \<noteq> (b < 0)))"
| "fmul (Fin a) (Inf t) = (if a = 0 then NaN else Inf ((a < 0) \<noteq> t))"
| "fmul (Fin a) (Fin b) = rnd (a * b)"

text \<open>Division by a positive finite constant.\<close>

fun fdiv_const :: "float64 \<Rightarrow> rat \<Rightarrow> float64" where
  "fdiv_const NaN c = NaN"
| "fdiv_const (Inf s) c = Inf s"
| "fdiv_const (Fin a) c = rnd (a / c)"

definition float_of_int :: "int \<Rightarrow> float64" where
  "float_of_int n = rnd (of_int n)"

text \<open>\<open>math.Round\<close>: halves away from zero; the result is a \<open>float64\<close> without rounding.\<close>

fun math_Round :: "float64 \<Rightarrow> float64" where
  "math_Round NaN = NaN"
| "math_Round (Inf s) = Inf s"
| "math_Round (Fin a) = Fin (if a < 0 then - of_int \<lfloor>- a + 1 / 2\<rfloor> else of_int \<lfloor>a + 1 / 2\<rfloor>)"

fun fge_zero :: "float64 \<Rightarrow> bool" where
  "fge_zero NaN = False"
| "fge_zero (Inf neg) = (\<not> neg)"
| "fge_zero (Fin a) = (0 \<le> a)"

section \<open>Exact values\<close>

lemma bitlen_bounds_rat:
  assumes "0 < n"
  shows "2 powi (bitlen n - 1) \<le> (of_int n :: rat)" and "(of_int n :: rat) < 2 powi bitlen n"
proof -
  have b: "2 ^ nat (bitlen n - 1) \<le> n \<and> n < 2 ^ nat (bitlen n)"
    using bitlen_bounds [OF assms] .
  have len: "0 < bitlen n"
  proof (rule ccontr)
    assume "\<not> 0 < bitlen n"
    with b assms show False by simp
  qed
  from b have "(2 :: rat) ^ nat (bitlen n - 1) \<le> of_int n" "of_int n < (2 :: rat) ^ nat (bitlen n)"
    by (metis of_int_le_iff of_int_numeral of_int_power, metis of_int_less_iff of_int_numeral of_int_power)
  with len show "2 powi (bitlen n - 1) \<le> (of_int n :: rat)" "(of_int n :: rat) < 2 powi bitlen n"
    by (simp_all add: power_int_def)
qed

lemma expo_lower:
  assumes "0 < x"
  shows "2 powi (expo x) \<le> x"
proof -
  obtain n d where q: "quotient_of x = (n, d)" by force
  have d: "0 < d" using quotient_of_denom_pos [OF q] .
  have x: "x = of_int n / of_int d" using quotient_of_div [OF q] .
  have n: "0 < n" using assms x d by (simp add: zero_less_divide_iff)
  have "2 powi (bitlen n - 1) / 2 powi bitlen d \<le> (of_int n :: rat) / of_int d"
    using bitlen_bounds_rat [OF n] bitlen_bounds_rat [OF d] d n by (intro frac_le) simp_all
  moreover have "2 powi (bitlen n - bitlen d - 1) = 2 powi (bitlen n - 1) / (2 powi bitlen d :: rat)"
    by (simp add: power_int_diff)
  ultimately have "2 powi (bitlen n - bitlen d - 1) \<le> x" by (simp only: x)
  then show ?thesis using q by (simp add: expo_def Let_def)
qed

lemma expo_less:
  assumes "0 < x" and "x < 2 powi k"
  shows "expo x < k"
proof (rule ccontr)
  assume "\<not> expo x < k"
  then have "(2 :: rat) powi k \<le> 2 powi (expo x)" by (intro power_int_increasing) simp_all
  with expo_lower [OF assms(1)] assms(2) show False by simp
qed

lemma round_even_int: "round_even (of_int m) = m"
  by (simp add: round_even_def)

text \<open>Integers below \<open>2^53\<close> in magnitude are represented exactly.\<close>

lemma rnd_int:
  assumes "\<bar>n\<bar> < 2 ^ 53"
  shows "rnd (of_int n) = Fin (of_int n)"
proof (cases "n = 0")
  case True
  then show ?thesis by (simp add: rnd_def)
next
  case False
  let ?x = "of_int n :: rat"
  have lt: "\<bar>?x\<bar> < 2 ^ 53" using assms by (metis of_int_abs of_int_less_iff of_int_numeral of_int_power)
  then have "expo \<bar>?x\<bar> < 53" using False by (intro expo_less) (simp_all add: power_int_def)
  define u where "u = max (expo \<bar>?x\<bar> - 52) (- 1074)"
  have u: "u \<le> 0" using \<open>expo \<bar>?x\<bar> < 53\<close> by (simp add: u_def)
  then have p: "(2 :: rat) powi u = 1 / 2 ^ nat (- u)"
    by (cases "u = 0") (simp_all add: power_int_def inverse_eq_divide power_one_over)
  have "?x / 2 powi u = of_int (n * 2 ^ nat (- u))" by (simp add: p)
  then have "of_int (round_even (?x / 2 powi u)) * 2 powi u = ?x"
    by (simp only: round_even_int) (simp add: p)
  moreover have "\<not> 2 powi 1024 \<le> \<bar>?x\<bar>" using lt by (simp add: power_int_def)
  ultimately show ?thesis using False by (simp add: rnd_def u_def [symmetric] Let_def)
qed

lemma float_of_int_exact: "\<bar>n\<bar> < 2 ^ 53 \<Longrightarrow> float_of_int n = Fin (of_int n)"
  by (simp add: float_of_int_def rnd_int)

lemma fadd_int: "\<bar>a + b\<bar> < 2 ^ 53 \<Longrightarrow> fadd (Fin (of_int a)) (Fin (of_int b)) = Fin (of_int (a + b))"
  using rnd_int [of "a + b"] by simp

lemma fmul_int: "\<bar>a * b\<bar> < 2 ^ 53 \<Longrightarrow> fmul (Fin (of_int a)) (Fin (of_int b)) = Fin (of_int (a * b))"
  using rnd_int [of "a * b"] by simp

lemma math_Round_int: "math_Round (Fin (of_int a)) = Fin (of_int a)"
proof -
  have half: "\<lfloor>(of_int k :: rat) + 1 / 2\<rfloor> = k" for k by linarith
  show ?thesis using half [of a] half [of "- a"] by simp
qed

end
