(* ===== verification/Cart_Model.thy ===== *)
theory Cart_Model
  imports Orders Go_Float
begin

text \<open>
  \<^verbatim>\<open>src/internal/cart/model.go\<close> and the views and authorization of \<^verbatim>\<open>src/internal/cart/server.go\<close>: a
  cart and its lines, totals in \<open>float64\<close>, the mapping between customers and cart ids.
  Quantities are \<open>int64\<close> and wrap.
\<close>

definition cart_KeyPrefix :: string where "cart_KeyPrefix = ''cart-''"
definition OrderKeyPrefix :: string where "OrderKeyPrefix = ''order:''"

record cart_Item =
  ci_ProductID :: string
  ci_Name :: string
  ci_Quantity :: int
  ci_UnitWeight :: float64
  ci_UnitPrice :: float64

definition LineWeight :: "cart_Item \<Rightarrow> float64" where
  "LineWeight i = fmul (ci_UnitWeight i) (float_of_int (ci_Quantity i))"

definition LinePrice :: "cart_Item \<Rightarrow> float64" where
  "LinePrice i = fmul (ci_UnitPrice i) (float_of_int (ci_Quantity i))"

definition item_Order :: "cart_Item \<Rightarrow> orders_Item" where
  "item_Order i = \<lparr>o_ProductID = ci_ProductID i, o_Quantity = ci_Quantity i\<rparr>"

record Cart =
  ct_CartID :: string
  ct_CustomerID :: string
  ct_Items :: "cart_Item list"
  ct_CreatedAt :: int
  ct_UpdatedAt :: int

definition IDFor :: "string \<Rightarrow> string" where
  "IDFor customerID = cart_KeyPrefix @ customerID"

definition NewCart :: "int \<Rightarrow> string \<Rightarrow> Cart" where
  "NewCart now customerID =
     \<lparr>ct_CartID = IDFor customerID, ct_CustomerID = customerID, ct_Items = [],
      ct_CreatedAt = now, ct_UpdatedAt = now\<rparr>"

definition CustomerFor :: "string \<Rightarrow> string res" where
  "CustomerFor cartID =
     (if \<not> HasPrefix cartID cart_KeyPrefix
      then Inl (Errorf StatusBadRequest ''invalid cartId %q: expected it to start with %q'')
      else (let customerID = TrimPrefix cartID cart_KeyPrefix
            in if customerID = '''' then Inl (Errorf StatusBadRequest ''invalid cartId %q: no customer id'')
               else Inr customerID))"

text \<open>The loop of \<open>AddOrMerge\<close>: \<open>None\<close> when no line is for the product.\<close>

fun merge_line :: "cart_Item \<Rightarrow> cart_Item list \<Rightarrow> cart_Item list option" where
  "merge_line item [] = None"
| "merge_line item (i # is) =
     (if ci_ProductID i = ci_ProductID item
      then Some (i\<lparr>ci_Quantity := wrap64 (ci_Quantity i + ci_Quantity item),
                   ci_UnitWeight := ci_UnitWeight item, ci_UnitPrice := ci_UnitPrice item,
                   ci_Name := (if ci_Name item \<noteq> '''' then ci_Name item else ci_Name i)\<rparr> # is)
      else map_option ((#) i) (merge_line item is))"

definition AddOrMerge :: "int \<Rightarrow> cart_Item \<Rightarrow> Cart \<Rightarrow> Cart" where
  "AddOrMerge now item c =
     (case merge_line item (ct_Items c) of
        Some is \<Rightarrow> c\<lparr>ct_Items := is, ct_UpdatedAt := now\<rparr>
      | None \<Rightarrow> c\<lparr>ct_Items := ct_Items c @ [item], ct_UpdatedAt := now\<rparr>)"

definition IsEmpty :: "Cart \<Rightarrow> bool" where
  "IsEmpty c \<longleftrightarrow> ct_Items c = []"

definition round2 :: "float64 \<Rightarrow> float64" where
  "round2 v = fdiv_const (math_Round (fmul v (Fin 100))) 100"

fun sum_lines :: "(cart_Item \<Rightarrow> float64) \<Rightarrow> cart_Item list \<Rightarrow> float64 \<Rightarrow> float64" where
  "sum_lines f [] acc = acc"
| "sum_lines f (i # is) acc = sum_lines f is (fadd acc (f i))"

definition TotalWeight :: "Cart \<Rightarrow> float64" where
  "TotalWeight c = round2 (sum_lines LineWeight (ct_Items c) (Fin 0))"

definition TotalPrice :: "Cart \<Rightarrow> float64" where
  "TotalPrice c = round2 (sum_lines LinePrice (ct_Items c) (Fin 0))"

definition OrderItems :: "Cart \<Rightarrow> orders_Item list" where
  "OrderItems c = map item_Order (ct_Items c)"

section \<open>Views and authorization\<close>

record lineView =
  lv_Item :: cart_Item
  lv_LineWeight :: float64
  lv_LinePrice :: float64

record cartView =
  cv_CartID :: string
  cv_CustomerID :: string
  cv_Items :: "lineView list"
  cv_TotalWeight :: float64
  cv_TotalPrice :: float64

definition viewOf :: "Cart \<Rightarrow> cartView" where
  "viewOf c = \<lparr>cv_CartID = ct_CartID c, cv_CustomerID = ct_CustomerID c,
     cv_Items = map (\<lambda>i. \<lparr>lv_Item = i, lv_LineWeight = round2 (LineWeight i), lv_LinePrice = round2 (LinePrice i)\<rparr>)
                  (ct_Items c),
     cv_TotalWeight = TotalWeight c, cv_TotalPrice = TotalPrice c\<rparr>"

text \<open>\<open>caller\<close> is the identity header the gateway sets; empty when there is none.\<close>

definition cart_handleCreate :: "string \<Rightarrow> string res \<Rightarrow> (string \<times> string) res" where
  "cart_handleCreate caller body =
     (case body of
        Inl err \<Rightarrow> Inl err
      | Inr requested \<Rightarrow>
          (let customerID = (if caller \<noteq> '''' then caller else requested)
           in if customerID = '''' then Inl (Errorf StatusBadRequest ''customerId is required'')
              else Inr (IDFor customerID, customerID)))"

definition cart_authorize :: "string \<Rightarrow> string \<Rightarrow> string res" where
  "cart_authorize caller cartID =
     (case CustomerFor cartID of
        Inl err \<Rightarrow> Inl err
      | Inr owner \<Rightarrow>
          (if caller = '''' then Inr owner
           else if caller \<noteq> owner then Inl (Errorf StatusNotFound ''no cart %s for this customer'')
           else Inr owner))"

section \<open>Properties\<close>

lemma item_Order_simps [simp]: "o_ProductID (item_Order i) = ci_ProductID i" "o_Quantity (item_Order i) = ci_Quantity i"
  by (simp_all add: item_Order_def)

lemma CustomerFor_IDFor: "customerID \<noteq> '''' \<Longrightarrow> CustomerFor (IDFor customerID) = Inr customerID"
  by (simp add: CustomerFor_def IDFor_def HasPrefix_def TrimPrefix_def)

text \<open>
  Only its owner may act on a cart. A request that carries an identity is let through
  exactly for the cart whose id is derived from that identity, and is answered 404 for any other
  customer's cart; a cart created by an identified caller is the caller's own, whatever the body
  says.
\<close>

lemma cart_access:
  assumes "caller \<noteq> ''''"
  shows "(cart_authorize caller cartID = Inr owner \<longleftrightarrow> cartID = IDFor caller \<and> owner = caller) \<and>
         (customer \<noteq> '''' \<and> customer \<noteq> caller \<longrightarrow>
            (\<exists>e. cart_authorize caller (IDFor customer) = Inl e \<and> StatusOf (Some e) = StatusNotFound)) \<and>
         cart_handleCreate caller (Inr requested) = Inr (IDFor caller, caller)"
proof -
  have own: "cart_authorize caller (IDFor caller) = Inr caller"
    using assms by (simp add: cart_authorize_def CustomerFor_IDFor)
  have "cartID = IDFor caller \<and> owner = caller" if "cart_authorize caller cartID = Inr owner"
    using that assms
    by (auto simp: cart_authorize_def CustomerFor_def IDFor_def HasPrefix_def TrimPrefix_def Let_def
        prefix_def split: sum.splits if_splits)
  with own show ?thesis
    using assms by (auto simp: cart_authorize_def CustomerFor_IDFor cart_handleCreate_def)
qed

lemma cart_access_witness: "cart_authorize ''alice'' (IDFor ''alice'') = Inr ''alice''"
  using cart_access [of "''alice''" "IDFor ''alice''" "''alice''"] by simp

text \<open>Lines for distinct products, each with a positive quantity.\<close>

definition cart_ok :: "Cart \<Rightarrow> bool" where
  "cart_ok c \<longleftrightarrow> distinct (map ci_ProductID (ct_Items c)) \<and> (\<forall>i \<in> set (ct_Items c). 0 < ci_Quantity i)"

definition cart_qty :: "string \<Rightarrow> Cart \<Rightarrow> int" where
  "cart_qty p c = qty p (OrderItems c)"

lemma merge_line_None: "merge_line item is = None \<longleftrightarrow> ci_ProductID item \<notin> ci_ProductID ` set is"
  by (induction item "is" rule: merge_line.induct) auto

lemma merge_line_keys: "merge_line item is = Some js \<Longrightarrow> map ci_ProductID js = map ci_ProductID is"
  by (induction item "is" arbitrary: js rule: merge_line.induct) (auto split: if_splits)

lemma merge_line_pos:
  "merge_line item is = Some js \<Longrightarrow> \<forall>i \<in> set is. 0 < ci_Quantity i \<Longrightarrow> 0 < ci_Quantity item \<Longrightarrow>
   qty (ci_ProductID item) (map item_Order is) + ci_Quantity item \<le> MaxInt \<Longrightarrow>
   (\<forall>i \<in> set js. 0 < ci_Quantity i) \<and>
   (\<forall>p. qty p (map item_Order js) = qty p (map item_Order is) + (if p = ci_ProductID item then ci_Quantity item else 0))"
proof (induction item "is" arbitrary: js rule: merge_line.induct)
  case (2 item i "is")
  show ?case
  proof (cases "ci_ProductID i = ci_ProductID item")
    case True
    have "0 \<le> qty (ci_ProductID item) (map item_Order is)"
      using "2.prems"(2) by (intro qty_nonneg) auto
    then have "wrap64 (ci_Quantity i + ci_Quantity item) = ci_Quantity i + ci_Quantity item"
      using "2.prems"(2,3,4) True by (intro wrap64_id) (auto simp: MinInt_def)
    with "2.prems" True show ?thesis by auto
  next
    case False
    then obtain js' where js: "merge_line item is = Some js'" "js = i # js'"
      using "2.prems"(1) by auto
    have "\<forall>i \<in> set is. 0 < ci_Quantity i" "qty (ci_ProductID item) (map item_Order is) + ci_Quantity item \<le> MaxInt"
      using "2.prems"(2,4) False by simp_all
    from "2.IH" [OF False js(1) this(1) "2.prems"(3) this(2)] "2.prems"(2) show ?thesis
      by (simp add: js(2))
  qed
qed simp

text \<open>
  Adding to a cart keeps it well formed and adds exactly the requested units: no product is
  ever on two lines, every quantity stays positive, the units of the added product grow by the
  quantity added and those of every other product do not change, as long as the sum fits an
  \<open>int64\<close>.
\<close>

lemma AddOrMerge_adds:
  assumes "cart_ok c" and "0 < ci_Quantity item"
    and "cart_qty (ci_ProductID item) c + ci_Quantity item \<le> MaxInt"
  shows "cart_ok (AddOrMerge now item c) \<and>
         (\<forall>p. cart_qty p (AddOrMerge now item c) = cart_qty p c + (if p = ci_ProductID item then ci_Quantity item else 0)) \<and>
         ct_CartID (AddOrMerge now item c) = ct_CartID c \<and> ct_CustomerID (AddOrMerge now item c) = ct_CustomerID c"
proof (cases "merge_line item (ct_Items c)")
  case None
  then have "ci_ProductID item \<notin> ci_ProductID ` set (ct_Items c)" by (simp add: merge_line_None)
  with None assms show ?thesis
    by (auto simp: AddOrMerge_def cart_ok_def cart_qty_def OrderItems_def)
next
  case (Some js)
  from merge_line_pos [OF Some] merge_line_keys [OF Some] assms Some show ?thesis
    by (auto simp: AddOrMerge_def cart_ok_def cart_qty_def OrderItems_def)
qed

definition demo_line :: cart_Item where
  "demo_line = \<lparr>ci_ProductID = ''p1'', ci_Name = ''Mug'', ci_Quantity = 2, ci_UnitWeight = Fin 1, ci_UnitPrice = Fin 12\<rparr>"


section \<open>Totals\<close>

lemma sum_lines_exact:
  assumes "\<And>i. i \<in> set items \<Longrightarrow> f i = Fin (of_int (v i)) \<and> 0 \<le> v i"
    and "0 \<le> a" and "a + (\<Sum>i \<leftarrow> items. v i) < 2 ^ 53"
  shows "sum_lines f items (Fin (of_int a)) = Fin (of_int (a + (\<Sum>i \<leftarrow> items. v i)))"
  using assms
proof (induction items arbitrary: a)
  case (Cons i items)
  have nn: "0 \<le> (\<Sum>i \<leftarrow> items. v i)" using Cons.prems(1) by (intro sum_list_nonneg) auto
  have "\<bar>a + v i\<bar> < 2 ^ 53" using Cons.prems(1) [of i] Cons.prems(2,3) nn by simp
  then have "fadd (Fin (of_int a)) (f i) = Fin (of_int (a + v i))"
    using Cons.prems(1) [of i] fadd_int by simp
  then show ?case using Cons.IH [of "a + v i"] Cons.prems by (simp add: add.assoc)
qed simp

lemma round2_exact:
  assumes "\<bar>n * 100\<bar> < 2 ^ 53"
  shows "round2 (Fin (of_int n)) = Fin (of_int n)"
proof -
  have "fmul (Fin (of_int n)) (Fin 100) = Fin (of_int (n * 100))"
    using fmul_int [OF assms] by simp
  then have "round2 (Fin (of_int n)) = fdiv_const (Fin (of_int (n * 100))) 100"
    by (simp only: round2_def math_Round_int)
  also have "\<dots> = rnd (of_int n)" by simp
  also have "\<dots> = Fin (of_int n)" using assms by (intro rnd_int) (auto simp: abs_if split: if_splits)
  finally show ?thesis .
qed

text \<open>
  C37. Money adds up: when unit prices are whole amounts and the total is below \<open>2^53 / 100\<close>, the
  total price of a cart is exactly the sum over its lines of price times quantity, with no
  rounding error in any intermediate \<open>float64\<close>.
\<close>

theorem TotalPrice_exact:
  assumes "\<And>i. i \<in> set (ct_Items c) \<Longrightarrow> ci_UnitPrice i = Fin (of_int (price i)) \<and> 0 \<le> price i \<and>
             0 < ci_Quantity i \<and> ci_Quantity i < 2 ^ 53"
    and "(\<Sum>i \<leftarrow> ct_Items c. price i * ci_Quantity i) * 100 < 2 ^ 53"
  shows "TotalPrice c = Fin (of_int (\<Sum>i \<leftarrow> ct_Items c. price i * ci_Quantity i))"
proof -
  let ?v = "\<lambda>i. price i * ci_Quantity i"
  have nn: "0 \<le> ?v i" if "i \<in> set (ct_Items c)" for i
    using assms(1) [OF that] by simp
  have total0: "0 \<le> (\<Sum>i \<leftarrow> ct_Items c. ?v i)" using nn by (intro sum_list_nonneg) auto
  have le: "?v i \<le> (\<Sum>i \<leftarrow> ct_Items c. ?v i)" if "i \<in> set (ct_Items c)" for i
    using that nn by (intro member_le_sum_list) auto
  have "LinePrice i = Fin (of_int (?v i)) \<and> 0 \<le> ?v i" if i: "i \<in> set (ct_Items c)" for i
  proof -
    have "\<bar>?v i\<bar> < 2 ^ 53" using nn [OF i] le [OF i] assms(2) by simp
    then have "fmul (Fin (of_int (price i))) (Fin (of_int (ci_Quantity i))) = Fin (of_int (?v i))"
      by (rule fmul_int)
    with assms(1) [OF i] nn [OF i] show ?thesis
      by (simp add: LinePrice_def float_of_int_exact del: fmul.simps)
  qed
  from sum_lines_exact [of "ct_Items c" LinePrice ?v 0, OF this] total0 assms(2)
  have "sum_lines LinePrice (ct_Items c) (Fin 0) = Fin (of_int (\<Sum>i \<leftarrow> ct_Items c. ?v i))" by simp
  then show ?thesis
    using round2_exact [of "\<Sum>i \<leftarrow> ct_Items c. ?v i"] assms(2) total0 by (simp add: TotalPrice_def)
qed

theorem TotalPrice_exact_witness:
  "TotalPrice (AddOrMerge 0 demo_line (NewCart 0 ''alice'')) = Fin 24"
  using TotalPrice_exact [of "AddOrMerge 0 demo_line (NewCart 0 ''alice'')" "\<lambda>i. 12"]
  by (simp add: AddOrMerge_def NewCart_def demo_line_def)

end
