(* ===== verification/Redis.thy ===== *)
theory Redis
  imports Httpx_Errors
begin

text \<open>
  Redis as the services use it. The server is not part of the repository: its commands are a
  record of functions on an unspecified state, an argument of every definition that issues one,
  and \<open>redis_ok\<close> is what the documentation promises of \<open>SET\<close> with an expiry, \<open>GET\<close>, \<open>DEL\<close> and
  \<open>GETDEL\<close>. Times and lifetimes are milliseconds of the server's clock. The connection loop of
  \<^verbatim>\<open>src/internal/redisx/redisx.go\<close> is here too.
\<close>

record 'r redis =
  rd_Get :: "int \<Rightarrow> string \<Rightarrow> 'r \<Rightarrow> string option"
  rd_Set :: "int \<Rightarrow> string \<Rightarrow> string \<Rightarrow> int \<Rightarrow> 'r \<Rightarrow> 'r"
  rd_Del :: "string \<Rightarrow> 'r \<Rightarrow> 'r"
  rd_GetDel :: "int \<Rightarrow> string \<Rightarrow> 'r \<Rightarrow> string option \<times> 'r"

definition redis_ok :: "'r redis \<Rightarrow> bool" where
  "redis_ok R \<longleftrightarrow>
     (\<forall>now k v ttl s t. 0 < ttl \<longrightarrow> now \<le> t \<longrightarrow> t < now + ttl \<longrightarrow> rd_Get R t k (rd_Set R now k v ttl s) = Some v) \<and>
     (\<forall>now k v ttl s t. 0 < ttl \<longrightarrow> now + ttl < t \<longrightarrow> rd_Get R t k (rd_Set R now k v ttl s) = None) \<and>
     (\<forall>now k v ttl s t k'. k' \<noteq> k \<longrightarrow> rd_Get R t k' (rd_Set R now k v ttl s) = rd_Get R t k' s) \<and>
     (\<forall>now k v ttl s t. rd_Get R t k (rd_Set R now k v ttl s) \<in> {None, Some v}) \<and>
     (\<forall>k s t k'. rd_Get R t k' (rd_Del R k s) = (if k' = k then None else rd_Get R t k' s)) \<and>
     (\<forall>now k s. rd_GetDel R now k s = (rd_Get R now k s, rd_Del R k s)) \<and>
     (\<forall>k s t t'. t \<le> t' \<longrightarrow> rd_Get R t' k s \<in> {None, rd_Get R t k s})"

lemma redis_okD:
  assumes "redis_ok R"
  shows "0 < ttl \<Longrightarrow> now \<le> t \<Longrightarrow> t < now + ttl \<Longrightarrow> rd_Get R t k (rd_Set R now k v ttl s) = Some v"
    and "0 < ttl \<Longrightarrow> now + ttl < t \<Longrightarrow> rd_Get R t k (rd_Set R now k v ttl s) = None"
    and "k' \<noteq> k \<Longrightarrow> rd_Get R t k' (rd_Set R now k v ttl s) = rd_Get R t k' s"
    and "rd_Get R t k (rd_Set R now k v ttl s) = None \<or> rd_Get R t k (rd_Set R now k v ttl s) = Some v"
    and "rd_Get R t k' (rd_Del R k s) = (if k' = k then None else rd_Get R t k' s)"
    and "rd_GetDel R now k s = (rd_Get R now k s, rd_Del R k s)"
    and "t \<le> t' \<Longrightarrow> rd_Get R t' k s = None \<or> rd_Get R t' k s = rd_Get R t k s"
  using assms unfolding redis_ok_def by simp_all

text \<open>A server that meets the promises: a map of values with the time they expire.\<close>

type_synonym map_server = "string \<rightharpoonup> (string \<times> int)"

definition map_get :: "int \<Rightarrow> string \<Rightarrow> map_server \<Rightarrow> string option" where
  "map_get t k s = (case s k of None \<Rightarrow> None | Some (v, e) \<Rightarrow> if t < e then Some v else None)"

definition map_redis :: "map_server redis" where
  "map_redis = \<lparr>rd_Get = map_get, rd_Set = (\<lambda>now k v ttl s. s(k \<mapsto> (v, now + ttl))),
     rd_Del = (\<lambda>k s. s(k := None)), rd_GetDel = (\<lambda>now k s. (map_get now k s, s(k := None)))\<rparr>"

lemma map_redis_ok: "redis_ok map_redis"
  by (auto simp: redis_ok_def map_redis_def map_get_def split: option.splits)

section \<open>Connecting\<close>

text \<open>\<open>Connect\<close>: each attempt has the context's error before it, the answer to the ping and the
  context's error while it waits.\<close>

record dial_attempt =
  da_ctx :: "go_error option"
  da_ping :: "go_error option"
  da_wait :: "go_error option"

fun dial_loop :: "nat \<Rightarrow> (nat \<Rightarrow> dial_attempt) \<Rightarrow> nat \<Rightarrow> go_error option \<Rightarrow> go_error option" where
  "dial_loop 0 env i lastErr = Some (Wrapped ''redisx: could not reach %s after %d attempts: %w''
                                       (case lastErr of None \<Rightarrow> [] | Some e \<Rightarrow> [e]))"
| "dial_loop (Suc n) env i lastErr =
     (case da_ctx (env i) of
        Some err \<Rightarrow> Some err
      | None \<Rightarrow>
          (case da_ping (env i) of
             None \<Rightarrow> None
           | Some err \<Rightarrow>
               (case da_wait (env i) of
                  Some e \<Rightarrow> Some e
                | None \<Rightarrow> dial_loop n env (Suc i) (Some err))))"

definition redisx_Connect :: "int \<Rightarrow> (nat \<Rightarrow> dial_attempt) \<Rightarrow> go_error option" where
  "redisx_Connect attempts env = dial_loop (nat attempts) env 0 None"

text \<open>Connecting succeeds exactly when some attempt within the budget is answered and the context
  was alive until then.\<close>

lemma dial_loop_ok:
  "dial_loop n env i lastErr = None \<longleftrightarrow>
     (\<exists>j < n. da_ping (env (i + j)) = None \<and> da_ctx (env (i + j)) = None \<and>
        (\<forall>l < j. da_ctx (env (i + l)) = None \<and> da_wait (env (i + l)) = None \<and> da_ping (env (i + l)) \<noteq> None))"
proof (induction n env i lastErr rule: dial_loop.induct)
  case (2 n env i lastErr)
  show ?case
  proof (cases "da_ctx (env i) = None \<and> da_ping (env i) \<noteq> None \<and> da_wait (env i) = None")
    case True
    then obtain err where err: "da_ping (env i) = Some err" by blast
    have "dial_loop (Suc n) env i lastErr = None \<longleftrightarrow> dial_loop n env (Suc i) (Some err) = None"
      using True err by simp
    also have "\<dots> \<longleftrightarrow> (\<exists>j < n. da_ping (env (i + Suc j)) = None \<and> da_ctx (env (i + Suc j)) = None \<and>
        (\<forall>l < j. da_ctx (env (i + Suc l)) = None \<and> da_wait (env (i + Suc l)) = None \<and> da_ping (env (i + Suc l)) \<noteq> None))"
      using 2 True err by simp
    also have "\<dots> \<longleftrightarrow> (\<exists>j < Suc n. da_ping (env (i + j)) = None \<and> da_ctx (env (i + j)) = None \<and>
        (\<forall>l < j. da_ctx (env (i + l)) = None \<and> da_wait (env (i + l)) = None \<and> da_ping (env (i + l)) \<noteq> None))"
      using True err by (simp add: Ex_less_Suc2 All_less_Suc2)
    finally show ?thesis .
  next
    case False
    then show ?thesis by (auto simp: Ex_less_Suc2 All_less_Suc2 split: option.splits)
  qed
qed simp

end
