(* ===== verification/Cache.thy ===== *)
theory Cache
  imports Redis Go_Float
begin

text \<open>
  \<^verbatim>\<open>src/internal/cache/cache.go\<close>: the read-through cache over Redis. A call carries the errors of
  the Redis commands it issues, the error of the request's context and the jitter drawn; the
  loader is the result it would return; times to live are milliseconds. Concurrent misses of one key share one load, so a
  call is one load and one store.
\<close>

record cache_Options =
  co_Name :: string
  co_Prefix :: string
  co_TTL :: int
  co_NegativeTTL :: int
  co_Jitter :: float64

definition cache_withDefaults :: "cache_Options \<Rightarrow> cache_Options" where
  "cache_withDefaults o0 =
     o0\<lparr>co_Name := (if co_Name o0 = '''' then ''default'' else co_Name o0),
        co_TTL := (if co_TTL o0 \<le> 0 then 300000 else co_TTL o0),
        co_NegativeTTL := (if co_NegativeTTL o0 \<le> 0 then 30000 else co_NegativeTTL o0),
        co_Jitter := (case co_Jitter o0 of
                        NaN \<Rightarrow> NaN
                      | Inf neg \<Rightarrow> if neg then rnd (1 / 5) else Inf neg
                      | Fin a \<Rightarrow> if a \<le> 0 then rnd (1 / 5) else Fin a)\<rparr>"

text \<open>A nil client disables the cache.\<close>

record Cache =
  ca_client :: bool
  ca_opts :: cache_Options

definition cache_New :: "bool \<Rightarrow> cache_Options \<Rightarrow> Cache" where
  "cache_New client opts = \<lparr>ca_client = client, ca_opts = cache_withDefaults opts\<rparr>"

definition cache_Enabled :: "Cache option \<Rightarrow> bool" where
  "cache_Enabled c = (case c of None \<Rightarrow> False | Some x \<Rightarrow> ca_client x)"

definition ErrNotFound :: go_error where
  "ErrNotFound = Sentinel ''cache: record not found''"

definition tombstone :: string where
  "tombstone = CHR 0x00 # ''__absent__''"

record cache_call =
  cc_now :: int
  cc_read :: "go_error option"
  cc_ctx :: "go_error option"
  cc_write :: "go_error option"
  cc_ran :: bool
  cc_jitter :: int

text \<open>A write that reports an error may have run all the same, when only its answer was lost: \<open>cc_ran\<close>.
  \<open>cc_jitter\<close> is the drawn \<open>rand.Float64() * ttl * Jitter\<close>.\<close>

definition jitter :: "int \<Rightarrow> int \<Rightarrow> int" where
  "jitter j ttl = ttl - j"

definition cache_store :: "'r redis \<Rightarrow> cache_call \<Rightarrow> string \<Rightarrow> string \<Rightarrow> int \<Rightarrow> 'r \<Rightarrow> 'r" where
  "cache_store R e key val ttl r =
     (if cc_write e \<noteq> None \<and> \<not> cc_ran e then r else rd_Set R (cc_now e) key val (jitter (cc_jitter e) ttl) r)"

text \<open>The loading half: what the singleflight function does with the loader's result.\<close>

definition cache_fill :: "'r redis \<Rightarrow> Cache \<Rightarrow> cache_call \<Rightarrow> string \<Rightarrow> string res \<Rightarrow> 'r \<Rightarrow> string res \<times> 'r" where
  "cache_fill R c e full loaded r =
     (case loaded of
        Inl err \<Rightarrow>
          (Inl err, if errors_is err ''cache: record not found''
                    then cache_store R e full tombstone (co_NegativeTTL (ca_opts c)) r else r)
      | Inr v \<Rightarrow> (Inr v, cache_store R e full v (co_TTL (ca_opts c)) r))"

definition GetOrLoad :: "'r redis \<Rightarrow> Cache option \<Rightarrow> cache_call \<Rightarrow> string \<Rightarrow> string res \<Rightarrow> 'r \<Rightarrow> string res \<times> 'r" where
  "GetOrLoad R co e key loaded r =
     (if \<not> cache_Enabled co then (loaded, r)
      else (let c = the co; full = co_Prefix (ca_opts c) @ key in
            case cc_read e of
              Some err \<Rightarrow> (case cc_ctx e of Some cerr \<Rightarrow> (Inl cerr, r) | None \<Rightarrow> (loaded, r))
            | None \<Rightarrow>
                (case rd_Get R (cc_now e) full r of
                   Some v \<Rightarrow> if v = tombstone then (Inl ErrNotFound, r) else (Inr v, r)
                 | None \<Rightarrow> cache_fill R c e full loaded r)))"

definition Invalidate :: "'r redis \<Rightarrow> Cache option \<Rightarrow> cache_call \<Rightarrow> string \<Rightarrow> 'r \<Rightarrow> 'r" where
  "Invalidate R co e key r =
     (if \<not> cache_Enabled co \<or> (cc_write e \<noteq> None \<and> \<not> cc_ran e) then r
      else rd_Del R (co_Prefix (ca_opts (the co)) @ key) r)"

section \<open>Coherence\<close>

text \<open>What Redis holds for a key is what the loader would give now, or nothing.\<close>

definition meaning :: "string \<Rightarrow> string res" where
  "meaning v = (if v = tombstone then Inl ErrNotFound else Inr v)"

definition coherent :: "'r redis \<Rightarrow> Cache option \<Rightarrow> int \<Rightarrow> (string \<Rightarrow> string res) \<Rightarrow> 'r \<Rightarrow> bool" where
  "coherent R co now source r \<longleftrightarrow>
     (\<forall>key t v. cache_Enabled co \<and> now \<le> t \<and> rd_Get R t (co_Prefix (ca_opts (the co)) @ key) r = Some v \<longrightarrow>
        source key = meaning v)"

lemma coherent_later: "coherent R co now source r \<Longrightarrow> now \<le> now' \<Longrightarrow> coherent R co now' source r"
  unfolding coherent_def by (meson order_trans)

lemma coherent_set:
  assumes "redis_ok R" and "coherent R co now source r"
    and "source key = meaning v"
  shows "coherent R co now source (rd_Set R t0 (co_Prefix (ca_opts (the co)) @ key) v ttl r)"
proof -
  let ?p = "co_Prefix (ca_opts (the co))"
  have "source k = meaning w"
    if "cache_Enabled co" "now \<le> t" "rd_Get R t (?p @ k) (rd_Set R t0 (?p @ key) v ttl r) = Some w" for k t w
  proof (cases "k = key")
    case True
    then have "w = v" using redis_okD(4) [OF assms(1), of t "?p @ key" t0 v ttl r] that(3) by auto
    with assms(3) True show ?thesis by simp
  next
    case False
    then have "rd_Get R t (?p @ k) r = Some w" using redis_okD(3) [OF assms(1)] that(3) by simp
    with assms(2) that(1,2) show ?thesis by (auto simp: coherent_def)
  qed
  then show ?thesis unfolding coherent_def by blast
qed

text \<open>A read through a coherent cache is a read of the source, unless the caller hung up, and
  leaves the cache coherent.\<close>

lemma GetOrLoad_coherent:
  assumes "redis_ok R" and coh: "coherent R co (cc_now e) source r"
    and src: "\<And>v. source key = Inr v \<Longrightarrow> v \<noteq> tombstone"
    and nf: "\<And>err. source key = Inl err \<Longrightarrow> errors_is err ''cache: record not found'' \<Longrightarrow> err = ErrNotFound"
    and run: "GetOrLoad R co e key (source key) r = (out, r')"
  shows "(cc_ctx e = None \<longrightarrow> out = source key) \<and> coherent R co (cc_now e) source r'"
proof (cases "cache_Enabled co \<and> cc_read e = None")
  case False
  then show ?thesis using run coh by (auto simp: GetOrLoad_def Let_def split: option.splits if_splits)
next
  case True
  let ?full = "co_Prefix (ca_opts (the co)) @ key"
  show ?thesis
  proof (cases "rd_Get R (cc_now e) ?full r")
    case (Some v)
    then have "source key = meaning v"
      using coh True by (auto simp: coherent_def)
    with Some True run coh show ?thesis by (auto simp: GetOrLoad_def meaning_def split: if_splits)
  next
    case None
    then have fill: "cache_fill R (the co) e ?full (source key) r = (out, r')"
      using run True by (simp add: GetOrLoad_def Let_def)
    have "coherent R co (cc_now e) source r'"
      using fill coh src nf coherent_set [OF assms(1) coh]
      by (auto simp: cache_fill_def cache_store_def meaning_def split: sum.splits if_splits)
    moreover have "out = source key" using fill by (auto simp: cache_fill_def split: sum.splits)
    ultimately show ?thesis by simp
  qed
qed

end
