(* ===== verification/Kv_Config.thy ===== *)
theory Kv_Config
  imports Httpx_Errors
begin

text \<open>
  \<^verbatim>\<open>src/internal/kv/config.go\<close>: a node's configuration, its validation at boot, and the counting
  argument behind \<open>QuorumsIntersect\<close>.
\<close>

definition ModeLeaderFollower :: string where
  "ModeLeaderFollower = ''leader-follower''"

definition ModeLeaderless :: string where
  "ModeLeaderless = ''leaderless''"

record Config =
  c_NodeID :: string
  c_Mode :: string
  c_Role :: string
  c_Peers :: "string list"
  c_WriteQuorum :: int
  c_ReadQuorum :: int
  c_WriteDelay :: int
  c_ReadDelay :: int
  c_Sequential :: bool
  c_ReadRepair :: bool
  c_RPCTimeout :: int

definition IsLeader :: "Config \<Rightarrow> bool" where
  "IsLeader c \<longleftrightarrow> c_Mode c = ModeLeaderless \<or> c_Role c = ''leader''"

definition ClusterSize :: "Config \<Rightarrow> int" where
  "ClusterSize c = int (length (c_Peers c)) + 1"

definition Validate :: "Config \<Rightarrow> go_error option" where
  "Validate c =
     (if \<not> (c_Mode c = ModeLeaderFollower \<or> c_Mode c = ModeLeaderless)
      then Some (Wrapped ''unknown NODE_MODE %q (want %q or %q)'' [])
      else if c_Mode c = ModeLeaderFollower \<and> c_Role c \<noteq> ''leader'' \<and> c_Role c \<noteq> ''follower''
      then Some (Wrapped ''unknown ROLE %q (want leader or follower)'' [])
      else if c_WriteQuorum c < 1 then Some (Wrapped ''WRITE_QUORUM_SIZE must be >= 1, got %d'' [])
      else if c_ReadQuorum c < 1 then Some (Wrapped ''READ_QUORUM_SIZE must be >= 1, got %d'' [])
      else if c_Mode c = ModeLeaderFollower \<and> c_Role c = ''follower'' then None
      else if c_WriteQuorum c > ClusterSize c
      then Some (Wrapped ''WRITE_QUORUM_SIZE %d exceeds cluster size %d'' [])
      else if c_ReadQuorum c > ClusterSize c
      then Some (Wrapped ''READ_QUORUM_SIZE %d exceeds cluster size %d'' [])
      else None)"

definition QuorumsIntersect :: "Config \<Rightarrow> bool" where
  "QuorumsIntersect c \<longleftrightarrow> c_WriteQuorum c + c_ReadQuorum c > ClusterSize c"

section \<open>Quorum systems\<close>

text \<open>
  The contract of a quorum system: the members are finitely many and the two quorum sizes sum
  past their number. Any write quorum then meets any read quorum.
\<close>

locale quorum_system =
  fixes valid :: "'c \<Rightarrow> bool"
    and members :: "'c \<Rightarrow> 'n set"
    and wsize :: "'c \<Rightarrow> nat"
    and rsize :: "'c \<Rightarrow> nat"
  assumes finite_members: "valid c \<Longrightarrow> finite (members c)"
    and sizes: "valid c \<Longrightarrow> card (members c) < wsize c + rsize c"
begin

lemma quorums_meet:
  assumes "valid c" and "A \<subseteq> members c" and "B \<subseteq> members c"
    and "wsize c \<le> card A" and "rsize c \<le> card B"
  obtains x where "x \<in> A" and "x \<in> B"
proof -
  have "A \<inter> B \<noteq> {}"
  proof
    assume disj: "A \<inter> B = {}"
    have fin: "finite A" "finite B"
      using finite_members [OF assms(1)] assms(2,3) by (auto intro: finite_subset)
    have "card A + card B = card (A \<union> B)"
      using fin disj by (simp add: card_Un_disjoint)
    also have "\<dots> \<le> card (members c)"
      using assms(2,3) finite_members [OF assms(1)] by (intro card_mono) auto
    finally show False
      using sizes [OF assms(1)] assms(4,5) by simp
  qed
  with that show thesis by blast
qed

end

text \<open>The replicas a configuration names: this node and its peers.\<close>

definition replicas :: "Config \<Rightarrow> string set" where
  "replicas c = insert (c_NodeID c) (set (c_Peers c))"

text \<open>A peer list that names every other node once.\<close>

definition peers_ok :: "Config \<Rightarrow> bool" where
  "peers_ok c \<longleftrightarrow> distinct (c_Peers c) \<and> c_NodeID c \<notin> set (c_Peers c)"

lemma card_replicas: "peers_ok c \<Longrightarrow> int (card (replicas c)) = ClusterSize c"
  by (simp add: peers_ok_def replicas_def ClusterSize_def distinct_card)

interpretation cfgq: quorum_system
  "\<lambda>c. peers_ok c \<and> QuorumsIntersect c" replicas
  "\<lambda>c. nat (c_WriteQuorum c)" "\<lambda>c. nat (c_ReadQuorum c)"
proof
  show "finite (replicas c)" for c
    by (simp add: replicas_def)
  show "card (replicas c) < nat (c_WriteQuorum c) + nat (c_ReadQuorum c)"
    if "peers_ok c \<and> QuorumsIntersect c" for c
    using that card_replicas [of c] by (auto simp: QuorumsIntersect_def ClusterSize_def)
qed

lemma Validate_coordinator:
  assumes "Validate c = None" and "IsLeader c"
  shows "1 \<le> c_WriteQuorum c \<and> c_WriteQuorum c \<le> ClusterSize c \<and>
         1 \<le> c_ReadQuorum c \<and> c_ReadQuorum c \<le> ClusterSize c"
  using assms
  by (auto simp: Validate_def IsLeader_def ModeLeaderFollower_def ModeLeaderless_def split: if_splits)

end
