(* ===== verification/Kv_Store.thy ===== *)
theory Kv_Store
  imports Prelude "HOL-Library.Product_Lexorder"
begin

text \<open>
  \<^verbatim>\<open>src/internal/kv/entry.go\<close> and \<^verbatim>\<open>src/internal/kv/store.go\<close>: the versioned map behind one node
  of a key-value cluster. Every method of \<open>Store\<close> runs under the store's lock, so each is one
  function on the record. Go visits the keys of a map in an unspecified order; methods that
  range over the map take that order as the argument \<open>ord\<close>, and \<open>visits ord s\<close> says that it
  is one the language may choose.
\<close>

section \<open>Entries\<close>

record Entry =
  e_Key :: string
  e_Value :: string
  e_Version :: int
  e_Origin :: string
  e_ExpiresAt :: int

definition zero_Entry :: Entry where
  "zero_Entry = \<lparr>e_Key = '''', e_Value = '''', e_Version = 0, e_Origin = '''', e_ExpiresAt = 0\<rparr>"

definition Newer :: "Entry \<Rightarrow> Entry \<Rightarrow> bool" where
  "Newer e other =
     (if e_Version e \<noteq> e_Version other then e_Version e > e_Version other
      else e_Origin e > e_Origin other)"

text \<open>\<open>time.Time.UnixMilli\<close>; times are nanoseconds.\<close>

definition UnixMilli :: "int \<Rightarrow> int" where
  "UnixMilli t = t div 1000000"

definition Expired :: "Entry \<Rightarrow> int \<Rightarrow> bool" where
  "Expired e now \<longleftrightarrow> e_ExpiresAt e \<noteq> 0 \<and> UnixMilli now \<ge> e_ExpiresAt e"

section \<open>The store\<close>

record Store =
  s_data :: "string \<rightharpoonup> Entry"
  s_nodeID :: string

definition NewStore :: "string \<Rightarrow> Store" where
  "NewStore nodeID = \<lparr>s_data = Map.empty, s_nodeID = nodeID\<rparr>"

definition visits :: "string list \<Rightarrow> Store \<Rightarrow> bool" where
  "visits ord s \<longleftrightarrow> distinct ord \<and> set ord = dom (s_data s)"

definition store_Get :: "int \<Rightarrow> string \<Rightarrow> Store \<Rightarrow> Entry option" where
  "store_Get now key s =
     (case s_data s key of
        None \<Rightarrow> None
      | Some e \<Rightarrow> if Expired e now then None else Some e)"

definition CoordinatorWrite :: "int \<Rightarrow> string \<Rightarrow> string \<Rightarrow> int \<Rightarrow> Store \<Rightarrow> Entry \<times> Store" where
  "CoordinatorWrite now key val ttl s =
     (let next_v = (case s_data s key of None \<Rightarrow> 1 | Some prev \<Rightarrow> wrap64 (e_Version prev + 1));
          e0 = \<lparr>e_Key = key, e_Value = val, e_Version = next_v, e_Origin = s_nodeID s,
                e_ExpiresAt = 0\<rparr>;
          e = (if ttl > 0 then e0\<lparr>e_ExpiresAt := UnixMilli (now + ttl)\<rparr> else e0)
      in (e, s\<lparr>s_data := (s_data s)(key \<mapsto> e)\<rparr>))"

definition store_Apply :: "Entry \<Rightarrow> Store \<Rightarrow> bool \<times> Store" where
  "store_Apply e s =
     (case s_data s (e_Key e) of
        Some prev \<Rightarrow>
          (if \<not> Newer e prev then (False, s)
           else (True, s\<lparr>s_data := (s_data s)(e_Key e \<mapsto> e)\<rparr>))
      | None \<Rightarrow> (True, s\<lparr>s_data := (s_data s)(e_Key e \<mapsto> e)\<rparr>))"

definition store_Len :: "int \<Rightarrow> string list \<Rightarrow> Store \<Rightarrow> nat" where
  "store_Len now ord s =
     length (filter (\<lambda>k. case s_data s k of None \<Rightarrow> False | Some e \<Rightarrow> \<not> Expired e now) ord)"

text \<open>The loop of \<open>Scan\<close>: stop at the limit, skip other prefixes and expired entries.\<close>

fun scan_loop :: "int \<Rightarrow> string \<Rightarrow> int \<Rightarrow> (string \<rightharpoonup> Entry) \<Rightarrow> string list \<Rightarrow> Entry list \<Rightarrow> Entry list"
where
  "scan_loop now pre limit data [] out = out"
| "scan_loop now pre limit data (k # ks) out =
     (if int (length out) \<ge> limit then out
      else (case data k of
              None \<Rightarrow> scan_loop now pre limit data ks out
            | Some e \<Rightarrow>
                (if \<not> HasPrefix k pre \<or> Expired e now then scan_loop now pre limit data ks out
                 else scan_loop now pre limit data ks (out @ [e]))))"

definition store_Scan :: "int \<Rightarrow> string list \<Rightarrow> string \<Rightarrow> int \<Rightarrow> Store \<Rightarrow> Entry list" where
  "store_Scan now ord pre limit0 s =
     (let limit = (if limit0 \<le> 0 then 1000 else limit0)
      in sort_key e_Key (scan_loop now pre limit (s_data s) ord []))"

definition store_Sweep :: "int \<Rightarrow> string list \<Rightarrow> Store \<Rightarrow> nat \<times> Store" where
  "store_Sweep now ord s =
     (let gone = filter (\<lambda>k. case s_data s k of None \<Rightarrow> False | Some e \<Rightarrow> Expired e now) ord
      in (length gone, s\<lparr>s_data := (s_data s) |` (- set gone)\<rparr>))"

text \<open>A node receiving a list of pushed entries, one after another.\<close>

fun apply_entries :: "Entry list \<Rightarrow> Store \<Rightarrow> Store" where
  "apply_entries [] s = s"
| "apply_entries (e # es) s = apply_entries es (snd (store_Apply e s))"

section \<open>Last write wins\<close>

text \<open>
  The contract of conflict resolution: entries carry a stamp from a linear order and one
  supersedes another when its stamp is larger. Keeping the newest of what is held and what
  arrives then commutes and is idempotent, which is what makes replicas converge.
\<close>

definition keep_newest :: "('e \<Rightarrow> 'e \<Rightarrow> bool) \<Rightarrow> 'e option \<Rightarrow> 'e \<Rightarrow> 'e" where
  "keep_newest newer held e = (case held of None \<Rightarrow> e | Some h \<Rightarrow> if newer e h then e else h)"

locale last_write_wins =
  fixes stamp :: "'e \<Rightarrow> 's::linorder"
    and newer :: "'e \<Rightarrow> 'e \<Rightarrow> bool"
  assumes newer_stamp: "newer a b \<longleftrightarrow> stamp b < stamp a"
begin

lemma keep_commute:
  "stamp a \<noteq> stamp b \<or> a = b \<Longrightarrow>
   keep_newest newer (Some (keep_newest newer h a)) b =
   keep_newest newer (Some (keep_newest newer h b)) a"
  by (cases h) (auto simp: keep_newest_def newer_stamp)

lemma keep_idem: "keep_newest newer (Some (keep_newest newer h a)) a = keep_newest newer h a"
  by (cases h) (auto simp: keep_newest_def newer_stamp)

lemma keep_not_older:
  "\<not> newer a (keep_newest newer h a) \<and> (\<forall>x. h = Some x \<longrightarrow> \<not> newer x (keep_newest newer h a))"
  by (cases h) (auto simp: keep_newest_def newer_stamp)

lemma not_newer_trans: "\<not> newer a b \<Longrightarrow> \<not> newer b c \<Longrightarrow> \<not> newer a c"
  by (auto simp: newer_stamp)

lemma newer_irrefl: "\<not> newer a a"
  by (simp add: newer_stamp)

lemma newer_asym: "newer a b \<Longrightarrow> \<not> newer b a"
  by (simp add: newer_stamp)

end

definition stamp :: "Entry \<Rightarrow> int \<times> string" where
  "stamp e = (e_Version e, e_Origin e)"

interpretation lww: last_write_wins stamp Newer
  by unfold_locales (auto simp: stamp_def Newer_def less_prod_def)

section \<open>One operation at a time\<close>

lemma store_Apply_data:
  "s_data (snd (store_Apply e s)) =
   (s_data s)(e_Key e \<mapsto> keep_newest Newer (s_data s (e_Key e)) e)"
  by (auto simp: store_Apply_def keep_newest_def fun_upd_idem split: option.split)

lemma store_Apply_nodeID [simp]: "s_nodeID (snd (store_Apply e s)) = s_nodeID s"
  by (auto simp: store_Apply_def split: option.split)

lemma store_Apply_accepts:
  "fst (store_Apply e s) \<longleftrightarrow> (\<forall>h. s_data s (e_Key e) = Some h \<longrightarrow> Newer e h)"
  by (auto simp: store_Apply_def split: option.split)

lemma Store_eqI: "s_data s = s_data t \<Longrightarrow> s_nodeID s = s_nodeID t \<Longrightarrow> (s :: Store) = t"
  by (cases s; cases t) simp

lemma store_Apply_commute:
  assumes "e_Key a = e_Key b \<Longrightarrow> stamp a = stamp b \<Longrightarrow> a = b"
  shows "snd (store_Apply a (snd (store_Apply b s))) = snd (store_Apply b (snd (store_Apply a s)))"
proof (rule Store_eqI)
  show "s_data (snd (store_Apply a (snd (store_Apply b s)))) =
        s_data (snd (store_Apply b (snd (store_Apply a s))))"
  proof (cases "e_Key a = e_Key b")
    case True
    then have "stamp a \<noteq> stamp b \<or> a = b" using assms by blast
    from lww.keep_commute [OF this] True show ?thesis
      by (simp add: store_Apply_data)
  next
    case False
    then show ?thesis by (simp add: store_Apply_data fun_upd_twist)
  qed
qed simp

lemma store_Apply_idem:
  "snd (store_Apply a (snd (store_Apply a s))) = snd (store_Apply a s)"
  by (rule Store_eqI) (simp_all add: store_Apply_data lww.keep_idem)

text \<open>A CoordinatorWrite is newer than what the node held, unless the version wraps.\<close>

lemma CoordinatorWrite_simps [simp]:
  "e_Key (fst (CoordinatorWrite now key val ttl s)) = key"
  "e_Value (fst (CoordinatorWrite now key val ttl s)) = val"
  "e_Origin (fst (CoordinatorWrite now key val ttl s)) = s_nodeID s"
  "s_data (snd (CoordinatorWrite now key val ttl s)) =
     (s_data s)(key \<mapsto> fst (CoordinatorWrite now key val ttl s))"
  "s_nodeID (snd (CoordinatorWrite now key val ttl s)) = s_nodeID s"
  "ttl \<le> 0 \<Longrightarrow> e_ExpiresAt (fst (CoordinatorWrite now key val ttl s)) = 0"
  "ttl > 0 \<Longrightarrow> e_ExpiresAt (fst (CoordinatorWrite now key val ttl s)) = UnixMilli (now + ttl)"
  by (simp_all add: CoordinatorWrite_def Let_def)

lemma CoordinatorWrite_version:
  "e_Version (fst (CoordinatorWrite now key val ttl s)) =
   (case s_data s key of None \<Rightarrow> 1 | Some prev \<Rightarrow> wrap64 (e_Version prev + 1))"
  by (simp add: CoordinatorWrite_def Let_def)

lemma CoordinatorWrite_newer:
  assumes "s_data s key = Some h" and "MinInt \<le> e_Version h" and "e_Version h < MaxInt"
  shows "Newer (fst (CoordinatorWrite now key val ttl s)) h"
proof -
  have "wrap64 (e_Version h + 1) = e_Version h + 1"
    using assms(2,3) by (intro wrap64_id) (simp add: MinInt_def MaxInt_def)
  then show ?thesis
    using assms(1) by (simp add: Newer_def CoordinatorWrite_version)
qed

section \<open>The map interface its clients rely on\<close>

text \<open>
  What a service that keeps whole values under its own keys needs from the database: a read
  after a write returns the value, and other keys are not touched.
\<close>

locale kv_map =
  fixes get :: "'db \<Rightarrow> string \<Rightarrow> 'v option"
    and put :: "string \<Rightarrow> 'v \<Rightarrow> 'db \<Rightarrow> 'db"
  assumes get_put_same: "get (put k v db) k = Some v"
    and get_put_other: "k \<noteq> k' \<Longrightarrow> get (put k v db) k' = get db k'"
begin

lemma get_put: "get (put k v db) k' = (if k = k' then Some v else get db k')"
  by (simp add: get_put_same get_put_other)

lemma get_put_put: "get (put k w (put k v db)) = get (put k w db)"
  by (rule ext) (simp add: get_put)

end

definition get_value :: "int \<Rightarrow> Store \<Rightarrow> string \<Rightarrow> string option" where
  "get_value now s k = map_option e_Value (store_Get now k s)"

definition put_value :: "int \<Rightarrow> string \<Rightarrow> string \<Rightarrow> Store \<Rightarrow> Store" where
  "put_value now k v s = snd (CoordinatorWrite now k v 0 s)"

interpretation kvs: kv_map "get_value now" "put_value now" for now
  by unfold_locales
    (simp_all add: get_value_def put_value_def store_Get_def Expired_def split: option.split)

section \<open>Properties\<close>

text \<open>
  C17. Replication is insensitive to order and to duplicates: two nodes that start equal and
  are pushed the same set of entries, in whatever order and however often each, end in the
  same state, provided two entries of the same key with the same version and origin are the
  same entry.
\<close>

theorem replicas_converge:
  assumes "set es = set es'"
    and "\<And>a b. a \<in> set es \<Longrightarrow> b \<in> set es \<Longrightarrow> e_Key a = e_Key b \<Longrightarrow> stamp a = stamp b \<Longrightarrow> a = b"
  shows "apply_entries es s = apply_entries es' s"
proof -
  let ?f = "\<lambda>e s. snd (store_Apply e s)"
  have fold: "apply_entries xs t = fold ?f xs t" for xs t
    by (induction xs arbitrary: t) simp_all
  have "comp_fun_idem_on (set es) ?f"
    by unfold_locales (auto simp: fun_eq_iff store_Apply_idem intro: store_Apply_commute assms(2))
  then have "Finite_Set.fold ?f s (set xs) = fold ?f xs s" if "set xs = set es" for xs
    using comp_fun_idem_on.fold_set_fold [of "set es" ?f xs] that by simp
  from this [of es] this [of es'] assms(1) show ?thesis
    by (simp add: fold)
qed

theorem replicas_converge_witness:
  "apply_entries [zero_Entry, zero_Entry\<lparr>e_Version := 1\<rparr>, zero_Entry] (NewStore ''n'') =
   apply_entries [zero_Entry\<lparr>e_Version := 1\<rparr>, zero_Entry] (NewStore ''n'')"
  by (rule replicas_converge) (auto simp: zero_Entry_def stamp_def)

section \<open>Scans\<close>

definition store_wf :: "Store \<Rightarrow> bool" where
  "store_wf s \<longleftrightarrow> (\<forall>k e. s_data s k = Some e \<longrightarrow> e_Key e = k)"

lemma NewStore_wf: "store_wf (NewStore n)"
  by (simp add: store_wf_def NewStore_def)

lemma store_Apply_wf: "store_wf s \<Longrightarrow> store_wf (snd (store_Apply e s))"
  by (auto simp: store_wf_def store_Apply_data keep_newest_def split: option.splits if_splits)

lemma CoordinatorWrite_wf: "store_wf s \<Longrightarrow> store_wf (snd (CoordinatorWrite now k v ttl s))"
  by (auto simp: store_wf_def)

lemma store_Sweep_wf: "store_wf s \<Longrightarrow> store_wf (snd (store_Sweep now ord s))"
  by (auto simp: store_wf_def store_Sweep_def Let_def restrict_map_def split: if_splits)

text \<open>The entries a scan is entitled to return, in the order the map is visited.\<close>

definition scan_hit :: "int \<Rightarrow> string \<Rightarrow> (string \<rightharpoonup> Entry) \<Rightarrow> string \<Rightarrow> bool" where
  "scan_hit now pre data k =
     (case data k of None \<Rightarrow> False | Some e \<Rightarrow> HasPrefix k pre \<and> \<not> Expired e now)"

lemma scan_loop_eq:
  "int (length out) \<le> limit \<Longrightarrow>
   scan_loop now pre limit data ks out =
   out @ take (nat limit - length out) (map (\<lambda>k. the (data k)) (filter (scan_hit now pre data) ks))"
proof (induction ks arbitrary: out)
  case (Cons k ks)
  show ?case
  proof (cases "int (length out) \<ge> limit")
    case True
    with Cons.prems show ?thesis by simp
  next
    case False
    then have suc: "nat limit - length out = Suc (nat limit - length (out @ [x]))" for x :: Entry
      by simp
    show ?thesis
    proof (cases "data k")
      case None
      with False Cons.prems Cons.IH show ?thesis
        by (simp add: scan_hit_def)
    next
      case (Some e)
      with False Cons.prems Cons.IH [of out] Cons.IH [of "out @ [e]"] suc [of e] show ?thesis
        by (simp add: scan_hit_def)
    qed
  qed
qed simp

definition scan_set :: "int \<Rightarrow> string \<Rightarrow> Store \<Rightarrow> Entry set" where
  "scan_set now pre s =
     {e. s_data s (e_Key e) = Some e \<and> HasPrefix (e_Key e) pre \<and> \<not> Expired e now}"

lemma visited_hits:
  fixes now :: int and pre :: string
  assumes "store_wf s" and "visits ord s"
  defines "hits \<equiv> map (\<lambda>k. the (s_data s k)) (filter (scan_hit now pre (s_data s)) ord)"
  shows "set hits = scan_set now pre s" and "distinct (map e_Key hits)"
proof -
  have key: "e_Key (the (s_data s k)) = k" if "scan_hit now pre (s_data s) k" for k
    using that assms(1) by (auto simp: scan_hit_def store_wf_def split: option.splits)
  have "map e_Key hits = map (\<lambda>k. e_Key (the (s_data s k))) (filter (scan_hit now pre (s_data s)) ord)"
    by (simp add: hits_def)
  also have "\<dots> = filter (scan_hit now pre (s_data s)) ord"
    by (rule map_idI) (simp add: key)
  finally have "map e_Key hits = filter (scan_hit now pre (s_data s)) ord" .
  then show "distinct (map e_Key hits)"
    using assms(2) by (simp add: visits_def)
  show "set hits = scan_set now pre s"
  proof (rule set_eqI, rule iffI)
    fix e assume "e \<in> set hits"
    then obtain k where "scan_hit now pre (s_data s) k" and "e = the (s_data s k)"
      by (auto simp: hits_def)
    with key [of k] show "e \<in> scan_set now pre s"
      by (auto simp: scan_set_def scan_hit_def split: option.splits)
  next
    fix e assume e: "e \<in> scan_set now pre s"
    then have "e_Key e \<in> set ord" and "scan_hit now pre (s_data s) (e_Key e)"
      using assms(2) by (auto simp: scan_set_def visits_def scan_hit_def)
    with e show "e \<in> set hits"
      by (force simp: hits_def scan_set_def)
  qed
qed

lemma store_Scan_facts:
  assumes "store_wf s" and "visits ord s" and "0 < limit"
  shows "sorted (map e_Key (store_Scan now ord pre limit s)) \<and>
         distinct (map e_Key (store_Scan now ord pre limit s)) \<and>
         set (store_Scan now ord pre limit s) \<subseteq> scan_set now pre s \<and>
         length (store_Scan now ord pre limit s) = min (nat limit) (card (scan_set now pre s))"
proof -
  let ?hits = "map (\<lambda>k. the (s_data s k)) (filter (scan_hit now pre (s_data s)) ord)"
  note hits = visited_hits [OF assms(1,2), of now pre]
  have scan: "store_Scan now ord pre limit s = sort_key e_Key (take (nat limit) ?hits)"
    using assms(3) by (simp add: store_Scan_def scan_loop_eq Let_def)
  have "distinct ?hits" using hits(2) by (simp only: distinct_map)
  then have len: "length ?hits = card (scan_set now pre s)"
    using hits(1) distinct_card by metis
  have "distinct (map e_Key (take (nat limit) ?hits))"
    using hits(2) by (simp only: take_map [symmetric] distinct_take)
  then have dist: "distinct (map e_Key (sort_key e_Key (take (nat limit) ?hits)))"
    by (simp add: distinct_map)
  have sub: "set (take (nat limit) ?hits) \<subseteq> scan_set now pre s"
    using hits(1) set_take_subset by fastforce
  show ?thesis
    unfolding scan using dist sub len by simp
qed

text \<open>
  Whatever order the map is visited in, a scan returns live entries of the prefix only,
  sorted by key with no key twice, and as many as the limit allows: all of them when they fit,
  exactly \<open>limit\<close> otherwise.
\<close>

lemma store_Scan_correct:
  assumes "store_wf s" and "visits ord s" and "0 < limit"
  shows "sorted (map e_Key (store_Scan now ord pre limit s)) \<and>
         distinct (map e_Key (store_Scan now ord pre limit s)) \<and>
         set (store_Scan now ord pre limit s) \<subseteq> scan_set now pre s \<and>
         length (store_Scan now ord pre limit s) = min (nat limit) (card (scan_set now pre s))"
  using assms by (rule store_Scan_facts)

lemma store_Scan_correct_witness:
  "set (store_Scan 0 [''order:1''] ''order:'' 5
      (snd (CoordinatorWrite 0 ''order:1'' ''v'' 0 (NewStore ''n'')))) \<subseteq>
   scan_set 0 ''order:'' (snd (CoordinatorWrite 0 ''order:1'' ''v'' 0 (NewStore ''n'')))"
proof -
  let ?s = "snd (CoordinatorWrite 0 ''order:1'' ''v'' 0 (NewStore ''n''))"
  have "store_wf ?s" by (rule CoordinatorWrite_wf [OF NewStore_wf])
  moreover have "visits [''order:1''] ?s" by (simp add: visits_def NewStore_def)
  ultimately show ?thesis using store_Scan_correct [of ?s "[''order:1'']" 5 0 "''order:''"] by simp
qed

end
