(* ===== verification/Kv_Service.thy ===== *)
theory Kv_Service
  imports Kv_Config Kv_Store
begin

text \<open>
  \<^verbatim>\<open>src/internal/kv/service.go\<close>, the node-to-node transport of \<^verbatim>\<open>src/internal/kv/replicator.go\<close> and
  the replication handlers of \<^verbatim>\<open>src/internal/kv/server.go\<close>. A cluster is a store per node. The
  goroutines of a fan-out deliver into a channel in some order; the order and what the network
  did to each message are arguments, so a theorem that leaves them free holds for every
  schedule and every fault. Calls that outlive the request (asynchronous pushes, read repair)
  are returned as the messages they will send.
\<close>

type_synonym cluster = "string \<Rightarrow> Store"

text \<open>What becomes of one push: applied and acknowledged, applied but the reply lost, or
  never applied.\<close>

datatype push_outcome = Acked | NoReply go_error | Lost go_error

fun push_result :: "push_outcome \<Rightarrow> go_error option" where
  "push_result Acked = None"
| "push_result (NoReply e) = Some e"
| "push_result (Lost e) = Some e"

fun arrives :: "push_outcome \<Rightarrow> bool" where
  "arrives Acked = True"
| "arrives (NoReply e) = True"
| "arrives (Lost e) = False"

section \<open>The receiving side\<close>

text \<open>\<open>cancel\<close> is the outcome of \<open>sleepCtx\<close>, the simulated cost of the write.\<close>

definition ApplyReplication :: "go_error option \<Rightarrow> Entry \<Rightarrow> Store \<Rightarrow> go_error option \<times> Store" where
  "ApplyReplication cancel e s =
     (if e_Key e = '''' then (Some (Errorf StatusBadRequest ''key must not be empty''), s)
      else (case cancel of
              Some err \<Rightarrow> (Some (Wrap StatusServiceUnavailable err ''replication cancelled''), s)
            | None \<Rightarrow> (None, snd (store_Apply e s))))"

definition LocalRead :: "int \<Rightarrow> string \<Rightarrow> Store \<Rightarrow> Entry option" where
  "LocalRead now key s = store_Get now key s"

definition handleInternalRead :: "int \<Rightarrow> string \<Rightarrow> Store \<Rightarrow> Entry res" where
  "handleInternalRead now key s =
     (case LocalRead now key s of
        None \<Rightarrow> Inl (Errorf StatusNotFound ''key %q not found'')
      | Some e \<Rightarrow> Inr e)"

text \<open>\<open>Replicator.Fetch\<close>: a 404 is a vote that the key is absent, any other failure is an error.\<close>

definition repl_Fetch :: "Entry res \<Rightarrow> Entry option res" where
  "repl_Fetch r =
     (case r of
        Inr e \<Rightarrow> Inr (Some e)
      | Inl err \<Rightarrow> if IsStatus err StatusNotFound then Inr None else Inl err)"

section \<open>Write fan-out\<close>

text \<open>\<open>replicateParallel\<close>: \<open>acks\<close> are the results in the order they arrive on the channel,
  \<open>n\<close> the number of peers.\<close>

fun replicateParallel :: "int \<Rightarrow> int \<Rightarrow> go_error option list \<Rightarrow> int \<Rightarrow> int \<Rightarrow> go_error option" where
  "replicateParallel n need [] acked failed =
     Some (Errorf StatusServiceUnavailable ''write quorum of %d not met: only %d replicas acknowledged'')"
| "replicateParallel n need (Some err # acks) acked failed =
     (if n - (failed + 1) < need
      then Some (Wrap StatusServiceUnavailable err ''write quorum of %d not met for key %q'')
      else replicateParallel n need acks acked (failed + 1))"
| "replicateParallel n need (None # acks) acked failed =
     (if acked + 1 \<ge> need then None
      else replicateParallel n need acks (acked + 1) failed)"

text \<open>
  \<open>replicateSequential\<close>: the peers one at a time. It also returns the peers that receive the
  entry: those pushed to before the loop ended and, when the quorum was met, the rest through
  \<open>pushAsync\<close>.
\<close>

fun replicateSequential ::
  "int \<Rightarrow> int \<Rightarrow> (string \<Rightarrow> push_outcome) \<Rightarrow> string list \<Rightarrow> int \<Rightarrow> int \<Rightarrow> go_error option \<times> string list" where
  "replicateSequential n need net [] acked failed =
     (Some (Errorf StatusServiceUnavailable ''write quorum of %d not met: only %d replicas acknowledged''), [])"
| "replicateSequential n need net (p # ps) acked failed =
     (case push_result (net p) of
        Some err \<Rightarrow>
          (if n - (failed + 1) < need
           then (Some (Wrap StatusServiceUnavailable err ''write quorum of %d not met for key %q''), [p])
           else (let (r, sent) = replicateSequential n need net ps acked (failed + 1) in (r, p # sent)))
      | None \<Rightarrow>
          (if acked + 1 \<ge> need then (None, p # ps)
           else (let (r, sent) = replicateSequential n need net ps (acked + 1) failed in (r, p # sent))))"

text \<open>\<open>replicate\<close>: the result and the peers the entry is sent to. \<open>arrival\<close> is the order in
  which the parallel pushes finish.\<close>

definition replicate_entry ::
  "Config \<Rightarrow> (string \<Rightarrow> push_outcome) \<Rightarrow> string list \<Rightarrow> int \<Rightarrow> go_error option \<times> string list" where
  "replicate_entry cfg net arrival need =
     (let peers = c_Peers cfg; n = int (length peers) in
      if peers = [] then
        (if need > 0
         then (Some (Errorf StatusServiceUnavailable ''write quorum of %d unreachable: node has no peers''), [])
         else (None, []))
      else if need \<le> 0 then (None, peers)
      else if c_Sequential cfg then replicateSequential n need net peers 0 0
      else (replicateParallel n need (map (\<lambda>p. push_result (net p)) arrival) 0 0, peers))"

text \<open>The pushes take effect on the peers that receive them.\<close>

definition deliver :: "(string \<Rightarrow> push_outcome) \<Rightarrow> string list \<Rightarrow> Entry \<Rightarrow> cluster \<Rightarrow> cluster" where
  "deliver net sent e cl =
     (\<lambda>x. if x \<in> set sent \<and> arrives (net x) then snd (ApplyReplication None e (cl x)) else cl x)"

definition service_Write ::
  "Config \<Rightarrow> (string \<Rightarrow> push_outcome) \<Rightarrow> string list \<Rightarrow> go_error option \<Rightarrow> int \<Rightarrow> string \<Rightarrow> string \<Rightarrow> int
     \<Rightarrow> cluster \<Rightarrow> Entry res \<times> cluster" where
  "service_Write cfg net arrival cancel now key val ttl cl =
     (if key = '''' then (Inl (Errorf StatusBadRequest ''key must not be empty''), cl)
      else if c_Mode cfg = ModeLeaderFollower \<and> \<not> IsLeader cfg
      then (Inl (Errorf StatusBadRequest ''this node is a follower; writes must be sent to the leader''), cl)
      else (case cancel of
              Some err \<Rightarrow> (Inl (Wrap StatusServiceUnavailable err ''write cancelled''), cl)
            | None \<Rightarrow>
                (let (entry, st) = CoordinatorWrite now key val ttl (cl (c_NodeID cfg));
                     (err, sent) = replicate_entry cfg net arrival (c_WriteQuorum cfg - 1);
                     cl' = deliver net sent entry (cl(c_NodeID cfg := st))
                 in (case err of Some e \<Rightarrow> (Inl e, cl') | None \<Rightarrow> (Inr entry, cl')))))"

section \<open>Read fan-out\<close>

definition better :: "Entry option \<Rightarrow> Entry option \<Rightarrow> Entry option" where
  "better best found =
     (case found of
        None \<Rightarrow> best
      | Some e \<Rightarrow> (case best of None \<Rightarrow> Some e | Some b \<Rightarrow> if Newer e b then Some e else Some b))"

text \<open>The collecting loop of \<open>readQuorum\<close>: answers in arrival order, each with its peer.\<close>

fun read_loop ::
  "int \<Rightarrow> int \<Rightarrow> (string \<times> Entry option res) list \<Rightarrow> Entry option \<Rightarrow> int \<Rightarrow> int
     \<Rightarrow> (string \<times> Entry option) list \<Rightarrow> (Entry option \<times> (string \<times> Entry option) list) res" where
  "read_loop n need [] best answered failed collected =
     (if answered < need
      then Inl (Errorf StatusServiceUnavailable ''read quorum of %d not met: only %d replicas answered'')
      else Inr (best, collected))"
| "read_loop n need ((p, Inl err) # rs) best answered failed collected =
     (if n - (failed + 1) < need
      then Inl (Wrap StatusServiceUnavailable err ''read quorum of %d not met for key %q'')
      else read_loop n need rs best answered (failed + 1) collected)"
| "read_loop n need ((p, Inr found) # rs) best answered failed collected =
     (let best' = better best found; collected' = collected @ [(p, found)] in
      if answered + 1 \<ge> need then Inr (best', collected')
      else read_loop n need rs best' (answered + 1) failed collected')"

text \<open>\<open>repair\<close>: the local store afterwards and the stale peers the winner is pushed to.\<close>

definition repair ::
  "Config \<Rightarrow> Entry option \<Rightarrow> Entry \<Rightarrow> (string \<times> Entry option) list \<Rightarrow> Store \<Rightarrow> Store \<times> string list" where
  "repair cfg local best collected st =
     (let st' = (if (case local of None \<Rightarrow> True | Some l \<Rightarrow> Newer best l)
                 then snd (store_Apply best st) else st);
          stale = map fst (filter (\<lambda>(p, found). \<not> (case found of None \<Rightarrow> False
                                                    | Some e \<Rightarrow> \<not> Newer best e)) collected)
      in (st', if c_ReadRepair cfg then stale else []))"

text \<open>\<open>Read\<close>: the answer, the cluster afterwards and the peers read repair pushes to.
  \<open>reach p\<close> is the transport error of the fetch from \<open>p\<close>, if any.\<close>

definition service_Read ::
  "Config \<Rightarrow> (string \<Rightarrow> go_error option) \<Rightarrow> string list \<Rightarrow> go_error option \<Rightarrow> int \<Rightarrow> string
     \<Rightarrow> cluster \<Rightarrow> Entry option res \<times> cluster \<times> string list" where
  "service_Read cfg reach arrival cancel now key cl =
     (if key = '''' then (Inl (Errorf StatusBadRequest ''key must not be empty''), cl, [])
      else (case cancel of
              Some err \<Rightarrow> (Inl (Wrap StatusServiceUnavailable err ''read cancelled''), cl, [])
            | None \<Rightarrow>
                (let self = c_NodeID cfg; local = store_Get now key (cl self);
                     need = c_ReadQuorum cfg - 1; n = int (length (c_Peers cfg)) in
                 if need \<le> 0 then (Inr local, cl, [])
                 else if n < need
                 then (Inl (Errorf StatusServiceUnavailable ''read quorum unavailable''), cl, [])
                 else
                   (let answer = (\<lambda>p. (p, repl_Fetch (case reach p of
                                               Some err \<Rightarrow> Inl err
                                             | None \<Rightarrow> handleInternalRead now key (cl p))))
                    in case read_loop n need (map answer arrival) local 0 0 [] of
                         Inl err \<Rightarrow> (Inl err, cl, [])
                       | Inr (best, collected) \<Rightarrow>
                           (case best of
                              None \<Rightarrow> (Inr None, cl, [])
                            | Some b \<Rightarrow>
                                (let (st, stale) = repair cfg local b collected (cl self)
                                 in (Inr (Some b), cl(self := st), stale)))))))"

section \<open>Counting acknowledgements\<close>

abbreviation acks_in :: "go_error option list \<Rightarrow> int" where
  "acks_in acks \<equiv> int (length (filter (\<lambda>a. a = None) acks))"

lemma replicateParallel_iff:
  "acked < need \<Longrightarrow> n = acked + failed + int (length acks) \<Longrightarrow> need \<le> n - failed \<Longrightarrow>
   (replicateParallel n need acks acked failed = None) = (need \<le> acked + acks_in acks)"
proof (induction n need acks acked failed rule: replicateParallel.induct)
  case (2 n need err acks acked failed)
  show ?case
  proof (cases "n - (failed + 1) < need")
    case True
    have "acks_in acks \<le> int (length acks)" and "acked + int (length acks) < need"
      using True "2.prems" by simp_all
    then have "\<not> need \<le> acked + acks_in acks" by linarith
    with True show ?thesis by simp
  next
    case False
    with "2.prems" "2.IH" show ?thesis by simp
  qed
next
  case (3 n need acks acked failed)
  then show ?case by (cases "acked + 1 \<ge> need") auto
qed simp

lemma replicateSequential_result:
  "fst (replicateSequential n need net ps acked failed) = None \<longleftrightarrow>
   replicateParallel n need (map (\<lambda>p. push_result (net p)) ps) acked failed = None"
  by (induction n need net ps acked failed rule: replicateSequential.induct)
    (auto simp: Let_def split: option.splits prod.splits)

lemma replicateSequential_sent:
  "fst (replicateSequential n need net ps acked failed) = None \<Longrightarrow>
   snd (replicateSequential n need net ps acked failed) = ps"
  by (induction n need net ps acked failed rule: replicateSequential.induct)
    (auto simp: Let_def split: option.splits prod.splits if_splits)

text \<open>The peers whose push was acknowledged.\<close>

definition acking :: "Config \<Rightarrow> (string \<Rightarrow> push_outcome) \<Rightarrow> string set" where
  "acking cfg net = {p \<in> set (c_Peers cfg). net p = Acked}"

definition schedule_ok :: "Config \<Rightarrow> string list \<Rightarrow> bool" where
  "schedule_ok cfg arrival \<longleftrightarrow> distinct arrival \<and> set arrival = set (c_Peers cfg)"

lemma push_result_None [simp]: "push_result o1 = None \<longleftrightarrow> o1 = Acked"
  by (cases o1) simp_all

lemma acks_in_schedule:
  assumes "distinct ps" and "set ps = set (c_Peers cfg)"
  shows "acks_in (map (\<lambda>p. push_result (net p)) ps) = int (card (acking cfg net))"
proof -
  have "length (filter (\<lambda>p. net p = Acked) ps) = card {p \<in> set ps. net p = Acked}"
    using assms(1) distinct_card [of "filter (\<lambda>p. net p = Acked) ps"] by simp
  with assms(2) show ?thesis
    by (simp add: acking_def filter_map comp_def)
qed

lemma replicate_entry_ok_iff:
  assumes "peers_ok cfg" and "schedule_ok cfg arrival" and "c_WriteQuorum cfg \<le> ClusterSize cfg"
  shows "fst (replicate_entry cfg net arrival (c_WriteQuorum cfg - 1)) = None \<longleftrightarrow>
         c_WriteQuorum cfg \<le> int (card (acking cfg net)) + 1"
proof -
  let ?n = "int (length (c_Peers cfg))" and ?need = "c_WriteQuorum cfg - 1"
  have len: "length arrival = length (c_Peers cfg)"
    using assms(1,2) by (metis distinct_card peers_ok_def schedule_ok_def)
  have par: "replicateParallel ?n ?need (map (\<lambda>p. push_result (net p)) ps) 0 0 = None \<longleftrightarrow>
             ?need \<le> int (card (acking cfg net))"
    if "distinct ps" "set ps = set (c_Peers cfg)" "length ps = length (c_Peers cfg)" "0 < ?need" for ps
    using replicateParallel_iff [of 0 ?need ?n 0 "map (\<lambda>p. push_result (net p)) ps"]
      that assms(3) acks_in_schedule [OF that(1,2), of net] by (simp add: ClusterSize_def)
  show ?thesis
  proof (cases "c_Peers cfg = [] \<or> ?need \<le> 0")
    case True
    then show ?thesis
      by (auto simp: replicate_entry_def acking_def Let_def)
  next
    case False
    then show ?thesis
      using par [of arrival] par [of "c_Peers cfg"] assms(1,2) len
      by (auto simp: replicate_entry_def Let_def schedule_ok_def peers_ok_def replicateSequential_result)
  qed
qed

lemma replicate_entry_sent:
  "fst (replicate_entry cfg net arrival need) = None \<Longrightarrow>
   snd (replicate_entry cfg net arrival need) = c_Peers cfg"
  by (auto simp: replicate_entry_def Let_def split: if_splits dest: replicateSequential_sent)

section \<open>What a successful write leaves behind\<close>

definition holds :: "cluster \<Rightarrow> string \<Rightarrow> Entry \<Rightarrow> string \<Rightarrow> bool" where
  "holds cl key e x \<longleftrightarrow> (\<exists>h. s_data (cl x) key = Some h \<and> \<not> Newer e h)"

lemma holds_after_apply:
  "e_Key e \<noteq> '''' \<Longrightarrow> arrives (net x) \<Longrightarrow> x \<in> set sent \<Longrightarrow> holds (deliver net sent e cl) (e_Key e) e x"
  using lww.keep_not_older [of e "s_data (cl x) (e_Key e)"]
  by (simp add: holds_def deliver_def ApplyReplication_def store_Apply_data)

lemma service_Write_ok:
  assumes "service_Write cfg net arrival cancel now key val ttl cl = (Inr e, cl')"
  shows "key \<noteq> ''''" and "e = fst (CoordinatorWrite now key val ttl (cl (c_NodeID cfg)))"
    and "fst (replicate_entry cfg net arrival (c_WriteQuorum cfg - 1)) = None"
    and "cl' = deliver net (c_Peers cfg) e
                 (cl(c_NodeID cfg := snd (CoordinatorWrite now key val ttl (cl (c_NodeID cfg)))))"
  using assms replicate_entry_sent [of cfg net arrival "c_WriteQuorum cfg - 1"]
  by (auto simp: service_Write_def Let_def split: if_splits option.splits prod.splits)

lemma service_Write_holders:
  assumes "peers_ok cfg" and w: "service_Write cfg net arrival cancel now key val ttl cl = (Inr e, cl')"
  shows "insert (c_NodeID cfg) (acking cfg net) \<subseteq> {x \<in> replicas cfg. holds cl' key e x}"
proof -
  note ok = service_Write_ok [OF w]
  have self: "holds cl' key e (c_NodeID cfg)"
    using assms(1) ok by (simp add: holds_def deliver_def peers_ok_def lww.newer_irrefl)
  have "holds cl' key e p" if "p \<in> acking cfg net" for p
    using that ok holds_after_apply [of e net p "c_Peers cfg"] by (simp add: acking_def)
  with self show ?thesis
    by (auto simp: replicas_def acking_def)
qed

lemma card_acking:
  "peers_ok cfg \<Longrightarrow> card (insert (c_NodeID cfg) (acking cfg net)) = card (acking cfg net) + 1"
  by (simp add: peers_ok_def acking_def)

text \<open>
  C20. A write succeeds exactly when the coordinator and the peers that acknowledged it make a
  write quorum, whatever order the acknowledgements arrive in and in both replication modes;
  and when it succeeds at least \<open>WriteQuorum\<close> replicas hold that entry or a newer one for the
  key.
\<close>

theorem write_quorum_met:
  assumes "peers_ok cfg" and "schedule_ok cfg arrival" and "Validate cfg = None" and "IsLeader cfg"
    and "key \<noteq> ''''"
  shows "(is_ok (fst (service_Write cfg net arrival None now key val ttl cl)) \<longleftrightarrow>
            c_WriteQuorum cfg \<le> int (card (acking cfg net)) + 1) \<and>
         (\<forall>e cl'. service_Write cfg net arrival None now key val ttl cl = (Inr e, cl') \<longrightarrow>
            c_WriteQuorum cfg \<le> int (card {x \<in> replicas cfg. holds cl' key e x}))"
proof -
  have iff: "is_ok (fst (service_Write cfg net arrival None now key val ttl cl)) \<longleftrightarrow>
        c_WriteQuorum cfg \<le> int (card (acking cfg net)) + 1"
    using replicate_entry_ok_iff [OF assms(1,2), of net] Validate_coordinator [OF assms(3,4)] assms(4,5)
    by (auto simp: service_Write_def Let_def split: prod.splits option.splits)
  have "c_WriteQuorum cfg \<le> int (card {x \<in> replicas cfg. holds cl' key e x})"
    if w: "service_Write cfg net arrival None now key val ttl cl = (Inr e, cl')" for e cl'
  proof -
    have "card (insert (c_NodeID cfg) (acking cfg net)) \<le> card {x \<in> replicas cfg. holds cl' key e x}"
      using service_Write_holders [OF assms(1) w] by (intro card_mono) (auto simp: replicas_def)
    moreover have "c_WriteQuorum cfg \<le> int (card (acking cfg net)) + 1"
      using iff w by simp
    ultimately show ?thesis
      using card_acking [OF assms(1), of net] by simp
  qed
  with iff show ?thesis by blast
qed

definition core_node :: Config where
  "core_node = \<lparr>c_NodeID = ''a'', c_Mode = ModeLeaderless, c_Role = ''leader'',
     c_Peers = [''b'', ''c''], c_WriteQuorum = 2, c_ReadQuorum = 2, c_WriteDelay = 0, c_ReadDelay = 0,
     c_Sequential = False, c_ReadRepair = True, c_RPCTimeout = 5000000000\<rparr>"

definition demo_err :: go_error where
  "demo_err = Errorf StatusServiceUnavailable ''calling %s''"

definition demo_net :: "string \<Rightarrow> push_outcome" where
  "demo_net p = (if p = ''b'' then Acked else Lost demo_err)"

theorem write_quorum_met_witness:
  "is_ok (fst (service_Write core_node demo_net [''c'', ''b''] None 0 ''k'' ''v'' 0 NewStore)) \<longleftrightarrow>
   c_WriteQuorum core_node \<le> int (card (acking core_node demo_net)) + 1"
  using write_quorum_met [of core_node "[''c'', ''b'']" "''k''" demo_net 0 "''v''" 0 NewStore]
  by (auto simp: core_node_def peers_ok_def schedule_ok_def Validate_def ModeLeaderless_def
      ModeLeaderFollower_def IsLeader_def ClusterSize_def)

section \<open>What a read quorum sees\<close>

lemma better_not_older:
  "found = Some f \<Longrightarrow> \<exists>b. better best found = Some b \<and> \<not> Newer f b"
  "best = Some l \<Longrightarrow> \<exists>b. better best found = Some b \<and> \<not> Newer l b"
  by (auto simp: better_def lww.newer_irrefl lww.newer_asym split: option.split)

text \<open>
  What the collecting loop returns: enough answers, a subsequence of those that arrived, and a
  best entry that none of them nor the initial one supersedes.
\<close>

lemma read_loop_ok:
  assumes "read_loop n need rs best answered failed collected = Inr (b', out)"
  shows "\<exists>xs. out = collected @ xs \<and> need \<le> answered + int (length xs) \<and>
         subseq (map (\<lambda>x. (fst x, Inr (snd x))) xs) rs \<and>
         (\<forall>p f. (p, Some f) \<in> set xs \<longrightarrow> (\<exists>b. b' = Some b \<and> \<not> Newer f b)) \<and>
         (\<forall>l. best = Some l \<longrightarrow> (\<exists>b. b' = Some b \<and> \<not> Newer l b))"
  using assms
proof (induction n need rs best answered failed collected rule: read_loop.induct)
  case (1 n need best answered failed collected)
  then show ?case
    by (intro exI [of _ "[]"]) (auto simp: lww.newer_irrefl split: if_splits)
next
  case (2 n need p err rs best answered failed collected)
  then show ?case by (fastforce split: if_splits intro: list_emb_Cons)
next
  case (3 n need p found rs best answered failed collected)
  let ?best = "better best found"
  note older = better_not_older [where best = best and found = found]
  show ?case
  proof (cases "answered + 1 \<ge> need")
    case True
    with "3.prems" older show ?thesis
      by (intro exI [of _ "[(p, found)]"]) (auto simp: Let_def)
  next
    case False
    then obtain xs where xs: "out = collected @ (p, found) # xs"
        "need \<le> answered + 1 + int (length xs)" "subseq (map (\<lambda>x. (fst x, Inr (snd x))) xs) rs"
        "\<forall>p f. (p, Some f) \<in> set xs \<longrightarrow> (\<exists>b. b' = Some b \<and> \<not> Newer f b)"
        "\<forall>l. ?best = Some l \<longrightarrow> (\<exists>b. b' = Some b \<and> \<not> Newer l b)"
      using "3.IH" [OF refl refl False] "3.prems" by (auto simp: Let_def)
    have chain: "\<exists>b. b' = Some b \<and> \<not> Newer f b" if "?best = Some x" "\<not> Newer f x" for f x
      using xs(5) that lww.not_newer_trans by blast
    have "\<forall>q f. (q, Some f) \<in> set ((p, found) # xs) \<longrightarrow> (\<exists>b. b' = Some b \<and> \<not> Newer f b)"
      using xs(4) older chain by auto
    moreover have "\<forall>l. best = Some l \<longrightarrow> (\<exists>b. b' = Some b \<and> \<not> Newer l b)"
      using older chain by blast
    ultimately show ?thesis
      using xs(1,2,3) by (intro exI [of _ "(p, found) # xs"]) auto
  qed
qed

text \<open>A node shows an entry at least as new as \<open>e\<close> to a reader at time \<open>now\<close>.\<close>

definition shows_key :: "int \<Rightarrow> cluster \<Rightarrow> string \<Rightarrow> Entry \<Rightarrow> string \<Rightarrow> bool" where
  "shows_key now cl key e x \<longleftrightarrow> (\<exists>h. store_Get now key (cl x) = Some h \<and> \<not> Newer e h)"

lemma repl_Fetch_answer:
  assumes "\<forall>err. reach p = Some err \<longrightarrow> \<not> IsStatus err StatusNotFound"
    and "repl_Fetch (case reach p of Some err \<Rightarrow> Inl err | None \<Rightarrow> handleInternalRead now key (cl p)) = Inr f"
  shows "f = store_Get now key (cl p)"
  using assms by (auto simp: repl_Fetch_def handleInternalRead_def LocalRead_def split: option.splits if_splits)

text \<open>The replicas behind the answer of a successful read: this node and the peers collected.\<close>

lemma service_Read_readers:
  assumes "peers_ok cfg" and "schedule_ok cfg arrival"
    and noise: "\<forall>p err. reach p = Some err \<longrightarrow> \<not> IsStatus err StatusNotFound"
    and rd: "service_Read cfg reach arrival cancel now key cl = (Inr res, cl', stale)"
  shows "\<exists>B. B \<subseteq> replicas cfg \<and> nat (c_ReadQuorum cfg) \<le> card B \<and>
         (\<forall>x\<in>B. \<forall>h. store_Get now key (cl x) = Some h \<longrightarrow> (\<exists>b. res = Some b \<and> \<not> Newer h b))"
proof (cases "c_ReadQuorum cfg - 1 \<le> 0")
  case True
  then have "res = store_Get now key (cl (c_NodeID cfg))"
    using rd by (auto simp: service_Read_def Let_def split: if_splits option.splits)
  with True show ?thesis
    by (intro exI [of _ "{c_NodeID cfg}"]) (auto simp: replicas_def lww.newer_irrefl)
next
  case False
  let ?self = "c_NodeID cfg" and ?n = "int (length (c_Peers cfg))"
  let ?local = "store_Get now key (cl ?self)"
  let ?answer = "\<lambda>p. (p, repl_Fetch (case reach p of Some err \<Rightarrow> Inl err
                                     | None \<Rightarrow> handleInternalRead now key (cl p)))"
  obtain out where loop: "read_loop ?n (c_ReadQuorum cfg - 1) (map ?answer arrival) ?local 0 0 [] = Inr (res, out)"
    using rd False
    by (auto simp: service_Read_def Let_def split: if_splits option.splits sum.splits prod.splits)
  obtain xs where xs: "c_ReadQuorum cfg - 1 \<le> int (length xs)"
      "subseq (map (\<lambda>x. (fst x, Inr (snd x))) xs) (map ?answer arrival)"
      "\<forall>p f. (p, Some f) \<in> set xs \<longrightarrow> (\<exists>b. res = Some b \<and> \<not> Newer f b)"
      "\<forall>l. ?local = Some l \<longrightarrow> (\<exists>b. res = Some b \<and> \<not> Newer l b)"
    using read_loop_ok [OF loop] by auto
  have sub: "subseq (map fst xs) arrival"
    using subseq_map [OF xs(2), of fst] by (simp add: comp_def)
  then have dist: "distinct (map fst xs)" and incl: "set (map fst xs) \<subseteq> set (c_Peers cfg)"
    using assms(2) subseq_distinct [OF sub] subseq_set [OF sub] by (auto simp: schedule_ok_def)
  have ans: "f = store_Get now key (cl p)" if "(p, f) \<in> set xs" for p f
  proof -
    have "(p, Inr f) \<in> set (map ?answer arrival)"
      using that subseq_set [OF xs(2)] by force
    then have "repl_Fetch (case reach p of Some err \<Rightarrow> Inl err
                           | None \<Rightarrow> handleInternalRead now key (cl p)) = Inr f"
      by auto
    with noise show ?thesis by (intro repl_Fetch_answer [of reach p now key cl]) blast+
  qed
  have "?self \<notin> set (map fst xs)"
    using incl assms(1) by (meson peers_ok_def subsetD)
  then have "card (insert ?self (set (map fst xs))) = length xs + 1"
    using distinct_card [OF dist] by simp
  moreover have "\<exists>b. res = Some b \<and> \<not> Newer h b"
    if x: "x \<in> insert ?self (set (map fst xs))" and h: "store_Get now key (cl x) = Some h" for x h
  proof (cases "x = ?self")
    case True
    with h xs(4) show ?thesis by blast
  next
    case False
    then obtain f where "(x, f) \<in> set xs" using x by auto
    with ans [of x f] h xs(3) show ?thesis by auto
  qed
  moreover have "insert ?self (set (map fst xs)) \<subseteq> replicas cfg"
    using incl unfolding replicas_def by blast
  ultimately show ?thesis
    using xs(1) by (intro exI [of _ "insert ?self (set (map fst xs))"]) auto
qed


section \<open>A read after a write\<close>

text \<open>
  What may happen in the cluster between a write and a read of \<open>key\<close>: a node applies a pushed
  entry, coordinates a write, or sweeps. On \<open>key\<close> itself the entries are permanent and
  versions stay below the largest \<open>int64\<close>.
\<close>

inductive cluster_step :: "string \<Rightarrow> cluster \<Rightarrow> cluster \<Rightarrow> bool" for key where
  push: "(e_Key e = key \<Longrightarrow> e_ExpiresAt e = 0) \<Longrightarrow>
     cluster_step key cl (cl(x := snd (store_Apply e (cl x))))"
| coordinate: "(k = key \<Longrightarrow> ttl \<le> 0) \<Longrightarrow>
     (\<And>h. s_data (cl x) key = Some h \<Longrightarrow> MinInt \<le> e_Version h \<and> e_Version h < MaxInt) \<Longrightarrow>
     cluster_step key cl (cl(x := snd (CoordinatorWrite now k v ttl (cl x))))"
| sweep: "cluster_step key cl (cl(x := snd (store_Sweep now ord (cl x))))"

inductive_cases cluster_stepE: "cluster_step key cl cl'"

definition permanent_key :: "string \<Rightarrow> cluster \<Rightarrow> bool" where
  "permanent_key key cl \<longleftrightarrow> (\<forall>x h. s_data (cl x) key = Some h \<longrightarrow> e_ExpiresAt h = 0)"

lemma keep_newest_cases: "keep_newest newer held e = e \<or> held = Some (keep_newest newer held e)"
  by (auto simp: keep_newest_def split: option.split)

lemma permanent_Apply:
  assumes "permanent_key key cl" and "e_Key e = key \<Longrightarrow> e_ExpiresAt e = 0"
  shows "permanent_key key (cl(x := snd (store_Apply e (cl x))))"
  using assms keep_newest_cases [of Newer "s_data (cl x) (e_Key e)" e]
  by (auto simp: permanent_key_def store_Apply_data)

lemma permanent_step:
  assumes "cluster_step key cl cl'" and "permanent_key key cl"
  shows "permanent_key key cl'"
  using assms(1)
proof cases
  case (push e x)
  with assms(2) show ?thesis by (simp add: permanent_Apply)
next
  case (coordinate k ttl x now v)
  with assms(2) show ?thesis by (auto simp: permanent_key_def)
next
  case (sweep x now ord)
  with assms(2) show ?thesis
    by (auto simp: permanent_key_def store_Sweep_def Let_def restrict_map_def split: if_splits)
qed

lemma holds_step:
  assumes "cluster_step key cl cl'" and "permanent_key key cl" and h: "holds cl key e y"
  shows "holds cl' key e y"
  using assms(1)
proof cases
  case (push e' x)
  from h obtain g where g: "s_data (cl y) key = Some g" "\<not> Newer e g" by (auto simp: holds_def)
  have "\<not> Newer e (keep_newest Newer (Some g) e')"
    using lww.keep_not_older [of e' "Some g"] g(2) lww.not_newer_trans by blast
  with push g show ?thesis by (auto simp: holds_def store_Apply_data)
next
  case (coordinate k ttl x now v)
  from h obtain g where g: "s_data (cl y) key = Some g" "\<not> Newer e g" by (auto simp: holds_def)
  show ?thesis
  proof (cases "y = x \<and> k = key")
    case True
    then have "Newer (fst (CoordinatorWrite now key v ttl (cl x))) g"
      using g(1) coordinate(3) by (blast intro: CoordinatorWrite_newer)
    then have "\<not> Newer e (fst (CoordinatorWrite now key v ttl (cl x)))"
      using g(2) lww.newer_asym lww.not_newer_trans by blast
    with True coordinate show ?thesis by (simp add: holds_def)
  next
    case False
    with coordinate h show ?thesis by (auto simp: holds_def)
  qed
next
  case (sweep x now ord)
  with assms(2) h show ?thesis
    by (auto simp: holds_def permanent_key_def store_Sweep_def Let_def restrict_map_def Expired_def
        split: option.splits)
qed

lemma holds_steps:
  assumes "(cluster_step key)\<^sup>*\<^sup>* cl cl'" and "permanent_key key cl" and "holds cl key e y"
  shows "permanent_key key cl' \<and> holds cl' key e y"
  using assms by (induction rule: rtranclp_induct) (auto intro: permanent_step holds_step)

lemma permanent_write:
  assumes "permanent_key key cl" and "ttl \<le> 0"
    and "service_Write cfg net arrival cancel now key val ttl cl = (Inr e, cl')"
  shows "permanent_key key cl'"
proof -
  note ok = service_Write_ok [OF assms(3)]
  let ?cl = "cl(c_NodeID cfg := snd (CoordinatorWrite now key val ttl (cl (c_NodeID cfg))))"
  have base: "permanent_key key ?cl" and e: "e_ExpiresAt e = 0" "e_Key e = key"
    using assms(1,2) ok(2) by (auto simp: permanent_key_def)
  have "e_ExpiresAt h = 0" if "s_data (cl' x) key = Some h" for x h
    using that base e ok keep_newest_cases [of Newer "s_data (?cl x) key" e]
    by (auto simp: permanent_key_def deliver_def ApplyReplication_def store_Apply_data
        split: if_splits)
  then show ?thesis by (simp add: permanent_key_def)
qed

lemma reader_set:
  assumes "peers_ok d" and "distinct ps" and "set ps \<subseteq> set (c_Peers d)"
    and "c_ReadQuorum d - 1 \<le> int (length ps)"
  shows "insert (c_NodeID d) (set ps) \<subseteq> replicas d \<and>
         nat (c_ReadQuorum d) \<le> card (insert (c_NodeID d) (set ps))"
proof -
  have "c_NodeID d \<notin> set ps" using assms(1,3) by (auto simp: peers_ok_def)
  then have "card (insert (c_NodeID d) (set ps)) = length ps + 1"
    using distinct_card [OF assms(2)] by simp
  with assms(3,4) show ?thesis by (auto simp: replicas_def)
qed

text \<open>Every set of \<open>R\<close> replicas meets the replicas that hold an acknowledged write.\<close>

lemma write_meets_readers:
  assumes cfgs: "peers_ok c" "peers_ok d" "replicas c = replicas d" "c_ReadQuorum c = c_ReadQuorum d"
    and quorums: "Validate c = None" "IsLeader c" "QuorumsIntersect c"
    and sched: "schedule_ok c arrival"
    and permanent: "permanent_key key cl" "ttl \<le> 0"
    and wr: "service_Write c net arrival None now key val ttl cl = (Inr e, cl1)"
    and later: "(cluster_step key)\<^sup>*\<^sup>* cl1 cl2"
    and B: "B \<subseteq> replicas d" "nat (c_ReadQuorum d) \<le> card B"
  shows "\<exists>x h. x \<in> B \<and> s_data (cl2 x) key = Some h \<and> \<not> Newer e h \<and> e_ExpiresAt h = 0"
proof -
  let ?A = "insert (c_NodeID c) (acking c net)"
  have W: "c_WriteQuorum c \<le> int (card (acking c net)) + 1"
    using replicate_entry_ok_iff [OF cfgs(1) sched] service_Write_ok(3) [OF wr]
      Validate_coordinator [OF quorums(1,2)] by blast
  have A: "?A \<subseteq> {x \<in> replicas c. holds cl1 key e x}" and "nat (c_WriteQuorum c) \<le> card ?A"
    using service_Write_holders [OF cfgs(1) wr] card_acking [OF cfgs(1), of net] W by auto
  moreover have "?A \<subseteq> replicas c" and "B \<subseteq> replicas c"
    using A B(1) cfgs(3) by auto
  ultimately obtain x where x: "x \<in> ?A" "x \<in> B"
    using cfgq.quorums_meet [of c ?A B] cfgs(1,4) quorums(3) B(2) by metis
  have "permanent_key key cl2 \<and> holds cl2 key e x"
    using holds_steps [OF later permanent_write [OF permanent wr]] A x(1) by blast
  with x(2) show ?thesis by (auto simp: holds_def permanent_key_def)
qed

text \<open>
  C6. Read your quorum's writes, for a key that never expires. When \<open>W + R > N\<close>, no replica holds an
  entry with an expiry under the key, and the key is only written without a TTL, a write coordinated by
  one node is seen by every later successful quorum read coordinated by any node of the same cluster: the
  read returns that entry or one that supersedes it. Between the two, any number of pushes and other
  writes (of this key without a TTL and before its version runs out of 64 bits, of other keys with any
  TTL) and sweeps may run, and each fan-out may finish in any order with any peers failing, as long as
  a failure is not taken for the answer that there is no such key.
\<close>

theorem quorum_read_sees_write:
  assumes cfgs: "peers_ok c" "peers_ok d" "replicas c = replicas d" "c_ReadQuorum c = c_ReadQuorum d"
    and quorums: "Validate c = None" "IsLeader c" "QuorumsIntersect c"
    and schedules: "schedule_ok c arrival" "schedule_ok d arrival'"
    and permanent: "permanent_key key cl" "ttl \<le> 0"
    and wr: "service_Write c net arrival None now key val ttl cl = (Inr e, cl1)"
    and later: "(cluster_step key)\<^sup>*\<^sup>* cl1 cl2"
    and faults: "\<forall>p err. reach p = Some err \<longrightarrow> \<not> IsStatus err StatusNotFound"
    and rd: "service_Read d reach arrival' None now' key cl2 = (Inr res, cl3, stale)"
  shows "\<exists>b. res = Some b \<and> \<not> Newer e b"
proof -
  obtain B where B: "B \<subseteq> replicas d" "nat (c_ReadQuorum d) \<le> card B"
      "\<forall>x\<in>B. \<forall>h. store_Get now' key (cl2 x) = Some h \<longrightarrow> (\<exists>b. res = Some b \<and> \<not> Newer h b)"
    using service_Read_readers [OF cfgs(2) schedules(2) faults rd] by blast
  obtain x h where "x \<in> B" "s_data (cl2 x) key = Some h" "\<not> Newer e h" "e_ExpiresAt h = 0"
    using write_meets_readers [OF cfgs quorums schedules(1) permanent wr later B(1,2)] by blast
  moreover from this have "store_Get now' key (cl2 x) = Some h"
    by (simp add: store_Get_def Expired_def)
  ultimately show ?thesis using B(3) lww.not_newer_trans [of e h] by blast
qed

definition demo_node_c :: Config where
  "demo_node_c = core_node\<lparr>c_NodeID := ''c'', c_Peers := [''a'', ''b'']\<rparr>"

definition demo_reach :: "string \<Rightarrow> go_error option" where
  "demo_reach p = (if p = ''a'' then Some demo_err else None)"

lemmas demo_cluster_defs = core_node_def demo_node_c_def demo_net_def demo_err_def demo_reach_def
  peers_ok_def schedule_ok_def replicas_def Validate_def ModeLeaderless_def ModeLeaderFollower_def
  IsLeader_def ClusterSize_def QuorumsIntersect_def permanent_key_def NewStore_def

text \<open>Node a writes, b acknowledges, the push to c is lost; then c reads while a is down.\<close>

theorem quorum_read_sees_write_witness:
  "\<exists>e cl1 res cl3 stale.
     service_Write core_node demo_net [''c'', ''b''] None 0 ''k'' ''v'' 0 NewStore = (Inr e, cl1) \<and>
     service_Read demo_node_c demo_reach [''a'', ''b''] None 0 ''k'' cl1 = (Inr res, cl3, stale) \<and>
     (\<exists>b. res = Some b \<and> \<not> Newer e b)"
proof -
  obtain e cl1 where w:
    "service_Write core_node demo_net [''c'', ''b''] None 0 ''k'' ''v'' 0 NewStore = (Inr e, cl1)"
    by (simp add: service_Write_def replicate_entry_def demo_cluster_defs CoordinatorWrite_def Let_def)
  note ok = service_Write_ok [OF w]
  have s: "s_data (cl1 ''b'') ''k'' = Some e" "s_data (cl1 ''c'') ''k'' = None" "e_ExpiresAt e = 0"
    using ok by (simp_all add: demo_cluster_defs deliver_def ApplyReplication_def store_Apply_data
        keep_newest_def CoordinatorWrite_def Let_def)
  obtain res cl3 stale where r:
    "service_Read demo_node_c demo_reach [''a'', ''b''] None 0 ''k'' cl1 = (Inr res, cl3, stale)"
    using s by (simp add: service_Read_def demo_cluster_defs repl_Fetch_def handleInternalRead_def
        LocalRead_def store_Get_def Expired_def better_def Let_def repair_def)
  have "\<exists>b. res = Some b \<and> \<not> Newer e b"
    by (rule quorum_read_sees_write [where cl = NewStore, OF _ _ _ _ _ _ _ _ _ _ _ w rtranclp.rtrancl_refl _ r])
      (auto simp: demo_cluster_defs)
  with w r show ?thesis by blast
qed


section \<open>Expiry and versions\<close>

text \<open>
  C38. A write acknowledged by every replica can be invisible to a quorum read. A swept node
  restarts the version of a key at 1, replicas that still hold the expired entry refuse the new
  one as not newer, and \<open>ApplyReplication\<close> acknowledges it all the same. Here node a writes
  \<open>k\<close> for one millisecond, the entry expires, a sweeps, and a writes \<open>k\<close> again, permanently, with
  every push acknowledged; node c then reads from itself and b with \<open>W + R > N\<close> and finds
  nothing.
\<close>

theorem acked_write_not_read:
  "let all = (\<lambda>p. Acked); t = 1000000000;
       cl1 = snd (service_Write core_node all [''b'', ''c''] None 0 ''k'' ''old'' 1000000 NewStore);
       cl2 = cl1(''a'' := snd (store_Sweep t [''k''] (cl1 ''a'')));
       (r, cl3) = service_Write core_node all [''b'', ''c''] None t ''k'' ''new'' 0 cl2
   in QuorumsIntersect core_node \<and> map_sum id e_Value r = Inr ''new'' \<and>
      fst (service_Read demo_node_c demo_reach [''a'', ''b''] None t ''k'' cl3) = Inr None"
  by (simp add: service_Write_def service_Read_def replicate_entry_def demo_cluster_defs Let_def
      CoordinatorWrite_def deliver_def ApplyReplication_def store_Apply_def store_Sweep_def
      Expired_def UnixMilli_def Newer_def repl_Fetch_def handleInternalRead_def LocalRead_def
      store_Get_def better_def)

end
