(* ===== verification/Go_Strconv.thy ===== *)
theory Go_Strconv
  imports Prelude
begin

text \<open>
  Decimal integers of the Go standard library as the program uses them: \<open>strconv.Atoi\<close> on query
  parameters and identifiers, \<open>%d\<close> on the way out. \<open>Atoi\<close> accepts an optional sign and rejects
  the empty string, other characters and values outside \<open>int64\<close>.
\<close>

definition digit_val :: "char \<Rightarrow> nat" where
  "digit_val c = of_char c - 48"

definition digit_char :: "nat \<Rightarrow> char" where
  "digit_char n = char_of (n + 48)"

fun digits_val :: "string \<Rightarrow> nat \<Rightarrow> nat option" where
  "digits_val [] acc = Some acc"
| "digits_val (c # cs) acc = (if is_digit c then digits_val cs (acc * 10 + digit_val c) else None)"

definition unsigned_val :: "string \<Rightarrow> nat option" where
  "unsigned_val s = (if s = '''' then None else digits_val s 0)"

definition Atoi :: "string \<Rightarrow> int option" where
  "Atoi s =
     (let v = (case s of
                 [] \<Rightarrow> None
               | c # cs \<Rightarrow>
                   if c = CHR ''-'' then map_option (\<lambda>n. - int n) (unsigned_val cs)
                   else if c = CHR ''+'' then map_option int (unsigned_val cs)
                   else map_option int (unsigned_val s))
      in case v of None \<Rightarrow> None | Some i \<Rightarrow> if in_int64 i then Some i else None)"

function nat_digits :: "nat \<Rightarrow> string" where
  "nat_digits n = (if n < 10 then [digit_char n] else nat_digits (n div 10) @ [digit_char (n mod 10)])"
  by pat_completeness auto
termination by (relation "measure id") auto

declare nat_digits.simps [simp del]

definition itoa :: "int \<Rightarrow> string" where
  "itoa i = (if i < 0 then CHR ''-'' # nat_digits (nat (- i)) else nat_digits (nat i))"

text \<open>\<open>encoding/hex\<close> and slicing, for the random identifiers.\<close>

definition hex_digit :: "nat \<Rightarrow> char" where
  "hex_digit n = char_of (if n < 10 then n + 48 else n + 87)"

definition hex_byte :: "8 word \<Rightarrow> string" where
  "hex_byte b = [hex_digit (unat b div 16), hex_digit (unat b mod 16)]"

definition hex_EncodeToString :: "8 word list \<Rightarrow> string" where
  "hex_EncodeToString bs = concat (map hex_byte bs)"

definition slice :: "nat \<Rightarrow> nat \<Rightarrow> 'a list \<Rightarrow> 'a list" where
  "slice i j xs = take (j - i) (drop i xs)"

section \<open>Round trip\<close>

lemma is_digit_code: "is_digit c \<longleftrightarrow> 48 \<le> (of_char c :: nat) \<and> (of_char c :: nat) \<le> 57"
  by (simp add: is_digit_def less_eq_char_def)

lemma digit_char_code: "n < 10 \<Longrightarrow> of_char (digit_char n) = n + (48 :: nat)"
  by (simp add: digit_char_def)

lemma digit_char_props:
  assumes "n < 10"
  shows "is_digit (digit_char n)" and "digit_val (digit_char n) = n"
  using assms by (simp_all add: is_digit_code digit_val_def digit_char_code)

lemma digits_val_append:
  "digits_val (xs @ ys) acc = (case digits_val xs acc of None \<Rightarrow> None | Some a \<Rightarrow> digits_val ys a)"
  by (induction xs arbitrary: acc) simp_all

lemma nat_digits_val: "digits_val (nat_digits n) 0 = Some n"
proof (induction n rule: nat_digits.induct)
  case (1 n)
  show ?case
  proof (cases "n < 10")
    case True
    then show ?thesis by (simp add: nat_digits.simps [of n] digit_char_props)
  next
    case False
    then show ?thesis
      using 1 by (simp add: nat_digits.simps [of n] digits_val_append digit_char_props)
  qed
qed

lemma nat_digits_hd: "nat_digits n \<noteq> '''' \<and> is_digit (hd (nat_digits n))"
proof (induction n rule: nat_digits.induct)
  case (1 n)
  then show ?case
    by (cases "n < 10") (simp_all add: nat_digits.simps [of n] digit_char_props hd_append)
qed

lemma Atoi_itoa:
  assumes "in_int64 i"
  shows "Atoi (itoa i) = Some i"
proof -
  obtain c cs where d: "nat_digits (nat \<bar>i\<bar>) = c # cs"
    using nat_digits_hd [of "nat \<bar>i\<bar>"] by (cases "nat_digits (nat \<bar>i\<bar>)") auto
  then have "is_digit c" using nat_digits_hd [of "nat \<bar>i\<bar>"] by simp
  then have sign: "c \<noteq> CHR ''-''" "c \<noteq> CHR ''+''" by (auto simp: is_digit_code)
  have "unsigned_val (c # cs) = Some (nat \<bar>i\<bar>)"
    using nat_digits_val [of "nat \<bar>i\<bar>"] d by (simp add: unsigned_val_def)
  with d sign assms show ?thesis
    by (cases "i < 0") (simp_all add: Atoi_def itoa_def)
qed

lemma itoa_inj: "in_int64 i \<Longrightarrow> in_int64 j \<Longrightarrow> itoa i = itoa j \<Longrightarrow> i = j"
  using Atoi_itoa by (metis option.inject)

end
