(* ===== verification/Kv_Scan.thy ===== *)
theory Kv_Scan
  imports Kv_Service Go_Strconv "HOL-Library.AList"
begin

text \<open>
  The quorum scan of \<^verbatim>\<open>src/internal/kv/service.go\<close> (\<open>Scan\<close>, \<open>mergePeerScans\<close>), the replica's own
  scan and its limit in \<^verbatim>\<open>src/internal/kv/server.go\<close>. The merged map is an association list with
  one entry per key; its order is irrelevant because the result is sorted by key.
\<close>

definition scanLimit :: "string \<Rightarrow> int" where
  "scanLimit q =
     (case Atoi q of
        None \<Rightarrow> 200
      | Some limit \<Rightarrow> if limit \<le> 0 then 200 else if limit > 1000 then 1000 else limit)"

definition LocalScan :: "int \<Rightarrow> string list \<Rightarrow> string \<Rightarrow> int \<Rightarrow> Store \<Rightarrow> Entry list" where
  "LocalScan now ord pre limit s = store_Scan now ord pre limit s"

definition handleInternalScan :: "int \<Rightarrow> string list \<Rightarrow> string \<Rightarrow> string \<Rightarrow> Store \<Rightarrow> Entry list res" where
  "handleInternalScan now ord pre limit s =
     (if pre = '''' then Inl (Errorf StatusBadRequest ''prefix is required'')
      else Inr (LocalScan now ord pre (scanLimit limit) s))"

definition merge_entry :: "(string \<times> Entry) list \<Rightarrow> Entry \<Rightarrow> (string \<times> Entry) list" where
  "merge_entry merged e =
     (case map_of merged (e_Key e) of
        None \<Rightarrow> AList.update (e_Key e) e merged
      | Some held \<Rightarrow> if Newer e held then AList.update (e_Key e) e merged else merged)"

fun mergePeerScans ::
  "int \<Rightarrow> Entry list res list \<Rightarrow> int \<Rightarrow> (string \<times> Entry) list \<Rightarrow> (string \<times> Entry) list res" where
  "mergePeerScans need [] answered merged =
     Inl (Errorf StatusServiceUnavailable ''scan quorum of %d not met: only %d replicas answered'')"
| "mergePeerScans need (Inl err # rs) answered merged = mergePeerScans need rs answered merged"
| "mergePeerScans need (Inr es # rs) answered merged =
     (let merged' = foldl merge_entry merged es in
      if answered + 1 \<ge> need then Inr merged'
      else mergePeerScans need rs (answered + 1) merged')"

text \<open>\<open>ords x\<close> is the order in which node \<open>x\<close> visits its map; \<open>reach\<close> and \<open>arrival\<close> are as
  for a read.\<close>

definition peer_scan ::
  "(string \<Rightarrow> go_error option) \<Rightarrow> int \<Rightarrow> (string \<Rightarrow> string list) \<Rightarrow> string \<Rightarrow> int \<Rightarrow> cluster \<Rightarrow> string
     \<Rightarrow> Entry list res" where
  "peer_scan reach now ords pre limit cl p =
     (case reach p of
        Some err \<Rightarrow> Inl err
      | None \<Rightarrow> handleInternalScan now (ords p) pre (itoa limit) (cl p))"

definition service_Scan ::
  "Config \<Rightarrow> (string \<Rightarrow> go_error option) \<Rightarrow> string list \<Rightarrow> go_error option \<Rightarrow> int \<Rightarrow> (string \<Rightarrow> string list)
     \<Rightarrow> string \<Rightarrow> int \<Rightarrow> cluster \<Rightarrow> Entry list res" where
  "service_Scan cfg reach arrival cancel now ords pre limit cl =
     (case cancel of
        Some err \<Rightarrow> Inl (Wrap StatusServiceUnavailable err ''scan cancelled'')
      | None \<Rightarrow>
          (let self = c_NodeID cfg;
               merged = foldl (\<lambda>m e. AList.update (e_Key e) e m) []
                          (store_Scan now (ords self) pre limit (cl self));
               need = c_ReadQuorum cfg - 1
           in case (if need > 0
                    then mergePeerScans need (map (peer_scan reach now ords pre limit cl) arrival) 0 merged
                    else Inr merged) of
                Inl err \<Rightarrow> Inl err
              | Inr m \<Rightarrow>
                  (let out = sort_key e_Key (map snd m)
                   in Inr (if int (length out) > limit \<and> limit > 0 then take (nat limit) out else out))))"

section \<open>The merged map\<close>

text \<open>One entry per key, filed under its own key, and each a member of \<open>S\<close>.\<close>

definition merged_ok :: "Entry set \<Rightarrow> (string \<times> Entry) list \<Rightarrow> bool" where
  "merged_ok S m \<longleftrightarrow> distinct (map fst m) \<and> (\<forall>(k, e) \<in> set m. e_Key e = k \<and> e \<in> S)"

definition covers :: "(string \<times> Entry) list \<Rightarrow> Entry \<Rightarrow> bool" where
  "covers m e \<longleftrightarrow> (\<exists>b. map_of m (e_Key e) = Some b \<and> \<not> Newer e b)"

lemma merge_entry_map_of:
  "map_of (merge_entry m e) = (map_of m)(e_Key e \<mapsto> keep_newest Newer (map_of m (e_Key e)) e)"
  by (auto simp: merge_entry_def keep_newest_def update_conv' fun_upd_idem split: option.split)

lemma update_entry_ok:
  assumes "merged_ok S m" and "e \<in> S"
  shows "merged_ok S (AList.update (e_Key e) e m)"
proof -
  have "(k, x) = (e_Key e, e) \<or> (k, x) \<in> set m" if "(k, x) \<in> set (AList.update (e_Key e) e m)" for k x
    using that by (induction m) (auto split: if_splits)
  with assms show ?thesis
    by (fastforce simp: merged_ok_def distinct_update)
qed

lemma merge_entry_ok: "merged_ok S m \<Longrightarrow> e \<in> S \<Longrightarrow> merged_ok S (merge_entry m e)"
  by (auto simp: merge_entry_def update_entry_ok split: option.split)

lemma merge_all_ok: "merged_ok S m \<Longrightarrow> set es \<subseteq> S \<Longrightarrow> merged_ok S (foldl merge_entry m es)"
  by (induction es arbitrary: m) (auto simp: merge_entry_ok)

lemma update_all_ok:
  "merged_ok S m \<Longrightarrow> set es \<subseteq> S \<Longrightarrow> merged_ok S (foldl (\<lambda>m e. AList.update (e_Key e) e m) m es)"
  by (induction es arbitrary: m) (auto simp: update_entry_ok)

lemma merge_entry_covers: "covers (merge_entry m e) e" "covers m x \<Longrightarrow> covers (merge_entry m e) x"
proof -
  show "covers (merge_entry m e) e"
    using lww.keep_not_older [of e "map_of m (e_Key e)"] by (simp add: covers_def merge_entry_map_of)
  assume "covers m x"
  then obtain b where b: "map_of m (e_Key x) = Some b" "\<not> Newer x b" by (auto simp: covers_def)
  then have "\<not> Newer x (keep_newest Newer (Some b) e)"
    using lww.keep_not_older [of e "Some b"] lww.not_newer_trans by blast
  with b show "covers (merge_entry m e) x"
    by (cases "e_Key x = e_Key e") (simp_all add: covers_def merge_entry_map_of)
qed

lemma merge_all_covers: "x \<in> set es \<or> covers m x \<Longrightarrow> covers (foldl merge_entry m es) x"
  by (induction es arbitrary: m) (auto simp: merge_entry_covers)

lemma mergePeerScans_ok:
  assumes "mergePeerScans need rs answered merged = Inr m" and "answered < need"
  shows "\<exists>xs. subseq (map Inr xs) rs \<and> need \<le> answered + int (length xs) \<and>
         (\<forall>x. covers merged x \<or> (\<exists>es \<in> set xs. x \<in> set es) \<longrightarrow> covers m x)"
  using assms
proof (induction need rs answered merged rule: mergePeerScans.induct)
  case (2 need err rs answered merged)
  then show ?case by (fastforce intro: list_emb_Cons)
next
  case (3 need es rs answered merged)
  show ?case
  proof (cases "answered + 1 \<ge> need")
    case True
    with "3.prems" show ?thesis
      by (intro exI [of _ "[es]"]) (auto simp: merge_all_covers)
  next
    case False
    then obtain xs where "subseq (map Inr xs) rs" "need \<le> answered + 1 + int (length xs)"
        "\<forall>x. covers (foldl merge_entry merged es) x \<or> (\<exists>es \<in> set xs. x \<in> set es) \<longrightarrow> covers m x"
      using "3.IH" [OF refl] "3.prems"(1) by auto
    then show ?thesis
      by (intro exI [of _ "es # xs"]) (auto simp: merge_all_covers)
  qed
qed simp

lemma mergePeerScans_wf:
  assumes "mergePeerScans need rs answered merged = Inr m" and "merged_ok S merged"
    and "\<And>es. Inr es \<in> set rs \<Longrightarrow> set es \<subseteq> S"
  shows "merged_ok S m"
  using assms
  by (induction need rs answered merged rule: mergePeerScans.induct)
    (auto simp: Let_def merge_all_ok split: if_splits)


section \<open>What a scan returns\<close>

text \<open>Everything the replicas of a cluster could show under a prefix.\<close>

definition cluster_scan_set :: "Config \<Rightarrow> int \<Rightarrow> string \<Rightarrow> cluster \<Rightarrow> Entry set" where
  "cluster_scan_set cfg now pre cl = (\<Union>x \<in> replicas cfg. scan_set now pre (cl x))"

definition stores_ok :: "Config \<Rightarrow> (string \<Rightarrow> string list) \<Rightarrow> cluster \<Rightarrow> bool" where
  "stores_ok cfg ords cl \<longleftrightarrow> (\<forall>x \<in> replicas cfg. store_wf (cl x) \<and> visits (ords x) (cl x))"

lemma finite_scan_set: "visits ord s \<Longrightarrow> finite (scan_set now pre s)"
proof -
  assume "visits ord s"
  then have "finite ((\<lambda>k. the (s_data s k)) ` dom (s_data s))"
    by (metis finite_imageI finite_set visits_def)
  moreover have "scan_set now pre s \<subseteq> (\<lambda>k. the (s_data s k)) ` dom (s_data s)"
  proof
    fix e assume "e \<in> scan_set now pre s"
    then have "s_data s (e_Key e) = Some e" by (simp add: scan_set_def)
    then show "e \<in> (\<lambda>k. the (s_data s k)) ` dom (s_data s)" by (intro image_eqI [of _ _ "e_Key e"]) auto
  qed
  ultimately show ?thesis by (rule rev_finite_subset)
qed

lemma scanLimit_itoa: "0 < limit \<Longrightarrow> limit \<le> 1000 \<Longrightarrow> scanLimit (itoa limit) = limit"
  by (simp add: scanLimit_def Atoi_itoa MinInt_def MaxInt_def)

lemma scan_set_key_inj: "inj_on e_Key (scan_set now pre s)"
  unfolding scan_set_def by (rule inj_onI) (metis (mono_tags, lifting) mem_Collect_eq option.inject)

text \<open>A replica whose live entries fit the limit returns them all.\<close>

lemma store_Scan_all:
  assumes "store_wf s" and "visits ord s" and "0 < limit" and "card (scan_set now pre s) \<le> nat limit"
  shows "set (store_Scan now ord pre limit s) = scan_set now pre s"
    and "distinct (map e_Key (store_Scan now ord pre limit s))"
proof -
  let ?hits = "map (\<lambda>k. the (s_data s k)) (filter (scan_hit now pre (s_data s)) ord)"
  note hits = visited_hits [OF assms(1,2), of now pre]
  have "distinct ?hits" using hits(2) by (simp only: distinct_map)
  then have "length ?hits = card (scan_set now pre s)"
    using hits(1) distinct_card by metis
  then have scan: "store_Scan now ord pre limit s = sort_key e_Key ?hits"
    using assms(3,4) by (simp add: store_Scan_def scan_loop_eq Let_def)
  then show "set (store_Scan now ord pre limit s) = scan_set now pre s" using hits(1) by simp
  show "distinct (map e_Key (store_Scan now ord pre limit s))"
    using hits(2) by (simp only: scan distinct_map_sort_key)
qed

lemma fits_each:
  assumes "stores_ok cfg ords cl" and "card (e_Key ` cluster_scan_set cfg now pre cl) \<le> n"
    and "x \<in> replicas cfg"
  shows "card (scan_set now pre (cl x)) \<le> n"
proof -
  have "finite (cluster_scan_set cfg now pre cl)"
    using assms(1) by (auto simp: cluster_scan_set_def stores_ok_def replicas_def intro: finite_scan_set)
  then have "card (e_Key ` scan_set now pre (cl x)) \<le> card (e_Key ` cluster_scan_set cfg now pre cl)"
    using assms(3) by (intro card_mono) (auto simp: cluster_scan_set_def)
  with assms(2) show ?thesis by (simp add: card_image [OF scan_set_key_inj])
qed

lemma merged_ok_result:
  assumes "merged_ok S m" and "finite S" and "card (e_Key ` S) \<le> nat limit"
  shows "length m \<le> nat limit" and "distinct (map e_Key (map snd m))" and "set (map snd m) \<subseteq> S"
    and "covers m e \<Longrightarrow> \<exists>b \<in> set (map snd m). e_Key b = e_Key e \<and> \<not> Newer e b"
proof -
  have keys: "map e_Key (map snd m) = map fst m"
    using assms(1) by (auto simp: merged_ok_def)
  then show dist: "distinct (map e_Key (map snd m))"
    using assms(1) by (simp only: merged_ok_def)
  show sub: "set (map snd m) \<subseteq> S"
    using assms(1) by (auto simp: merged_ok_def)
  have "length m = card (set (map e_Key (map snd m)))"
    using distinct_card [OF dist] by simp
  also have "\<dots> \<le> card (e_Key ` S)"
    using sub assms(2) by (intro card_mono) auto
  finally show "length m \<le> nat limit" using assms(3) by simp
  assume "covers m e"
  then obtain b where b: "map_of m (e_Key e) = Some b" "\<not> Newer e b" by (auto simp: covers_def)
  then have mem: "(e_Key e, b) \<in> set m" by (simp add: map_of_SomeD)
  with assms(1) have "e_Key b = e_Key e" by (auto simp: merged_ok_def)
  moreover have "b \<in> set (map snd m)" using mem by force
  ultimately show "\<exists>b \<in> set (map snd m). e_Key b = e_Key e \<and> \<not> Newer e b" using b(2) by blast
qed

lemma local_merge_covers:
  assumes "distinct (map e_Key es)" and "x \<in> set es"
  shows "covers (foldl (\<lambda>m e. AList.update (e_Key e) e m) m es) x"
proof -
  have keep: "map_of (foldl (\<lambda>m e. AList.update (e_Key e) e m) m es) k = map_of m k"
    if "k \<notin> e_Key ` set es" for k m es
    using that by (induction es arbitrary: m) (auto simp: update_conv')
  show ?thesis
    using assms
    by (induction es arbitrary: m) (auto simp: covers_def keep update_conv' lww.newer_irrefl)
qed


text \<open>The replicas behind the merged map: this node and the peers that answered.\<close>

lemma peer_scan_set:
  assumes "stores_ok d ords cl" and "0 < limit" "limit \<le> 1000"
    and "card (e_Key ` cluster_scan_set d now pre cl) \<le> nat limit"
    and "p \<in> replicas d" and "peer_scan reach now ords pre limit cl p = Inr es"
  shows "set es = scan_set now pre (cl p)"
proof -
  have "set (store_Scan now (ords p) pre limit (cl p)) = scan_set now pre (cl p)"
    using store_Scan_all(1) fits_each [OF assms(1,4,5)] assms(1,2,5) by (simp add: stores_ok_def)
  with assms(6) show ?thesis
    by (auto simp: peer_scan_def handleInternalScan_def LocalScan_def scanLimit_itoa assms(2,3)
        split: option.splits if_splits)
qed

lemma peers_behind_merge:
  assumes peers: "peers_ok d" "schedule_ok d arrival" and st: "stores_ok d ords cl"
    and lim: "0 < limit" "limit \<le> 1000" "card (e_Key ` cluster_scan_set d now pre cl) \<le> nat limit"
    and mp: "mergePeerScans need (map (peer_scan reach now ords pre limit cl) arrival) 0 m0 = Inr m"
    and "0 < need"
  shows "\<exists>ps. distinct ps \<and> set ps \<subseteq> set (c_Peers d) \<and> need \<le> int (length ps) \<and>
           (\<forall>h. covers m0 h \<or> (\<exists>x \<in> set ps. h \<in> scan_set now pre (cl x)) \<longrightarrow> covers m h)"
proof -
  obtain xs where xs: "subseq (map Inr xs) (map (peer_scan reach now ords pre limit cl) arrival)"
      "need \<le> int (length xs)" "\<forall>x. covers m0 x \<or> (\<exists>es \<in> set xs. x \<in> set es) \<longrightarrow> covers m x"
    using mergePeerScans_ok [OF mp assms(8)] by auto
  obtain ps where ps: "subseq ps arrival" "map Inr xs = map (peer_scan reach now ords pre limit cl) ps"
    using subseq_map_preimage [OF xs(1)] by blast
  have len: "length xs = length ps" using ps(2) by (metis length_map)
  have incl: "set ps \<subseteq> set (c_Peers d)" and dist: "distinct ps"
    using subseq_set [OF ps(1)] subseq_distinct [OF ps(1)] peers(2) by (auto simp: schedule_ok_def)
  have "covers m h" if x: "x \<in> set ps" and h: "h \<in> scan_set now pre (cl x)" for x h
  proof -
    obtain es where "es \<in> set xs" "peer_scan reach now ords pre limit cl x = Inr es"
      using x ps(2) by (metis (no_types, lifting) image_iff list.set_map)
    moreover have "x \<in> replicas d" using x incl by (auto simp: replicas_def)
    ultimately show ?thesis using peer_scan_set [OF st lim] xs(3) h by blast
  qed
  with xs(2,3) len incl dist show ?thesis by (intro exI [of _ ps]) auto
qed

lemma service_Scan_merged:
  assumes peers: "peers_ok d" "schedule_ok d arrival" and st: "stores_ok d ords cl"
    and lim: "0 < limit" "limit \<le> 1000" "card (e_Key ` cluster_scan_set d now pre cl) \<le> nat limit"
    and ok: "service_Scan d reach arrival cancel now ords pre limit cl = Inr out"
  obtains m ps where "merged_ok (cluster_scan_set d now pre cl) m"
    and "out = sort_key e_Key (map snd m)"
    and "distinct ps" "set ps \<subseteq> set (c_Peers d)" "c_ReadQuorum d - 1 \<le> int (length ps)"
    and "\<And>x h. x \<in> insert (c_NodeID d) (set ps) \<Longrightarrow> h \<in> scan_set now pre (cl x) \<Longrightarrow> covers m h"
proof -
  let ?self = "c_NodeID d" and ?S = "cluster_scan_set d now pre cl" and ?need = "c_ReadQuorum d - 1"
  let ?local = "store_Scan now (ords ?self) pre limit (cl ?self)"
  let ?m0 = "foldl (\<lambda>m e. AList.update (e_Key e) e m) [] ?local"
  let ?rs = "map (peer_scan reach now ords pre limit cl) arrival"
  have finS: "finite ?S"
    using st by (auto simp: cluster_scan_set_def stores_ok_def replicas_def intro: finite_scan_set)
  have self: "?self \<in> replicas d" by (simp add: replicas_def)
  then have local: "set ?local = scan_set now pre (cl ?self)" "distinct (map e_Key ?local)"
    using store_Scan_all fits_each [OF st lim(3)] st lim(1)
    by (simp_all add: stores_ok_def)
  have m0: "merged_ok ?S ?m0"
    using local(1) self by (intro update_all_ok) (auto simp: merged_ok_def cluster_scan_set_def)
  have m0c: "covers ?m0 h" if "h \<in> scan_set now pre (cl ?self)" for h
    using that local by (intro local_merge_covers) auto
  have fin: "out = sort_key e_Key (map snd m)"
    if "merged_ok ?S m" and "(if ?need > 0 then mergePeerScans ?need ?rs 0 ?m0 else Inr ?m0) = Inr m" for m
    using ok that(2) merged_ok_result(1) [OF that(1) finS lim(3)] lim(1)
    by (auto simp: service_Scan_def Let_def split: option.splits)
  show thesis
  proof (cases "?need > 0")
    case False
    then show thesis using that [of ?m0 "[]"] fin [OF m0] m0 m0c by simp
  next
    case True
    then obtain m where mp: "mergePeerScans ?need ?rs 0 ?m0 = Inr m"
      using ok by (auto simp: service_Scan_def Let_def split: option.splits sum.splits if_splits)
    have "set es \<subseteq> ?S" if es: "Inr es \<in> set ?rs" for es
    proof -
      obtain p where "p \<in> set arrival" "peer_scan reach now ords pre limit cl p = Inr es"
        using es by auto
      moreover from this have "p \<in> replicas d" using peers(2) by (simp add: schedule_ok_def replicas_def)
      ultimately show ?thesis using peer_scan_set [OF st lim] by (auto simp: cluster_scan_set_def)
    qed
    then have wf: "merged_ok ?S m" using mergePeerScans_wf [OF mp m0] by blast
    from peers_behind_merge [OF peers st lim mp True] obtain ps where
      ps: "distinct ps" "set ps \<subseteq> set (c_Peers d)" "?need \<le> int (length ps)"
        "\<forall>h. covers ?m0 h \<or> (\<exists>x \<in> set ps. h \<in> scan_set now pre (cl x)) \<longrightarrow> covers m h" by blast
    then have "covers m h" if "x \<in> insert ?self (set ps)" "h \<in> scan_set now pre (cl x)" for x h
      using that m0c by blast
    with ps(1,2,3) wf fin [OF wf] True mp show thesis by (intro that [of m ps]) simp_all
  qed
qed


text \<open>
  C19. A quorum scan sees every acknowledged write of a key that never expires. When \<open>W + R > N\<close>, no
  replica holds an entry with an expiry under the key, the key is only written without a TTL (and before
  its version runs out of 64 bits), the limit of the scan is at most 1000, where the peers cut theirs, and
  the live entries of the prefix fit the limit, then the result of a successful scan is sorted by key
  without duplicates, holds only entries some replica has, and for a write acknowledged before it contains
  that entry or one that supersedes it, for any schedule, any failing peers, and any order in which the
  replicas visit their maps.
\<close>

theorem quorum_scan_sees_write:
  assumes cfgs: "peers_ok c" "peers_ok d" "replicas c = replicas d" "c_ReadQuorum c = c_ReadQuorum d"
    and quorums: "Validate c = None" "IsLeader c" "QuorumsIntersect c"
    and schedules: "schedule_ok c arrival" "schedule_ok d arrival'"
    and permanent: "permanent_key key cl" "ttl \<le> 0"
    and wr: "service_Write c net arrival None now key val ttl cl = (Inr e, cl1)"
    and later: "(cluster_step key)\<^sup>*\<^sup>* cl1 cl2"
    and st: "stores_ok d ords cl2"
    and lim: "0 < limit" "limit \<le> 1000" "card (e_Key ` cluster_scan_set d now' pre cl2) \<le> nat limit"
    and pre: "HasPrefix key pre"
    and sc: "service_Scan d reach arrival' None now' ords pre limit cl2 = Inr out"
  shows "sorted (map e_Key out) \<and> distinct (map e_Key out) \<and>
         set out \<subseteq> cluster_scan_set d now' pre cl2 \<and>
         (\<exists>b \<in> set out. e_Key b = key \<and> \<not> Newer e b)"
proof -
  let ?A = "insert (c_NodeID c) (acking c net)"
  obtain m ps where m: "merged_ok (cluster_scan_set d now' pre cl2) m" "out = sort_key e_Key (map snd m)"
      "distinct ps" "set ps \<subseteq> set (c_Peers d)" "c_ReadQuorum d - 1 \<le> int (length ps)"
      "\<And>x h. x \<in> insert (c_NodeID d) (set ps) \<Longrightarrow> h \<in> scan_set now' pre (cl2 x) \<Longrightarrow> covers m h"
    using service_Scan_merged [OF cfgs(2) schedules(2) st lim sc] by blast
  have finS: "finite (cluster_scan_set d now' pre cl2)"
    using st by (auto simp: cluster_scan_set_def stores_ok_def replicas_def intro: finite_scan_set)
  note res = merged_ok_result [OF m(1) finS lim(3)]
  have B: "insert (c_NodeID d) (set ps) \<subseteq> replicas d" "nat (c_ReadQuorum d) \<le> card (insert (c_NodeID d) (set ps))"
    using reader_set [OF cfgs(2) m(3,4,5)] by auto
  obtain x h where x: "x \<in> insert (c_NodeID d) (set ps)" "s_data (cl2 x) key = Some h" "\<not> Newer e h"
      "e_ExpiresAt h = 0"
    using write_meets_readers [OF cfgs quorums schedules(1) permanent wr later B] by blast
  then have "e_Key h = key" using st B(1) by (auto simp: stores_ok_def store_wf_def)
  with x pre have "covers m h" by (intro m(6)) (auto simp: scan_set_def Expired_def)
  from res(4) [OF this] x(3) \<open>e_Key h = key\<close> lww.not_newer_trans [of e h]
  have "\<exists>b \<in> set (map snd m). e_Key b = key \<and> \<not> Newer e b" by metis
  moreover have "distinct (map e_Key out)" using res(2) by (simp only: m(2) distinct_map_sort_key)
  ultimately show ?thesis using res(3) by (simp add: m(2))
qed

definition demo_ords :: "string \<Rightarrow> string list" where
  "demo_ords x = (if x = ''c'' then [] else [''k''])"

theorem quorum_scan_sees_write_witness:
  "\<exists>e cl1 out.
     service_Write core_node demo_net [''c'', ''b''] None 0 ''k'' ''v'' 0 NewStore = (Inr e, cl1) \<and>
     service_Scan demo_node_c demo_reach [''a'', ''b''] None 0 demo_ords ''k'' 5 cl1 = Inr out \<and>
     (\<exists>b \<in> set out. e_Key b = ''k'' \<and> \<not> Newer e b)"
proof -
  obtain e cl1 where w:
    "service_Write core_node demo_net [''c'', ''b''] None 0 ''k'' ''v'' 0 NewStore = (Inr e, cl1)"
    by (simp add: service_Write_def replicate_entry_def demo_cluster_defs CoordinatorWrite_def Let_def)
  note ok = service_Write_ok [OF w]
  have s: "s_data (cl1 ''a'') = [''k'' \<mapsto> e]" "s_data (cl1 ''b'') = [''k'' \<mapsto> e]"
      "s_data (cl1 ''c'') = Map.empty" "e_Key e = ''k''" "e_ExpiresAt e = 0"
    using ok by (simp_all add: demo_cluster_defs deliver_def ApplyReplication_def store_Apply_data
        keep_newest_def CoordinatorWrite_def Let_def)
  have st: "stores_ok demo_node_c demo_ords cl1"
    using s by (auto simp: stores_ok_def demo_cluster_defs demo_ords_def store_wf_def visits_def)
  have "cluster_scan_set demo_node_c 0 ''k'' cl1 \<subseteq> {e}"
    using s by (auto simp: cluster_scan_set_def scan_set_def demo_cluster_defs split: if_splits)
  then have "e_Key ` cluster_scan_set demo_node_c 0 ''k'' cl1 \<subseteq> {''k''}"
    using s(4) by auto
  then have "card (e_Key ` cluster_scan_set demo_node_c 0 ''k'' cl1) \<le> card {''k''}"
    by (intro card_mono) auto
  then have lim: "card (e_Key ` cluster_scan_set demo_node_c 0 ''k'' cl1) \<le> nat 5" by simp
  obtain out where r: "service_Scan demo_node_c demo_reach [''a'', ''b''] None 0 demo_ords ''k'' 5 cl1 = Inr out"
    using s by (simp add: service_Scan_def demo_cluster_defs peer_scan_def handleInternalScan_def
        LocalScan_def demo_ords_def Let_def)
  have "\<exists>b \<in> set out. e_Key b = ''k'' \<and> \<not> Newer e b"
    using quorum_scan_sees_write [where cl = NewStore, OF _ _ _ _ _ _ _ _ _ _ _ w rtranclp.rtrancl_refl st _ _ lim _ r]
    by (auto simp: demo_cluster_defs HasPrefix_def)
  with w r show ?thesis by blast
qed

end
