(* ===== verification/Kv_Txn.thy ===== *)
theory Kv_Txn
  imports Httpx_Errors Go_Strconv
begin

unbundle bit_operations_syntax

text \<open>
  \<^verbatim>\<open>src/internal/kv/txn.go\<close>: the transaction bookkeeping of a node. Every method holds the
  manager's mutex, so each is one function; the clock and the random bytes of a new id are
  arguments.
\<close>

datatype TxnState = TxnPending | TxnCommitted | TxnAborted

record Txn =
  t_ID :: string
  t_State :: TxnState
  t_StartedAt :: int

record TxnManager =
  m_txns :: "string \<rightharpoonup> Txn"
  m_ttl :: int
  m_committed :: "64 word"
  m_aborted :: "64 word"
  m_abandoned :: "64 word"

definition NewTxnManager :: "int \<Rightarrow> TxnManager" where
  "NewTxnManager ttl =
     \<lparr>m_txns = Map.empty, m_ttl = (if ttl \<le> 0 then 300000000000 else ttl),
      m_committed = 0, m_aborted = 0, m_abandoned = 0\<rparr>"

text \<open>\<open>bytes\<close> is what \<open>rand.Read\<close> filled in, \<open>None\<close> its failure; \<open>fallback\<close> is the
  rendered \<open>UnixNano\<close>.\<close>

definition newTxnID :: "8 word list option \<Rightarrow> string \<Rightarrow> string" where
  "newTxnID bytes fallback =
     (case bytes of
        None \<Rightarrow> ''txn-'' @ fallback
      | Some b0 \<Rightarrow>
          (let b1 = b0[6 := (b0 ! 6 AND 0x0f) OR 0x40];
               b = b1[8 := (b1 ! 8 AND 0x3f) OR 0x80];
               h = hex_EncodeToString b
           in slice 0 8 h @ ''-'' @ slice 8 12 h @ ''-'' @ slice 12 16 h @ ''-'' @ slice 16 20 h
              @ ''-'' @ slice 20 32 h))"

definition txn_Begin :: "string \<Rightarrow> int \<Rightarrow> TxnManager \<Rightarrow> Txn \<times> TxnManager" where
  "txn_Begin txid now m =
     (let t = \<lparr>t_ID = txid, t_State = TxnPending, t_StartedAt = now\<rparr>
      in (t, m\<lparr>m_txns := (m_txns m)(txid \<mapsto> t)\<rparr>))"

definition txn_resolve :: "string \<Rightarrow> TxnState \<Rightarrow> TxnManager \<Rightarrow> Txn res \<times> TxnManager" where
  "txn_resolve txid state m =
     (if txid = '''' then (Inl (Errorf StatusBadRequest ''transaction_id is required''), m)
      else (case m_txns m txid of
              None \<Rightarrow> (Inl (Errorf StatusNotFound ''transaction %s is not open: it was never begun, has already been resolved, or was reaped as abandoned''), m)
            | Some t \<Rightarrow>
                (let m1 = m\<lparr>m_txns := (m_txns m)(txid := None)\<rparr>
                 in (Inr (t\<lparr>t_State := state\<rparr>),
                     if state = TxnCommitted then m1\<lparr>m_committed := m_committed m1 + 1\<rparr>
                     else m1\<lparr>m_aborted := m_aborted m1 + 1\<rparr>))))"

definition txn_Commit :: "string \<Rightarrow> TxnManager \<Rightarrow> Txn res \<times> TxnManager" where
  "txn_Commit txid m = txn_resolve txid TxnCommitted m"

definition txn_Abort :: "string \<Rightarrow> TxnManager \<Rightarrow> Txn res \<times> TxnManager" where
  "txn_Abort txid m = txn_resolve txid TxnAborted m"

text \<open>\<open>ord\<close> lists the open ids in the order the map is visited.\<close>

definition txn_Open :: "string list \<Rightarrow> TxnManager \<Rightarrow> nat" where
  "txn_Open ord m = length (filter (\<lambda>k. m_txns m k \<noteq> None) ord)"

definition txn_Sweep :: "int \<Rightarrow> string list \<Rightarrow> TxnManager \<Rightarrow> nat \<times> TxnManager" where
  "txn_Sweep now ord m =
     (let cutoff = now - m_ttl m;
          gone = filter (\<lambda>k. case m_txns m k of None \<Rightarrow> False | Some t \<Rightarrow> t_StartedAt t < cutoff) ord;
          m1 = m\<lparr>m_txns := (m_txns m) |` (- set gone)\<rparr>
      in (length gone,
          if gone \<noteq> [] then m1\<lparr>m_abandoned := m_abandoned m1 + of_nat (length gone)\<rparr> else m1))"

section \<open>The lifecycle as a transition system\<close>

text \<open>\<open>begun\<close> and \<open>closed\<close> are the ids handed out and the ids resolved so far. An id the
  generator returns is fresh: the ids are version 4 UUIDs.\<close>

record txn_world =
  tw_mgr :: TxnManager
  tw_begun :: "string set"
  tw_closed :: "string set"

definition txn_init :: "int \<Rightarrow> txn_world" where
  "txn_init ttl = \<lparr>tw_mgr = NewTxnManager ttl, tw_begun = {}, tw_closed = {}\<rparr>"

inductive txn_step :: "txn_world \<Rightarrow> txn_world \<Rightarrow> bool" where
  begin_txn: "txid \<notin> tw_begun w \<Longrightarrow>
     txn_step w (w\<lparr>tw_mgr := snd (txn_Begin txid now (tw_mgr w)), tw_begun := insert txid (tw_begun w)\<rparr>)"
| resolved: "state \<noteq> TxnPending \<Longrightarrow> txn_resolve txid state (tw_mgr w) = (Inr t, m) \<Longrightarrow>
     txn_step w (w\<lparr>tw_mgr := m, tw_closed := insert txid (tw_closed w)\<rparr>)"
| refused: "txn_resolve txid state (tw_mgr w) = (Inl err, m) \<Longrightarrow> txn_step w (w\<lparr>tw_mgr := m\<rparr>)"
| swept: "distinct ord \<Longrightarrow> set ord = dom (m_txns (tw_mgr w)) \<Longrightarrow>
     txn_step w (w\<lparr>tw_mgr := snd (txn_Sweep now ord (tw_mgr w))\<rparr>)"

inductive_cases txn_stepE: "txn_step w w'"

text \<open>
  Open ids were begun and not closed, and the lifetime counters add up: every transaction ever
  begun is open, committed, aborted or reaped (modulo the width of the counters).
\<close>

definition txn_inv :: "txn_world \<Rightarrow> bool" where
  "txn_inv w \<longleftrightarrow>
     finite (tw_begun w) \<and> dom (m_txns (tw_mgr w)) \<subseteq> tw_begun w - tw_closed w \<and>
     tw_closed w \<subseteq> tw_begun w \<and>
     of_nat (card (dom (m_txns (tw_mgr w)))) + m_committed (tw_mgr w) + m_aborted (tw_mgr w)
       + m_abandoned (tw_mgr w) = of_nat (card (tw_begun w))"

lemma txn_resolve_ok:
  assumes "txn_resolve txid state m = (Inr t, m')"
  shows "txid \<noteq> ''''" and "txid \<in> dom (m_txns m)" and "m_txns m' = (m_txns m)(txid := None)"
    and "m_committed m' + m_aborted m' = m_committed m + m_aborted m + 1" and "m_abandoned m' = m_abandoned m"
    and "t_State t = state"
  using assms by (auto simp: txn_resolve_def Let_def split: if_splits option.splits)

lemma txn_resolve_refused:
  "txn_resolve txid state m = (Inl err, m') \<Longrightarrow>
   m' = m \<and> (txid = '''' \<and> StatusOf (Some err) = StatusBadRequest \<or> txid \<notin> dom (m_txns m) \<and> StatusOf (Some err) = StatusNotFound)"
  by (auto simp: txn_resolve_def Let_def split: if_splits option.splits)

lemma txn_Sweep_counts:
  fixes now :: int and m :: TxnManager
  assumes "distinct ord" and "set ord = dom (m_txns m)"
  defines "m' \<equiv> snd (txn_Sweep now ord m)"
  shows "dom (m_txns m') \<subseteq> dom (m_txns m)"
    and "of_nat (card (dom (m_txns m'))) + m_abandoned m' = of_nat (card (dom (m_txns m))) + m_abandoned m"
    and "m_committed m' = m_committed m" and "m_aborted m' = m_aborted m"
proof -
  let ?old = "\<lambda>k. case m_txns m k of None \<Rightarrow> False | Some t \<Rightarrow> t_StartedAt t < now - m_ttl m"
  define gone where "gone = filter ?old ord"
  have m': "m_txns m' = m_txns m |` (- set gone)" "m_abandoned m' = m_abandoned m + of_nat (length gone)"
    "m_committed m' = m_committed m" "m_aborted m' = m_aborted m"
    by (simp_all add: m'_def txn_Sweep_def Let_def gone_def [symmetric])
  show "m_committed m' = m_committed m" "m_aborted m' = m_aborted m" by (fact m')+
  show "dom (m_txns m') \<subseteq> dom (m_txns m)" by (auto simp: m')
  have len: "length gone = card (set gone)" using assms(1) distinct_card [of gone] by (simp add: gone_def)
  have "dom (m_txns m') = dom (m_txns m) - set gone" by (auto simp: m' restrict_map_def split: if_splits)
  moreover have "card (dom (m_txns m) - set gone) + card (set gone) = card (dom (m_txns m))"
    using assms(2) by (metis List.finite_set add.commute card_Diff_subset card_mono filter_is_subset
        gone_def le_add_diff_inverse)
  ultimately have "card (dom (m_txns m')) + length gone = card (dom (m_txns m))" using len by simp
  then have "of_nat (card (dom (m_txns m'))) + of_nat (length gone) = (of_nat (card (dom (m_txns m))) :: 64 word)"
    by (simp only: of_nat_add [symmetric])
  then show "of_nat (card (dom (m_txns m'))) + m_abandoned m' = of_nat (card (dom (m_txns m))) + m_abandoned m"
    by (simp add: m'(2) algebra_simps)
qed


lemma one_moves:
  fixes x :: "64 word"
  assumes "x + 1 = y" and "c + a = c' + a' + 1"
  shows "x + c + a = y + c' + a'"
proof -
  have "x + c + a = x + (c + a)" by simp
  also have "\<dots> = y + c' + a'" by (simp add: assms(2) assms(1) [symmetric])
  finally show ?thesis .
qed

interpretation txns: invariant_system "\<lambda>w. \<exists>ttl. w = txn_init ttl" txn_step txn_inv
proof
  show "txn_inv w" if "\<exists>ttl. w = txn_init ttl" for w
    using that by (auto simp: txn_inv_def txn_init_def NewTxnManager_def)
next
  fix w w' assume inv: "txn_inv w" and "txn_step w w'"
  from this(2) show "txn_inv w'"
  proof cases
    case (begin_txn txid now)
    then have "txid \<notin> dom (m_txns (tw_mgr w))" and "finite (dom (m_txns (tw_mgr w)))"
      using inv by (auto simp: txn_inv_def intro: finite_subset)
    moreover have "txid \<notin> tw_closed w" using inv begin_txn(2) by (auto simp: txn_inv_def)
    ultimately show ?thesis
      using inv begin_txn by (auto simp: txn_inv_def txn_Begin_def Let_def add.assoc)
  next
    case (resolved state txid t m)
    note r = txn_resolve_ok [OF resolved(3)]
    have "finite (dom (m_txns (tw_mgr w)))"
      using inv by (auto simp: txn_inv_def intro: finite_subset)
    then have "card (dom (m_txns m)) + 1 = card (dom (m_txns (tw_mgr w)))"
      using r(2) card_Suc_Diff1 [of "dom (m_txns (tw_mgr w))" txid] by (simp add: r(3))
    then have "(of_nat (card (dom (m_txns m))) :: 64 word) + 1 = of_nat (card (dom (m_txns (tw_mgr w))))"
      by (metis of_nat_1 of_nat_add)
    then have "of_nat (card (dom (m_txns m))) + m_committed m + m_aborted m + m_abandoned m =
        of_nat (card (dom (m_txns (tw_mgr w)))) + m_committed (tw_mgr w) + m_aborted (tw_mgr w)
          + m_abandoned (tw_mgr w)"
      using one_moves r(4,5) by metis
    moreover have "dom (m_txns m) = dom (m_txns (tw_mgr w)) - {txid}" by (simp add: r(3))
    ultimately show ?thesis
      using inv resolved(1) r(2) by (auto simp: txn_inv_def)
  next
    case (refused txid state err m)
    with inv show ?thesis using txn_resolve_refused [of txid state "tw_mgr w" err m] by simp
  next
    case (swept ord now)
    with inv txn_Sweep_counts [OF swept(2,3), of now] show ?thesis
      by (auto simp: txn_inv_def algebra_simps)
  qed
qed

text \<open>
  C28. A transaction is resolved at most once, and none is lost count of: in every reachable
  state an id that was committed or aborted is refused with 404 whatever is tried on it, the
  refusal changes nothing, and open, committed, aborted and reaped transactions add up to those
  begun.
\<close>

theorem txn_resolved_once:
  assumes "txn_step\<^sup>*\<^sup>* (txn_init ttl) w"
  shows "(\<forall>txid \<in> tw_closed w. txid \<noteq> '''' \<longrightarrow>
            (\<exists>err. txn_resolve txid state (tw_mgr w) = (Inl err, tw_mgr w) \<and>
                   StatusOf (Some err) = StatusNotFound)) \<and>
         of_nat (card (dom (m_txns (tw_mgr w)))) + m_committed (tw_mgr w) + m_aborted (tw_mgr w)
           + m_abandoned (tw_mgr w) = of_nat (card (tw_begun w))"
proof -
  have inv: "txn_inv w" using txns.reachable_inv assms by blast
  then have "m_txns (tw_mgr w) txid = None" if "txid \<in> tw_closed w" for txid
    using that by (auto simp: txn_inv_def)
  with inv show ?thesis
    by (auto simp: txn_inv_def txn_resolve_def)
qed

definition demo_txn_world :: txn_world where
  "demo_txn_world = (txn_init 0)
     \<lparr>tw_mgr := snd (txn_Commit ''t1'' (snd (txn_Begin ''t1'' 0 (NewTxnManager 0)))),
      tw_begun := {''t1''}, tw_closed := {''t1''}\<rparr>"

theorem txn_resolved_once_witness:
  "\<exists>err. txn_Abort ''t1'' (tw_mgr demo_txn_world) = (Inl err, tw_mgr demo_txn_world) \<and>
         StatusOf (Some err) = StatusNotFound"
proof -
  let ?w1 = "(txn_init 0)\<lparr>tw_mgr := snd (txn_Begin ''t1'' 0 (NewTxnManager 0)), tw_begun := {''t1''}\<rparr>"
  have "txn_step (txn_init 0) ?w1"
    using begin_txn [of "''t1''" "txn_init 0" 0] by (simp add: txn_init_def)
  moreover have "txn_step ?w1 demo_txn_world"
    using resolved [of TxnCommitted "''t1''" ?w1 _ "tw_mgr demo_txn_world"]
    by (simp add: demo_txn_world_def txn_init_def txn_Commit_def txn_resolve_def txn_Begin_def Let_def)
  ultimately have "txn_step\<^sup>*\<^sup>* (txn_init 0) demo_txn_world" by simp
  from txn_resolved_once [OF this, of TxnAborted] show ?thesis
    by (simp add: demo_txn_world_def txn_Abort_def)
qed

end
