(* ===== verification/Kv_Server.thy ===== *)
theory Kv_Server
  imports Kv_Scan Kv_Txn
begin

text \<open>
  The HTTP handlers of \<^verbatim>\<open>src/internal/kv/server.go\<close> and the client of \<^verbatim>\<open>src/internal/kv/client.go\<close>.
  A request body arrives decoded (\<open>Inl\<close> is the error of \<open>httpx.DecodeJSON\<close>); a response is the
  status and the value that is rendered.
\<close>

record writeRequest =
  w_Key :: string
  w_Value :: string
  w_TTLMs :: int

record writeResponse =
  wr_Key :: string
  wr_Version :: int
  wr_Origin :: string
  wr_ExpiresAt :: int

definition Millisecond :: int where
  "Millisecond = 1000000"

definition handleWrite ::
  "Config \<Rightarrow> (string \<Rightarrow> push_outcome) \<Rightarrow> string list \<Rightarrow> go_error option \<Rightarrow> int \<Rightarrow> writeRequest res
     \<Rightarrow> cluster \<Rightarrow> (int \<times> writeResponse) res \<times> cluster" where
  "handleWrite cfg net arrival cancel now body cl =
     (case body of
        Inl err \<Rightarrow> (Inl err, cl)
      | Inr req \<Rightarrow>
          (if w_TTLMs req < 0 then (Inl (Errorf StatusBadRequest ''ttlMs must not be negative''), cl)
           else (case service_Write cfg net arrival cancel now (w_Key req) (w_Value req)
                        (wrap64 (w_TTLMs req * Millisecond)) cl of
                   (Inl err, cl') \<Rightarrow> (Inl err, cl')
                 | (Inr e, cl') \<Rightarrow>
                     (Inr (StatusCreated, \<lparr>wr_Key = e_Key e, wr_Version = e_Version e,
                           wr_Origin = e_Origin e, wr_ExpiresAt = e_ExpiresAt e\<rparr>), cl'))))"

definition handleRead ::
  "Config \<Rightarrow> (string \<Rightarrow> go_error option) \<Rightarrow> string list \<Rightarrow> go_error option \<Rightarrow> int \<Rightarrow> string
     \<Rightarrow> cluster \<Rightarrow> (int \<times> Entry) res \<times> cluster \<times> string list" where
  "handleRead cfg reach arrival cancel now key cl =
     (case service_Read cfg reach arrival cancel now key cl of
        (Inl err, cl', stale) \<Rightarrow> (Inl err, cl', stale)
      | (Inr None, cl', stale) \<Rightarrow> (Inl (Errorf StatusNotFound ''key %q not found''), cl', stale)
      | (Inr (Some e), cl', stale) \<Rightarrow> (Inr (StatusOK, e), cl', stale))"

definition handleLocalRead :: "int \<Rightarrow> string \<Rightarrow> Store \<Rightarrow> (int \<times> Entry) res" where
  "handleLocalRead now key s =
     (case LocalRead now key s of
        None \<Rightarrow> Inl (Errorf StatusNotFound ''key %q not found on %s'')
      | Some e \<Rightarrow> Inr (StatusOK, e))"

definition handleReplicate :: "go_error option \<Rightarrow> Entry res \<Rightarrow> Store \<Rightarrow> int res \<times> Store" where
  "handleReplicate cancel body s =
     (case body of
        Inl err \<Rightarrow> (Inl err, s)
      | Inr e \<Rightarrow> (case ApplyReplication cancel e s of
                   (Some err, s') \<Rightarrow> (Inl err, s')
                 | (None, s') \<Rightarrow> (Inr StatusNoContent, s')))"

definition handleScan ::
  "Config \<Rightarrow> (string \<Rightarrow> go_error option) \<Rightarrow> string list \<Rightarrow> go_error option \<Rightarrow> int \<Rightarrow> (string \<Rightarrow> string list)
     \<Rightarrow> string \<Rightarrow> string \<Rightarrow> cluster \<Rightarrow> (int \<times> Entry list) res" where
  "handleScan cfg reach arrival cancel now ords pre limit cl =
     (if pre = '''' then Inl (Errorf StatusBadRequest ''prefix is required'')
      else (case service_Scan cfg reach arrival cancel now ords pre (scanLimit limit) cl of
              Inl err \<Rightarrow> Inl err
            | Inr es \<Rightarrow> Inr (StatusOK, es)))"

definition handleBegin :: "string \<Rightarrow> int \<Rightarrow> TxnManager \<Rightarrow> (int \<times> Txn) res \<times> TxnManager" where
  "handleBegin txid now m = (let (t, m') = txn_Begin txid now m in (Inr (StatusOK, t), m'))"

definition resolveTxn ::
  "(string \<Rightarrow> TxnManager \<Rightarrow> Txn res \<times> TxnManager) \<Rightarrow> string res \<Rightarrow> TxnManager
     \<Rightarrow> (int \<times> Txn) res \<times> TxnManager" where
  "resolveTxn resolve body m =
     (case body of
        Inl err \<Rightarrow> (Inl err, m)
      | Inr txid \<Rightarrow> (case resolve txid m of
                      (Inl err, m') \<Rightarrow> (Inl err, m')
                    | (Inr t, m') \<Rightarrow> (Inr (StatusOK, t), m')))"

definition handleEnd :: "string res \<Rightarrow> TxnManager \<Rightarrow> (int \<times> Txn) res \<times> TxnManager" where
  "handleEnd body m = resolveTxn txn_Commit body m"

definition handleAbort :: "string res \<Rightarrow> TxnManager \<Rightarrow> (int \<times> Txn) res \<times> TxnManager" where
  "handleAbort body m = resolveTxn txn_Abort body m"

section \<open>The client\<close>

text \<open>Each method as a function of what the HTTP call returned.\<close>

definition client_Get :: "Entry res \<Rightarrow> Entry option res" where
  "client_Get r =
     (case r of
        Inr e \<Rightarrow> Inr (Some e)
      | Inl err \<Rightarrow> if IsStatus err StatusNotFound then Inr None else Inl err)"

definition put_request :: "string \<Rightarrow> string \<Rightarrow> int \<Rightarrow> writeRequest" where
  "put_request key val ttl =
     \<lparr>w_Key = key, w_Value = val, w_TTLMs = (if ttl > 0 then ttl div Millisecond else 0)\<rparr>"

definition client_PutWithTTL :: "writeResponse res \<Rightarrow> int res" where
  "client_PutWithTTL r = (case r of Inl err \<Rightarrow> Inl err | Inr resp \<Rightarrow> Inr (wr_Version resp))"

definition client_BeginTxn :: "Txn res \<Rightarrow> string res" where
  "client_BeginTxn r =
     (case r of
        Inl err \<Rightarrow> Inl err
      | Inr t \<Rightarrow> if t_ID t = ''''
                then Inl (Errorf StatusBadGateway ''begin_transaction returned no transaction_id'')
                else Inr (t_ID t))"

section \<open>Time to live end to end\<close>

lemma UnixMilli_shift: "UnixMilli (now + n * Millisecond) = UnixMilli now + n"
  by (simp add: UnixMilli_def Millisecond_def)

lemma put_request_range:
  assumes "in_int64 ttl"
  shows "0 \<le> w_TTLMs (put_request key val ttl)"
    and "w_TTLMs (put_request key val ttl) * Millisecond \<le> max ttl 0"
    and "wrap64 (w_TTLMs (put_request key val ttl) * Millisecond) = w_TTLMs (put_request key val ttl) * Millisecond"
proof -
  show nonneg: "0 \<le> w_TTLMs (put_request key val ttl)"
    by (simp add: put_request_def Millisecond_def pos_imp_zdiv_nonneg_iff)
  have "0 < Millisecond" by (simp add: Millisecond_def)
  then have "ttl div Millisecond * Millisecond \<le> ttl"
    using div_mult_mod_eq [of ttl Millisecond] pos_mod_sign [of Millisecond ttl] by linarith
  then show le: "w_TTLMs (put_request key val ttl) * Millisecond \<le> max ttl 0"
    by (simp add: put_request_def)
  show "wrap64 (w_TTLMs (put_request key val ttl) * Millisecond) = w_TTLMs (put_request key val ttl) * Millisecond"
    using nonneg le assms by (intro wrap64_id) (auto simp: Millisecond_def MinInt_def MaxInt_def max_def split: if_splits)
qed

text \<open>
  The lifetime a client asks for is the lifetime the cluster keeps: a write accepted for
  \<open>ttl\<close> expires exactly \<open>ttl\<close> later, in whole milliseconds, and a write without one never
  expires; the response reports the key, the version and the expiry of the stored entry.
\<close>

lemma put_ttl_respected:
  assumes "in_int64 ttl" and "ttl \<le> 0 \<or> Millisecond \<le> ttl"
    and ok: "handleWrite cfg net arrival cancel now (Inr (put_request key val ttl)) cl = (Inr (st, resp), cl')"
    and "c_NodeID cfg \<notin> set (c_Peers cfg)"
  shows "\<exists>e. s_data (cl' (c_NodeID cfg)) key = Some e \<and> e_Value e = val \<and> st = StatusCreated \<and>
         wr_Key resp = key \<and> wr_Version resp = e_Version e \<and> wr_ExpiresAt resp = e_ExpiresAt e \<and>
         (\<forall>t. Expired e t \<longleftrightarrow> 0 < ttl \<and> UnixMilli now + ttl div Millisecond \<noteq> 0 \<and>
                UnixMilli now + ttl div Millisecond \<le> UnixMilli t)"
proof -
  let ?ms = "w_TTLMs (put_request key val ttl) * Millisecond"
  note rng = put_request_range [OF assms(1), of key val]
  obtain e where w: "service_Write cfg net arrival cancel now key val ?ms cl = (Inr e, cl')"
    and resp: "st = StatusCreated" "wr_Key resp = e_Key e" "wr_Version resp = e_Version e"
      "wr_ExpiresAt resp = e_ExpiresAt e"
    using ok rng(1,3)
    by (auto simp: handleWrite_def put_request_def split: if_splits prod.splits sum.splits)
  note wok = service_Write_ok [OF w]
  have e: "e_Key e = key" "e_Value e = val" using wok(2) by simp_all
  have "s_data (cl' (c_NodeID cfg)) key = Some e"
    using wok assms(4) by (simp add: deliver_def)
  moreover have "e_ExpiresAt e = (if 0 < ttl then UnixMilli now + ttl div Millisecond else 0)"
  proof (cases "0 < ttl")
    case True
    then have "0 < ?ms" using assms(2) by (simp add: put_request_def Millisecond_def pos_imp_zdiv_pos_iff)
    with True wok(2) show ?thesis by (simp add: UnixMilli_shift) (simp add: put_request_def)
  next
    case False
    with wok(2) show ?thesis by (simp add: put_request_def)
  qed
  ultimately show ?thesis using resp e by (auto simp: Expired_def)
qed

lemma put_ttl_respected_witness:
  "\<exists>e. s_data (snd (handleWrite core_node demo_net [''c'', ''b''] None 0
           (Inr (put_request ''k'' ''v'' 5000000)) NewStore) ''a'') ''k'' = Some e \<and> Expired e 5000000"
proof -
  obtain st resp cl' where h: "handleWrite core_node demo_net [''c'', ''b''] None 0
      (Inr (put_request ''k'' ''v'' 5000000)) NewStore = (Inr (st, resp), cl')"
    by (simp add: handleWrite_def put_request_def Millisecond_def wrap64_id MinInt_def MaxInt_def
        service_Write_def replicate_entry_def demo_cluster_defs CoordinatorWrite_def Let_def)
  from put_ttl_respected [OF _ _ h] h show ?thesis
    by (auto simp: core_node_def Millisecond_def MinInt_def MaxInt_def UnixMilli_def)
qed

text \<open>
  A lifetime of more milliseconds than an \<open>int64\<close> of nanoseconds can hold is accepted
  with 201 and stored without an expiry, because the product wraps.
\<close>

lemma huge_ttl_never_expires:
  "\<exists>resp cl'. handleWrite core_node demo_net [''c'', ''b''] None 0
       (Inr \<lparr>w_Key = ''k'', w_Value = ''v'', w_TTLMs = 9223372036855\<rparr>) NewStore =
     (Inr (StatusCreated, resp), cl') \<and> wr_ExpiresAt resp = 0"
  by (simp add: handleWrite_def Millisecond_def wrap64_def service_Write_def replicate_entry_def
      demo_cluster_defs CoordinatorWrite_def Let_def)

end
