(* ===== verification/Rpc.thy ===== *)
theory Rpc
  imports Httpx_Errors
begin

text \<open>
  One call from a service to another through \<open>httpx.Client\<close>, seen from the caller. The network
  decides how often the request reaches the server and whether the caller learns the answer: a
  POST is delivered at most once, a PUT may be retried (\<^verbatim>\<open>src/internal/httpx/client.go\<close>). An error
  of the server's handler reaches the caller as its status only.
\<close>

record call =
  call_now :: int
  call_times :: nat
  call_err :: "go_error option"

text \<open>The transport's own failures never look like an answer of the server: they carry 500, 502
  or 503.\<close>

definition transport_err :: "go_error option \<Rightarrow> bool" where
  "transport_err e \<longleftrightarrow> (\<forall>x. e = Some x \<longrightarrow>
     StatusOf (Some x) \<in> {StatusInternalServerError, StatusBadGateway, StatusServiceUnavailable})"

definition answer :: "'a res \<Rightarrow> 'a res" where
  "answer r = (case r of
                 Inl err \<Rightarrow> Inl (Errorf (StatusOf (Some err)) ''%s %s returned %d'')
               | Inr v \<Rightarrow> Inr v)"

definition rpc_post :: "call \<Rightarrow> ('w \<Rightarrow> 'a res \<times> 'w) \<Rightarrow> 'w \<Rightarrow> 'a res \<times> 'w" where
  "rpc_post c f w =
     (case call_err c of
        None \<Rightarrow> (let (r, w') = f w in (answer r, w'))
      | Some e \<Rightarrow> (Inl e, if call_times c > 0 then snd (f w) else w))"

fun deliveries :: "('w \<Rightarrow> 'a res \<times> 'w) \<Rightarrow> nat \<Rightarrow> 'w \<Rightarrow> 'w" where
  "deliveries f 0 w = w"
| "deliveries f (Suc n) w = deliveries f n (snd (f w))"

definition rpc_put :: "call \<Rightarrow> ('w \<Rightarrow> 'a res \<times> 'w) \<Rightarrow> 'w \<Rightarrow> 'a res \<times> 'w" where
  "rpc_put c f w =
     (case call_err c of
        None \<Rightarrow> (let (r, w') = f (deliveries f (call_times c - 1) w) in (answer r, w'))
      | Some e \<Rightarrow> (Inl e, deliveries f (call_times c) w))"

definition rpc_get :: "call \<Rightarrow> ('w \<Rightarrow> 'a res) \<Rightarrow> 'w \<Rightarrow> 'a res" where
  "rpc_get c f w = (case call_err c of None \<Rightarrow> answer (f w) | Some e \<Rightarrow> Inl e)"

definition ok_call :: "int \<Rightarrow> call" where
  "ok_call now = \<lparr>call_now = now, call_times = 1, call_err = None\<rparr>"

lemma answer_simps [simp]: "answer (Inr v) = Inr v"
  "answer (Inl e) = Inl (Errorf (StatusOf (Some e)) ''%s %s returned %d'')"
  "answer r = Inr v \<longleftrightarrow> r = Inr v"
  by (auto simp: answer_def split: sum.splits)

lemma deliveries_induct:
  "P w \<Longrightarrow> (\<And>w. P w \<Longrightarrow> P (snd (f w))) \<Longrightarrow> P (deliveries f n w)"
  by (induction n arbitrary: w) auto

lemma rpc_post_induct: "P w \<Longrightarrow> P (snd (f w)) \<Longrightarrow> P (snd (rpc_post c f w))"
  by (auto simp: rpc_post_def Let_def split: option.split prod.split)

lemma rpc_put_induct: "P w \<Longrightarrow> (\<And>w. P w \<Longrightarrow> P (snd (f w))) \<Longrightarrow> P (snd (rpc_put c f w))"
  by (auto simp: rpc_put_def Let_def split: option.split prod.split intro: deliveries_induct)
    (metis deliveries_induct snd_conv)

end
