(* ===== verification/Kv_Client.thy ===== *)
theory Kv_Client
  imports Kv_Server Rpc
begin

text \<open>
  \<^verbatim>\<open>src/internal/kv/client.go\<close> as a service uses it: a database call is the handler of the
  database reached through the network of one \<open>call\<close>. The services see the database as one
  \<open>Store\<close>; that a quorum of replicas behaves like one is what the theories of the cluster show.
\<close>

section \<open>Database calls\<close>

definition db_Get :: "call \<Rightarrow> string \<Rightarrow> Store \<Rightarrow> Entry option res" where
  "db_Get c key db = client_Get (rpc_get c (handleInternalRead (call_now c) key) db)"

definition db_PutWithTTL :: "call \<Rightarrow> string \<Rightarrow> string \<Rightarrow> int \<Rightarrow> Store \<Rightarrow> Entry res \<times> Store" where
  "db_PutWithTTL c key val ttl db =
     rpc_put c (\<lambda>s. let (e, s') = CoordinatorWrite (call_now c) key val
                                   (wrap64 (w_TTLMs (put_request key val ttl) * Millisecond)) s
                    in (Inr e, s')) db"

definition db_Put :: "call \<Rightarrow> string \<Rightarrow> string \<Rightarrow> Store \<Rightarrow> Entry res \<times> Store" where
  "db_Put c key val db = db_PutWithTTL c key val 0 db"

definition db_Scan :: "call \<Rightarrow> string list \<Rightarrow> string \<Rightarrow> int \<Rightarrow> Store \<Rightarrow> Entry list res" where
  "db_Scan c ord pre limit db =
     rpc_get c (handleInternalScan (call_now c) ord pre (itoa limit)) db"

section \<open>What the database calls do\<close>

lemma db_Get_ok: "call_err c = None \<Longrightarrow> db_Get c key db = Inr (store_Get (call_now c) key db)"
  by (simp add: db_Get_def client_Get_def rpc_get_def handleInternalRead_def LocalRead_def split: option.split)

lemma deliveries_other:
  "k \<noteq> key \<Longrightarrow> s_data (deliveries (\<lambda>s. let (e, s') = CoordinatorWrite now key val ttl s in (Inr e, s')) n db) k = s_data db k"
  by (rule deliveries_induct) (simp_all add: case_prod_unfold Let_def)

lemma db_PutWithTTL_other: "k \<noteq> key \<Longrightarrow> s_data (snd (db_PutWithTTL c key val ttl db)) k = s_data db k"
  unfolding db_PutWithTTL_def by (rule rpc_put_induct) (simp_all add: case_prod_unfold Let_def)

lemma db_PutWithTTL_ok:
  assumes "call_err c = None" and "in_int64 ttl"
  shows "\<exists>e db'. db_PutWithTTL c key val ttl db = (Inr e, db') \<and> s_data db' key = Some e \<and> e_Value e = val \<and>
             e_ExpiresAt e = (if ttl div Millisecond > 0 \<and> ttl > 0 then UnixMilli (call_now c) + ttl div Millisecond else 0)"
proof -
  let ?ms = "w_TTLMs (put_request key val ttl) * Millisecond"
  let ?db = "deliveries (\<lambda>s. let (e, s') = CoordinatorWrite (call_now c) key val (wrap64 ?ms) s in (Inr e, s')) (call_times c - 1) db"
  let ?e = "fst (CoordinatorWrite (call_now c) key val ?ms ?db)"
  note rng = put_request_range [OF assms(2), of key val]
  have put: "db_PutWithTTL c key val ttl db = (Inr ?e, snd (CoordinatorWrite (call_now c) key val ?ms ?db))"
    using assms(1) rng(3) by (simp add: db_PutWithTTL_def rpc_put_def case_prod_unfold Let_def)
  have "e_ExpiresAt ?e = (if ttl div Millisecond > 0 \<and> ttl > 0 then UnixMilli (call_now c) + ttl div Millisecond else 0)"
  proof (cases "ttl div Millisecond > 0 \<and> ttl > 0")
    case True
    then have w: "w_TTLMs (put_request key val ttl) = ttl div Millisecond" and "0 < ?ms"
      by (simp_all add: put_request_def Millisecond_def)
    with True show ?thesis by (simp add: UnixMilli_shift)
  next
    case False
    then have "?ms \<le> 0" by (auto simp: put_request_def Millisecond_def)
    with False show ?thesis by auto
  qed
  with put show ?thesis by simp
qed

lemma db_Put_effect:
  assumes "db_Put c k raw db = (res, db')"
  shows "s_data db' k = s_data db k \<or> (\<exists>e. s_data db' k = Some e \<and> e_Value e = raw \<and> e_ExpiresAt e = 0)"
    and "res = Inr x \<Longrightarrow> \<exists>e. s_data db' k = Some e \<and> e_Value e = raw \<and> e_ExpiresAt e = 0"
    and "k' \<noteq> k \<Longrightarrow> s_data db' k' = s_data db k'"
proof -
  have "\<exists>e. s_data (snd (CoordinatorWrite now k raw 0 s)) k = Some e \<and> e_Value e = raw \<and> e_ExpiresAt e = 0" for now s
    by simp
  note eff = this
  let ?P = "\<lambda>s. s_data s k = s_data db k \<or> (\<exists>e. s_data s k = Some e \<and> e_Value e = raw \<and> e_ExpiresAt e = 0)"
  have "?P (snd (db_PutWithTTL c k raw 0 db))"
    unfolding db_PutWithTTL_def
    by (rule rpc_put_induct [where P = ?P]) (use eff in \<open>auto simp: case_prod_unfold Let_def put_request_def\<close>)
  then show "?P db'" using assms by (simp add: db_Put_def)
  show "res = Inr x \<Longrightarrow> \<exists>e. s_data db' k = Some e \<and> e_Value e = raw \<and> e_ExpiresAt e = 0"
    using assms eff
    by (auto simp: db_Put_def db_PutWithTTL_def rpc_put_def put_request_def case_prod_unfold Let_def split: option.splits)
  show "k' \<noteq> k \<Longrightarrow> s_data db' k' = s_data db k'"
    using db_PutWithTTL_other [of k' k c raw 0 db] assms by (simp add: db_Put_def)
qed

end
