(* ===== verification/Catalogue.thy ===== *)
theory Catalogue
  imports Cache Kv_Client
begin

text \<open>
  \<^verbatim>\<open>src/internal/product/product.go\<close>, \<^verbatim>\<open>src/internal/product/server.go\<close> and
  \<^verbatim>\<open>src/internal/product/client.go\<close>: the product catalogue in its database, behind the
  read-through cache.
\<close>

record Product =
  p_ProductID :: string
  p_Name :: string
  p_Weight :: float64
  p_Price :: float64

record product_codec =
  enc_product :: "Product \<Rightarrow> string option"
  dec_product :: "string \<Rightarrow> Product option"

definition product_Key :: "string \<Rightarrow> string" where
  "product_Key productID = ''product:'' @ productID"

definition product_load :: "call \<Rightarrow> string \<Rightarrow> Store \<Rightarrow> string res" where
  "product_load c productID db =
     (case db_Get c (product_Key productID) db of
        Inl err \<Rightarrow> Inl (Wrap StatusServiceUnavailable err ''product database unavailable'')
      | Inr None \<Rightarrow> Inl ErrNotFound
      | Inr (Some e) \<Rightarrow> Inr (e_Value e))"

definition product_Get :: "product_codec \<Rightarrow> 'r redis \<Rightarrow> Cache option \<Rightarrow> call \<Rightarrow> cache_call \<Rightarrow> string \<Rightarrow> Store \<Rightarrow> 'r
    \<Rightarrow> Product res \<times> 'r" where
  "product_Get J R co c e productID db r =
     (if productID = '''' then (Inl (Errorf StatusBadRequest ''productId is required''), r)
      else (case GetOrLoad R co e productID (product_load c productID db) r of
              (Inl err, r') \<Rightarrow>
                (Inl (if errors_is err ''cache: record not found''
                      then Errorf StatusNotFound ''product %s not found'' else err), r')
            | (Inr raw, r') \<Rightarrow>
                (case dec_product J raw of
                   None \<Rightarrow> (Inl (Wrap StatusInternalServerError (Sentinel ''json'') ''product %s is stored in an unreadable format''), r')
                 | Some p \<Rightarrow> (Inr (p\<lparr>p_ProductID := productID\<rparr>), r'))))"

fun flt_neg :: "float64 \<Rightarrow> bool" where
  "flt_neg NaN = False"
| "flt_neg (Inf neg) = neg"
| "flt_neg (Fin a) = (a < 0)"

definition product_Put :: "product_codec \<Rightarrow> 'r redis \<Rightarrow> Cache option \<Rightarrow> call \<Rightarrow> cache_call \<Rightarrow> Product \<Rightarrow> Store \<times> 'r
    \<Rightarrow> go_error option \<times> Store \<times> 'r" where
  "product_Put J R co c e p s =
     (case s of (db, r) \<Rightarrow>
        if p_ProductID p = '''' then (Some (Errorf StatusBadRequest ''productId is required''), db, r)
        else if flt_neg (p_Weight p) \<or> flt_neg (p_Price p)
        then (Some (Errorf StatusBadRequest ''weight and price must not be negative''), db, r)
        else (case enc_product J p of
                None \<Rightarrow> (Some (Wrap StatusInternalServerError (Sentinel ''json'') ''encoding product %s''), db, r)
              | Some raw \<Rightarrow>
                  (case db_Put c (product_Key (p_ProductID p)) raw db of
                     (Inl err, db') \<Rightarrow>
                       (Some (Wrap StatusServiceUnavailable err ''product database unavailable''), db', r)
                   | (Inr v, db') \<Rightarrow> (None, db', Invalidate R co e (p_ProductID p) r))))"

definition product_handleGet :: "product_codec \<Rightarrow> 'r redis \<Rightarrow> Cache option \<Rightarrow> call \<Rightarrow> cache_call \<Rightarrow> string \<Rightarrow> Store \<Rightarrow> 'r
    \<Rightarrow> (int \<times> Product) res \<times> 'r" where
  "product_handleGet J R co c e productID db r =
     (case product_Get J R co c e productID db r of
        (Inl err, r') \<Rightarrow> (Inl err, r')
      | (Inr p, r') \<Rightarrow> (Inr (StatusOK, p), r'))"

definition product_handlePut :: "product_codec \<Rightarrow> 'r redis \<Rightarrow> Cache option \<Rightarrow> call \<Rightarrow> cache_call \<Rightarrow> string \<Rightarrow> Product res
    \<Rightarrow> Store \<times> 'r \<Rightarrow> (int \<times> Product) res \<times> Store \<times> 'r" where
  "product_handlePut J R co c e productID body s =
     (case body of
        Inl err \<Rightarrow> (Inl err, s)
      | Inr p0 \<Rightarrow>
          (let p = p0\<lparr>p_ProductID := productID\<rparr> in
           case product_Put J R co c e p s of
             (Some err, s') \<Rightarrow> (Inl err, s')
           | (None, s') \<Rightarrow> (Inr (StatusCreated, p), s')))"

section \<open>Reads through the cache\<close>

text \<open>The database as the cache's source, when it can be reached: catalogue entries never
  expire and no stored text is the tombstone.\<close>

definition catalogue_ok :: "Store \<Rightarrow> bool" where
  "catalogue_ok db \<longleftrightarrow>
     (\<forall>k e. s_data db (product_Key k) = Some e \<longrightarrow> e_ExpiresAt e = 0 \<and> e_Value e \<noteq> tombstone)"

definition catalogue_of :: "Store \<Rightarrow> string \<Rightarrow> string res" where
  "catalogue_of db productID =
     (case s_data db (product_Key productID) of None \<Rightarrow> Inl ErrNotFound | Some e \<Rightarrow> Inr (e_Value e))"

lemma product_load_ok:
  assumes "catalogue_ok db" and "call_err c = None"
  shows "product_load c productID db = catalogue_of db productID"
  using assms
  by (auto simp: product_load_def db_Get_ok store_Get_def catalogue_of_def catalogue_ok_def Expired_def split: option.splits)

lemma product_Key_inj [simp]: "product_Key a = product_Key b \<longleftrightarrow> a = b"
  by (simp add: product_Key_def)

definition cache_ok :: "'r redis \<Rightarrow> Cache option \<Rightarrow> int \<Rightarrow> Store \<Rightarrow> 'r \<Rightarrow> bool" where
  "cache_ok R co now db r \<longleftrightarrow> catalogue_ok db \<and> coherent R co now (catalogue_of db) r"

lemma coherent_del:
  assumes "redis_ok R" and "coherent R co now src r" and "\<And>k. k \<noteq> key \<Longrightarrow> src' k = src k"
  shows "coherent R co now src' (rd_Del R (co_Prefix (ca_opts (the co)) @ key) r)"
proof -
  have "src' k = meaning v"
    if "cache_Enabled co" "now \<le> t" "rd_Get R t (co_Prefix (ca_opts (the co)) @ k) (rd_Del R (co_Prefix (ca_opts (the co)) @ key) r) = Some v"
    for k t v
    using that redis_okD(5) [OF assms(1)] assms(2,3) by (cases "k = key") (auto simp: coherent_def)
  then show ?thesis unfolding coherent_def by blast
qed

lemma product_Put_effect:
  assumes "product_Put J R co c e p (db, r) = (None, db', r')"
  shows "\<exists>raw x. enc_product J p = Some raw \<and> db_Put c (product_Key (p_ProductID p)) raw db = (Inr x, db') \<and>
                 r' = Invalidate R co e (p_ProductID p) r \<and> p_ProductID p \<noteq> '''' \<and>
                 \<not> flt_neg (p_Weight p) \<and> \<not> flt_neg (p_Price p)"
  using assms by (auto simp: product_Put_def split: if_splits option.splits prod.splits sum.splits)


lemma product_Get_cached:
  assumes "redis_ok R" and ok: "cache_ok R co (cc_now e) db r" and "call_err c = None" "cc_ctx e = None"
    and run: "GetOrLoad R co e productID (product_load c productID db) r = (out, r')"
  shows "out = catalogue_of db productID \<and> cache_ok R co (cc_now e) db r'"
proof -
  have src: "product_load c productID db = catalogue_of db productID"
    using product_load_ok ok assms(3) by (simp add: cache_ok_def)
  have "v \<noteq> tombstone" if "catalogue_of db productID = Inr v" for v
    using that ok by (auto simp: catalogue_of_def cache_ok_def catalogue_ok_def split: option.splits)
  moreover have "err = ErrNotFound" if "catalogue_of db productID = Inl err" for err
    using that by (auto simp: catalogue_of_def split: option.splits)
  ultimately show ?thesis
    using GetOrLoad_coherent [OF assms(1), of co e "catalogue_of db" r productID out r'] ok assms(4) run src
    by (simp add: cache_ok_def)
qed

text \<open>
  C33. The cache is invisible: as long as it is coherent with the database, which every read
  keeps it, a product is answered through the cache exactly as it would be without one (found,
  missing and unreadable alike), whether Redis hits, misses or cannot be reached.
\<close>

theorem cached_reads_agree:
  assumes "redis_ok R" and "cache_ok R co (cc_now e) db r" and "call_err c = None" "cc_ctx e = None"
  shows "fst (product_Get J R co c e productID db r) = fst (product_Get J R None c e productID db r) \<and>
         cache_ok R co (cc_now e) db (snd (product_Get J R co c e productID db r))"
proof -
  obtain out r' where run: "GetOrLoad R co e productID (product_load c productID db) r = (out, r')" by force
  note cached = product_Get_cached [OF assms run]
  have "product_load c productID db = catalogue_of db productID"
    using product_load_ok assms(2,3) by (simp add: cache_ok_def)
  then show ?thesis
    using cached run assms(2)
    by (auto simp: product_Get_def GetOrLoad_def [of R None] cache_Enabled_def [of None] split: sum.split option.split)
qed

text \<open>
  A write is visible to the next read. After \<open>Put\<close> has returned, with its invalidation
  delivered, a read of the product gives exactly what was written, through whatever the cache
  held before, and the cache stays coherent for every other product.
\<close>

lemma catalogue_read_your_write:
  assumes R: "redis_ok R" and J: "codec_ok (enc_product J) (dec_product J)" "enc_product J p \<noteq> Some tombstone"
    and ok: "cache_ok R co now db r"
    and put: "product_Put J R co c e p (db, r) = (None, db', r')" and inval: "cc_write e = None"
    and get: "call_err cget = None" "cc_ctx e' = None" "now \<le> cc_now e'"
  shows "fst (product_Get J R co cget e' (p_ProductID p) db' r') = Inr p \<and> cache_ok R co now db' r'"
proof -
  let ?id = "p_ProductID p"
  obtain raw x where raw: "enc_product J p = Some raw" and db: "db_Put c (product_Key ?id) raw db = (Inr x, db')"
    and r': "r' = Invalidate R co e ?id r" "?id \<noteq> ''''" using product_Put_effect [OF put] by blast
  note eff = db_Put_effect [OF db]
  obtain en where en: "s_data db' (product_Key ?id) = Some en" "e_Value en = raw" "e_ExpiresAt en = 0"
    using eff(2) by blast
  have other: "catalogue_of db' k = catalogue_of db k" if "k \<noteq> ?id" for k
    using eff(3) [of "product_Key k"] that by (simp add: catalogue_of_def)
  have cat: "catalogue_ok db'"
    unfolding catalogue_ok_def
  proof (intro allI impI)
    fix k en' assume s: "s_data db' (product_Key k) = Some en'"
    show "e_ExpiresAt en' = 0 \<and> e_Value en' \<noteq> tombstone"
    proof (cases "k = ?id")
      case True
      then show ?thesis using s en raw J(2) by auto
    next
      case False
      then show ?thesis using s eff(3) [of "product_Key k"] ok by (auto simp: cache_ok_def catalogue_ok_def)
    qed
  qed
  have coh: "coherent R co now (catalogue_of db') r'"
  proof (cases "cache_Enabled co")
    case True
    then have "r' = rd_Del R (co_Prefix (ca_opts (the co)) @ ?id) r" using r' inval by (simp add: Invalidate_def)
    then show ?thesis using coherent_del [OF R _ other] ok by (simp add: cache_ok_def)
  next
    case False
    then show ?thesis by (simp add: coherent_def)
  qed
  obtain out r2 where run: "GetOrLoad R co e' ?id (product_load cget ?id db') r' = (out, r2)" by force
  have "cache_ok R co (cc_now e') db' r'"
    using cat coherent_later [OF coh get(3)] by (simp add: cache_ok_def)
  from product_Get_cached [OF R this get(1,2) run] en have "out = Inr raw" by (simp add: catalogue_of_def)
  moreover have "dec_product J raw = Some p" using codec_okD [OF J(1) raw] by blast
  ultimately show ?thesis using run r'(2) cat coh by (simp add: product_Get_def cache_ok_def)
qed


section \<open>Concrete runs\<close>

definition lamp :: "rat \<Rightarrow> Product" where
  "lamp price = \<lparr>p_ProductID = ''p1'', p_Name = ''Lamp'', p_Weight = Fin 1, p_Price = Fin price\<rparr>"

definition lamp_J :: product_codec where
  "lamp_J = \<lparr>enc_product = table_enc [(lamp 10, ''ten''), (lamp 12, ''twelve'')],
             dec_product = table_dec [(lamp 10, ''ten''), (lamp 12, ''twelve'')]\<rparr>"

definition lamp_cache :: "Cache option" where
  "lamp_cache = Some (cache_New True \<lparr>co_Name = ''catalogue'', co_Prefix = ''product:'', co_TTL = 0, co_NegativeTTL = 0, co_Jitter = Fin 0\<rparr>)"

definition cache_up :: "int \<Rightarrow> cache_call" where
  "cache_up now = \<lparr>cc_now = now, cc_read = None, cc_ctx = None, cc_write = None, cc_ran = True, cc_jitter = 0\<rparr>"

definition shop_db :: "string \<Rightarrow> Store \<Rightarrow> Store" where
  "shop_db raw db = snd (db_Put (ok_call 0) (product_Key ''p1'') raw db)"

lemma lamp_J_ok: "codec_ok (enc_product lamp_J) (dec_product lamp_J)"
  by (simp add: lamp_J_def, rule table_codec_ok) (simp_all)

lemma lamp_codec:
  "enc_product lamp_J (lamp 10) = Some ''ten''" "enc_product lamp_J (lamp 12) = Some ''twelve''"
  "dec_product lamp_J ''ten'' = Some (lamp 10)" "dec_product lamp_J ''twelve'' = Some (lamp 12)"
  by (simp_all add: lamp_J_def table_enc_def table_dec_def lamp_def)

lemma shop_db_put: "\<exists>x. db_Put (ok_call 0) (product_Key ''p1'') raw db = (Inr x, shop_db raw db)"
  by (simp add: shop_db_def db_Put_def db_PutWithTTL_def rpc_put_def ok_call_def case_prod_unfold Let_def)

lemma lamp_put:
  assumes "enc_product lamp_J (lamp q) = Some raw" and "0 \<le> q"
  shows "product_Put lamp_J map_redis lamp_cache (ok_call 0) (cache_up t) (lamp q) (db, r) =
         (None, shop_db raw db, Invalidate map_redis lamp_cache (cache_up t) ''p1'' r)"
proof -
  obtain x where "db_Put (ok_call 0) (product_Key ''p1'') raw db = (Inr x, shop_db raw db)"
    using shop_db_put by blast
  then show ?thesis using assms by (simp add: product_Put_def lamp_def)
qed

lemma empty_cache_ok: "cache_ok map_redis co now (NewStore ''n'') (\<lambda>k. None)"
  by (simp add: cache_ok_def catalogue_ok_def coherent_def NewStore_def map_redis_def map_get_def)

theorem cached_reads_agree_witness:
  "fst (product_Get lamp_J map_redis lamp_cache (ok_call 0) (cache_up 0) ''p1'' (NewStore ''n'') (\<lambda>k. None)) =
   Inl (Errorf StatusNotFound ''product %s not found'')"
proof -
  have "fst (product_Get lamp_J map_redis None (ok_call 0) (cache_up 0) ''p1'' (NewStore ''n'') (\<lambda>k. None)) =
      Inl (Errorf StatusNotFound ''product %s not found'')"
    by (simp add: product_Get_def GetOrLoad_def cache_Enabled_def product_load_def db_Get_ok ok_call_def store_Get_def
        NewStore_def ErrNotFound_def)
  with cached_reads_agree [OF map_redis_ok, of lamp_cache "cache_up 0" "NewStore ''n''" "\<lambda>k. None" "ok_call 0" lamp_J "''p1''"]
  show ?thesis by (simp add: empty_cache_ok ok_call_def cache_up_def)
qed

lemma catalogue_read_your_write_witness:
  "\<exists>db' r'. product_Put lamp_J map_redis lamp_cache (ok_call 0) (cache_up 0) (lamp 10) (NewStore ''n'', \<lambda>k. None) = (None, db', r') \<and>
     fst (product_Get lamp_J map_redis lamp_cache (ok_call 0) (cache_up 1) ''p1'' db' r') = Inr (lamp 10)"
proof -
  note put = lamp_put [OF lamp_codec(1), of 0 "NewStore ''n''" "\<lambda>k. None"]
  have "enc_product lamp_J (lamp 10) \<noteq> Some tombstone" by (simp add: lamp_codec tombstone_def)
  from catalogue_read_your_write [OF map_redis_ok lamp_J_ok this empty_cache_ok put, where cget = "ok_call 0" and e' = "cache_up 1"] put
  show ?thesis by (auto simp: ok_call_def cache_up_def lamp_def)
qed

text \<open>
  A write can stay invisible for the lifetime of a cache entry. A reader misses and loads the
  old value; the product is written and the key invalidated; then the reader stores what it
  loaded. The next read answers with the old price although the database holds the new one.
\<close>

lemma catalogue_stale_after_write:
  "let db = shop_db ''ten'' (NewStore ''n''); r = (\<lambda>k. None);
       loaded = product_load (ok_call 0) ''p1'' db;
       (err, db', r1) = product_Put lamp_J map_redis lamp_cache (ok_call 0) (cache_up 0) (lamp 12) (db, r);
       (out, r2) = cache_fill map_redis (the lamp_cache) (cache_up 1) ''product:p1'' loaded r1
   in rd_Get map_redis 0 ''product:p1'' r = None \<and> err = None \<and> catalogue_of db' ''p1'' = Inr ''twelve'' \<and>
      fst (product_Get lamp_J map_redis lamp_cache (ok_call 0) (cache_up 2) ''p1'' db' r2) = Inr (lamp 10)"
proof -
  have val: "\<exists>e. s_data (shop_db raw db) (product_Key ''p1'') = Some e \<and> e_Value e = raw \<and> e_ExpiresAt e = 0" for raw db
    using shop_db_put [of raw db] db_Put_effect(2) by blast
  have loaded: "product_load (ok_call 0) ''p1'' (shop_db ''ten'' (NewStore ''n'')) = Inr ''ten''"
    using val [of "''ten''" "NewStore ''n''"] by (auto simp: product_load_def db_Get_ok ok_call_def store_Get_def Expired_def)
  have cat: "catalogue_of (shop_db ''twelve'' (shop_db ''ten'' (NewStore ''n''))) ''p1'' = Inr ''twelve''"
    using val [of "''twelve''" "shop_db ''ten'' (NewStore ''n'')"] by (auto simp: catalogue_of_def)
  have "tombstone \<noteq> ''ten''" by (simp add: tombstone_def)
  then show ?thesis
    unfolding Let_def loaded lamp_put [OF lamp_codec(2), simplified] case_prod_conv
    by (simp add: cat cache_fill_def cache_store_def lamp_cache_def cache_New_def cache_withDefaults_def cache_up_def jitter_def
        Invalidate_def cache_Enabled_def map_redis_def map_get_def product_Get_def GetOrLoad_def lamp_codec lamp_def)
qed

end
