(* ===== verification/Cart_Service.thy ===== *)
theory Cart_Service
  imports Cart_Model Catalogue
begin

text \<open>
  \<^verbatim>\<open>src/internal/cart/service.go\<close> and \<^verbatim>\<open>src/internal/cart/idempotency.go\<close>: carts and idempotency
  claims kept as JSON values in the cart database, and adding an item. The database is one
  \<open>Store\<close> reached through \<open>kv.Client\<close>; each call carries what the network does to it. JSON is
  a record of encoders and decoders.
\<close>

record Receipt =
  rp_OrderID :: string
  rp_Status :: string
  rp_TotalPrice :: float64
  rp_TotalWeight :: float64

record idempotencyRecord =
  ir_Key :: string
  ir_CartID :: string
  ir_State :: string
  ir_Receipt :: "Receipt option"
  ir_StartedAt :: int

record cart_Order =
  co_OrderID :: string
  co_CartID :: string
  co_CustomerID :: string
  co_Items :: "cart_Item list"
  co_TotalWeight :: float64
  co_TotalPrice :: float64
  co_ReservationID :: string
  co_AuthorizationCode :: string
  co_Status :: string
  co_PlacedAt :: int

record codecs =
  enc_cart :: "Cart \<Rightarrow> string option"
  dec_cart :: "string \<Rightarrow> Cart option"
  enc_claim :: "idempotencyRecord \<Rightarrow> string option"
  dec_claim :: "string \<Rightarrow> idempotencyRecord option"
  enc_order :: "cart_Order \<Rightarrow> string option"
  dec_order :: "string \<Rightarrow> cart_Order option"

definition codecs_ok :: "codecs \<Rightarrow> bool" where
  "codecs_ok J \<longleftrightarrow> codec_ok (enc_cart J) (dec_cart J) \<and> codec_ok (enc_claim J) (dec_claim J) \<and>
     codec_ok (enc_order J) (dec_order J)"

section \<open>Carts\<close>

definition cart_Get :: "codecs \<Rightarrow> call \<Rightarrow> string \<Rightarrow> Store \<Rightarrow> Cart option res" where
  "cart_Get J c customerID db =
     (case db_Get c (IDFor customerID) db of
        Inl err \<Rightarrow> Inl (Wrap StatusServiceUnavailable err ''cart database unavailable'')
      | Inr None \<Rightarrow> Inr None
      | Inr (Some e) \<Rightarrow>
          (case dec_cart J (e_Value e) of
             None \<Rightarrow> Inl (Wrap StatusInternalServerError (Sentinel ''json'') ''cart for customer %s is stored in an unreadable format'')
           | Some ct \<Rightarrow> Inr (Some ct)))"

definition cart_Save :: "codecs \<Rightarrow> call \<Rightarrow> Cart \<Rightarrow> Store \<Rightarrow> go_error option \<times> Store" where
  "cart_Save J c ct db =
     (case enc_cart J ct of
        None \<Rightarrow> (Some (Wrap StatusInternalServerError (Sentinel ''json'') ''encoding cart %s''), db)
      | Some raw \<Rightarrow>
          (case db_Put c (ct_CartID ct) raw db of
             (Inl err, db') \<Rightarrow> (Some (Wrap StatusServiceUnavailable err ''could not persist cart %s''), db')
           | (Inr e, db') \<Rightarrow> (None, db')))"

definition cart_Clear :: "codecs \<Rightarrow> call \<Rightarrow> string \<Rightarrow> Store \<Rightarrow> go_error option \<times> Store" where
  "cart_Clear J c customerID db = cart_Save J c (NewCart (call_now c) customerID) db"

definition translateProductError :: "go_error \<Rightarrow> go_error" where
  "translateProductError err =
     (if IsStatus err StatusNotFound then Errorf StatusNotFound ''product %s not found''
      else Wrap StatusServiceUnavailable err ''product service unavailable'')"

text \<open>\<open>AddItem\<close>: the answers of the catalogue and of the warehouse are arguments.\<close>

definition wanted :: "string \<Rightarrow> int \<Rightarrow> Cart \<Rightarrow> int" where
  "wanted productID quantity ct =
     (case List.find (\<lambda>i. ci_ProductID i = productID) (ct_Items ct) of
        None \<Rightarrow> quantity
      | Some i \<Rightarrow> wrap64 (quantity + ci_Quantity i))"

definition AddItem :: "codecs \<Rightarrow> call \<Rightarrow> call \<Rightarrow> int \<Rightarrow> Product res \<Rightarrow> int res \<Rightarrow> string \<Rightarrow> string \<Rightarrow> int
    \<Rightarrow> Store \<Rightarrow> Cart res \<times> Store" where
  "AddItem J cget cput now catalogue avail_units customerID productID quantity db =
     (if productID = '''' then (Inl (Errorf StatusBadRequest ''productId is required''), db)
      else if quantity \<le> 0 then (Inl (Errorf StatusBadRequest ''quantity must be greater than zero''), db)
      else (case catalogue of
              Inl err \<Rightarrow> (Inl (translateProductError err), db)
            | Inr p \<Rightarrow>
          (case avail_units of
             Inl err \<Rightarrow> (Inl (Wrap StatusServiceUnavailable err ''warehouse unavailable''), db)
           | Inr available \<Rightarrow>
          (case cart_Get J cget customerID db of
             Inl err \<Rightarrow> (Inl err, db)
           | Inr found \<Rightarrow>
               (let ct = (case found of None \<Rightarrow> NewCart now customerID | Some ct \<Rightarrow> ct) in
                if available < wanted productID quantity ct
                then (Inl (Errorf StatusConflict ''insufficient stock for product %s (cart would hold %d, available %d)''), db)
                else (let ct' = AddOrMerge now \<lparr>ci_ProductID = p_ProductID p, ci_Name = p_Name p,
                                  ci_Quantity = quantity, ci_UnitWeight = p_Weight p, ci_UnitPrice = p_Price p\<rparr> ct
                      in case cart_Save J cput ct' db of
                           (Some err, db') \<Rightarrow> (Inl err, db')
                         | (None, db') \<Rightarrow> (Inr ct', db')))))))"

section \<open>Idempotency claims\<close>

definition idempotencyPrefix :: string where "idempotencyPrefix = ''idem:''"
definition completedTTL :: int where "completedTTL = 86400000000000"
definition inProgressTTL :: int where "inProgressTTL = 60000000000"
definition claimInProgress :: string where "claimInProgress = ''in_progress''"
definition claimCompleted :: string where "claimCompleted = ''completed''"

definition claim_load :: "codecs \<Rightarrow> call \<Rightarrow> string \<Rightarrow> Store \<Rightarrow> idempotencyRecord option res" where
  "claim_load J c key db =
     (case db_Get c (idempotencyPrefix @ key) db of
        Inl err \<Rightarrow> Inl (Wrap StatusServiceUnavailable err ''cart database unavailable'')
      | Inr None \<Rightarrow> Inr None
      | Inr (Some e) \<Rightarrow> Inr (dec_claim J (e_Value e)))"

definition claim_save :: "codecs \<Rightarrow> call \<Rightarrow> idempotencyRecord \<Rightarrow> int \<Rightarrow> Store \<Rightarrow> go_error option \<times> Store" where
  "claim_save J c rec ttl db =
     (case enc_claim J rec of
        None \<Rightarrow> (Some (Wrap StatusInternalServerError (Sentinel ''json'') ''encoding idempotency record''), db)
      | Some raw \<Rightarrow>
          (case db_PutWithTTL c (idempotencyPrefix @ ir_Key rec) raw ttl db of
             (Inl err, db') \<Rightarrow> (Some (Wrap StatusServiceUnavailable err ''cart database unavailable''), db')
           | (Inr e, db') \<Rightarrow> (None, db')))"

definition idem_claim :: "codecs \<Rightarrow> call \<Rightarrow> call \<Rightarrow> int \<Rightarrow> string \<Rightarrow> string \<Rightarrow> Store \<Rightarrow> Receipt option res \<times> Store" where
  "idem_claim J cload csave now key cartID db =
     (let take_it = (case claim_save J csave \<lparr>ir_Key = key, ir_CartID = cartID, ir_State = claimInProgress,
                        ir_Receipt = None, ir_StartedAt = now\<rparr> inProgressTTL db of
                       (Some err, db') \<Rightarrow> (Inl err, db')
                     | (None, db') \<Rightarrow> (Inr None, db'))
      in case claim_load J cload key db of
           Inl err \<Rightarrow> (Inl err, db)
         | Inr None \<Rightarrow> take_it
         | Inr (Some existing) \<Rightarrow>
             (if ir_CartID existing \<noteq> cartID
              then (Inl (Errorf StatusConflict ''idempotency key %q was already used for a different cart''), db)
              else if ir_State existing = claimCompleted \<and> ir_Receipt existing \<noteq> None
              then (Inr (ir_Receipt existing), db)
              else if now - ir_StartedAt existing < inProgressTTL
              then (Inl (Errorf StatusConflict ''a checkout with idempotency key %q is already in progress''), db)
              else take_it))"

definition idem_complete :: "codecs \<Rightarrow> call \<Rightarrow> int \<Rightarrow> string \<Rightarrow> string \<Rightarrow> Receipt \<Rightarrow> Store \<Rightarrow> Store" where
  "idem_complete J c now key cartID receipt db =
     snd (claim_save J c \<lparr>ir_Key = key, ir_CartID = cartID, ir_State = claimCompleted,
            ir_Receipt = Some receipt, ir_StartedAt = now\<rparr> completedTTL db)"

definition idem_release :: "codecs \<Rightarrow> call \<Rightarrow> int \<Rightarrow> string \<Rightarrow> string \<Rightarrow> Store \<Rightarrow> Store" where
  "idem_release J c now key cartID db =
     snd (claim_save J c \<lparr>ir_Key = key, ir_CartID = cartID, ir_State = claimInProgress,
            ir_Receipt = None, ir_StartedAt = now - 2 * inProgressTTL\<rparr> inProgressTTL db)"

definition validateIdempotencyKey :: "string \<Rightarrow> go_error option" where
  "validateIdempotencyKey key =
     (if length key > 128 then Some (Errorf StatusBadRequest ''%s must be at most 128 characters'')
      else if \<exists>c \<in> set key. \<not> (is_lower c \<or> is_upper c \<or> is_digit c \<or>
                                 c = CHR ''-'' \<or> c = CHR ''_'' \<or> c = CHR '':'' \<or> c = CHR ''.'')
      then Some (Errorf StatusBadRequest ''%s may only contain letters, digits, and - _ : .'')
      else None)"


section \<open>What the claim calls do\<close>

lemma claim_save_other:
  "k \<noteq> idempotencyPrefix @ ir_Key rec \<Longrightarrow> s_data (snd (claim_save J c rec ttl db)) k = s_data db k"
  using db_PutWithTTL_other [of k "idempotencyPrefix @ ir_Key rec" c _ ttl db]
  by (auto simp: claim_save_def split: option.splits prod.splits sum.splits) (metis snd_conv)+

lemma claim_save_ok:
  assumes "codecs_ok J" and "enc_claim J rec \<noteq> None" and "call_err c = None" "in_int64 ttl"
  shows "\<exists>e db'. claim_save J c rec ttl db = (None, db') \<and>
             s_data db' (idempotencyPrefix @ ir_Key rec) = Some e \<and>
             dec_claim J (e_Value e) = Some rec \<and>
             e_ExpiresAt e = (if ttl div Millisecond > 0 \<and> ttl > 0 then UnixMilli (call_now c) + ttl div Millisecond else 0)"
proof -
  obtain raw where raw: "enc_claim J rec = Some raw" using assms(2) by blast
  then have "dec_claim J raw = Some rec" using assms(1) codec_okD [of "enc_claim J" "dec_claim J"] by (simp add: codecs_ok_def)
  moreover obtain e db' where "db_PutWithTTL c (idempotencyPrefix @ ir_Key rec) raw ttl db = (Inr e, db')"
      "s_data db' (idempotencyPrefix @ ir_Key rec) = Some e" "e_Value e = raw"
      "e_ExpiresAt e = (if ttl div Millisecond > 0 \<and> ttl > 0 then UnixMilli (call_now c) + ttl div Millisecond else 0)"
    using db_PutWithTTL_ok [OF assms(3,4), of "idempotencyPrefix @ ir_Key rec" raw db] by blast
  ultimately show ?thesis using raw by (intro exI [of _ e] exI [of _ db']) (simp add: claim_save_def)
qed

text \<open>A released key can be claimed again by the next request for the same cart.\<close>

lemma idem_release_frees:
  assumes J: "codecs_ok J" and rel: "enc_claim J \<lparr>ir_Key = key, ir_CartID = cartID, ir_State = claimInProgress,
        ir_Receipt = None, ir_StartedAt = now - 2 * inProgressTTL\<rparr> \<noteq> None" "call_err c = None"
    and calls: "call_err cl = None" "call_err cs = None" and later: "now \<le> now2"
    and enc: "enc_claim J \<lparr>ir_Key = key, ir_CartID = cartID, ir_State = claimInProgress,
        ir_Receipt = None, ir_StartedAt = now2\<rparr> \<noteq> None"
  shows "\<exists>db2. idem_claim J cl cs now2 key cartID (idem_release J c now key cartID db) = (Inr None, db2)"
proof -
  let ?db = "idem_release J c now key cartID db"
  let ?old = "\<lparr>ir_Key = key, ir_CartID = cartID, ir_State = claimInProgress, ir_Receipt = None, ir_StartedAt = now - 2 * inProgressTTL\<rparr>"
  let ?new = "\<lparr>ir_Key = key, ir_CartID = cartID, ir_State = claimInProgress, ir_Receipt = None, ir_StartedAt = now2\<rparr>"
  have ttl: "in_int64 inProgressTTL" by (simp add: inProgressTTL_def MinInt_def MaxInt_def)
  obtain e where "s_data ?db (idempotencyPrefix @ key) = Some e" "dec_claim J (e_Value e) = Some ?old"
    using claim_save_ok [OF J rel ttl, of db] by (auto simp: idem_release_def)
  then have load: "claim_load J cl key ?db \<in> {Inr None, Inr (Some ?old)}"
    using calls(1) by (auto simp: claim_load_def db_Get_ok store_Get_def)
  obtain db2 where "claim_save J cs ?new inProgressTTL ?db = (None, db2)"
    using claim_save_ok [OF J enc calls(2) ttl, of ?db] by blast
  then show ?thesis
    using load later by (auto simp: idem_claim_def Let_def claimInProgress_def claimCompleted_def inProgressTTL_def)
qed

end
