(* ===== verification/Go_Strings.thy ===== *)
theory Go_Strings
  imports Prelude
begin

text \<open>
  The functions of Go's \<open>strings\<close> package the services use, on byte strings. White space is
  the set of \<open>unicode.IsSpace\<close>, each code point in its UTF-8 encoding, which no other code
  point's encoding begins or ends with.
\<close>

definition space_encodings :: "string list" where
  "space_encodings =
     [[CHR '' ''], [CHR 0x09], [CHR 0x0A], [CHR 0x0B], [CHR 0x0C], [CHR 0x0D],
      [CHR 0xC2, CHR 0x85], [CHR 0xC2, CHR 0xA0], [CHR 0xE1, CHR 0x9A, CHR 0x80]] @
     map (\<lambda>b. [CHR 0xE2, CHR 0x80, b])
       [CHR 0x80, CHR 0x81, CHR 0x82, CHR 0x83, CHR 0x84, CHR 0x85, CHR 0x86, CHR 0x87,
        CHR 0x88, CHR 0x89, CHR 0x8A, CHR 0xA8, CHR 0xA9, CHR 0xAF] @
     [[CHR 0xE2, CHR 0x81, CHR 0x9F], [CHR 0xE3, CHR 0x80, CHR 0x80]]"

text \<open>Removing any of the words \<open>ps\<close> from the front for as long as one is there.\<close>

function trim_front :: "string list \<Rightarrow> string \<Rightarrow> string" where
  "trim_front ps s =
     (case List.find (\<lambda>p. p \<noteq> [] \<and> prefix p s) ps of
        None \<Rightarrow> s
      | Some p \<Rightarrow> trim_front ps (drop (length p) s))"
  by pat_completeness auto
termination
  by (relation "measure (\<lambda>(ps, s). length s)")
    (auto simp: find_Some_iff prefix_def split: option.splits)

declare trim_front.simps [simp del]

definition TrimSpace :: "string \<Rightarrow> string" where
  "TrimSpace s = rev (trim_front (map rev space_encodings) (rev (trim_front space_encodings s)))"

definition IndexByte :: "string \<Rightarrow> char \<Rightarrow> int" where
  "IndexByte s c = (if c \<in> set s then int (length (takeWhile (\<lambda>x. x \<noteq> c) s)) else - 1)"

definition LastIndexByte :: "string \<Rightarrow> char \<Rightarrow> int" where
  "LastIndexByte s c = (if c \<in> set s then int (length s) - 1 - IndexByte (rev s) c else - 1)"

lemma trim_front_suffix: "\<exists>p. s = p @ trim_front ps s \<and> (\<forall>c \<in> set p. \<exists>w \<in> set ps. c \<in> set w)"
proof (induction ps s rule: trim_front.induct)
  case (1 ps s)
  show ?case
  proof (cases "List.find (\<lambda>p. p \<noteq> [] \<and> prefix p s) ps")
    case None
    then show ?thesis by (simp add: trim_front.simps)
  next
    case (Some w)
    then have w: "w \<in> set ps" "prefix w s" by (auto simp: find_Some_iff)
    from 1 [OF Some] obtain p where p: "drop (length w) s = p @ trim_front ps (drop (length w) s)"
        "\<forall>c \<in> set p. \<exists>w \<in> set ps. c \<in> set w" by blast
    have "s = w @ drop (length w) s" using w(2) by (auto simp: prefix_def)
    then have "s = (w @ p) @ trim_front ps s" using p(1) Some by (simp add: trim_front.simps [of ps s])
    with p(2) w(1) show ?thesis by (intro exI [of _ "w @ p"]) auto
  qed
qed

lemma trim_front_mem:
  assumes "c \<in> set s" and "\<forall>w \<in> set ps. c \<notin> set w"
  shows "c \<in> set (trim_front ps s)"
  using trim_front_suffix [of s ps] assms by (metis Un_iff set_append)

lemma trim_front_idem: "trim_front ps (trim_front ps s) = trim_front ps s"
proof (induction ps s rule: trim_front.induct)
  case (1 ps s)
  then show ?case
    by (cases "List.find (\<lambda>p. p \<noteq> [] \<and> prefix p s) ps") (simp_all add: trim_front.simps [of ps s])
qed

lemma TrimSpace_mem:
  assumes "c \<in> set s" and "\<forall>w \<in> set space_encodings. c \<notin> set w"
  shows "c \<in> set (TrimSpace s)"
  using assms by (simp add: TrimSpace_def trim_front_mem)

lemma TrimSpace_nil [simp]: "TrimSpace [] = []"
proof -
  have "trim_front ps [] = []" for ps using trim_front_suffix [of "[]" ps] by simp
  then show ?thesis by (simp add: TrimSpace_def)
qed

end
