(* ===== verification/Cca.thy ===== *)
theory Cca
  imports Rpc Go_Float Go_Strings
begin

text \<open>
  \<^verbatim>\<open>src/internal/cca/cca.go\<close> and \<^verbatim>\<open>src/internal/cca/client.go\<close>: the card authorizer. What it approved is
  kept as a log of charges (order id and amount). The issuer's draw and the rendered time of the
  authorization code are arguments.
\<close>

record AuthorizeRequest =
  ar_CardNumber :: string
  ar_Amount :: float64
  ar_OrderID :: string

record AuthorizeResponse =
  as_Authorized :: bool
  as_Code :: string
  as_Amount :: float64
  as_Reason :: string

type_synonym charge_log = "(string \<times> float64) list"

text \<open>\<open>ValidCardNumber\<close>: the loop over the characters; \<open>strings.TrimSpace\<close> is not empty as
  soon as there is a digit.\<close>

fun card_digits :: "string \<Rightarrow> nat \<Rightarrow> nat option" where
  "card_digits [] n = Some n"
| "card_digits (c # cs) n =
     (if is_digit c then card_digits cs (Suc n)
      else if c = CHR ''-'' \<or> c = CHR '' '' then card_digits cs n
      else None)"

definition ValidCardNumber :: "string \<Rightarrow> bool" where
  "ValidCardNumber s \<longleftrightarrow>
     (case card_digits s 0 of None \<Rightarrow> False | Some n \<Rightarrow> n = 16 \<and> TrimSpace s \<noteq> '''')"

text \<open>\<open>handleAuthorize\<close>: the response status with its body; the log of charges afterwards.\<close>

definition handleAuthorize :: "bool \<Rightarrow> string \<Rightarrow> AuthorizeRequest res \<Rightarrow> charge_log
    \<Rightarrow> (int \<times> AuthorizeResponse) res \<times> charge_log" where
  "handleAuthorize approved stamp body lg =
     (case body of
        Inl err \<Rightarrow> (Inl err, lg)
      | Inr req \<Rightarrow>
          (if \<not> ValidCardNumber (ar_CardNumber req)
           then (Inr (StatusBadRequest, \<lparr>as_Authorized = False, as_Code = '''', as_Amount = Fin 0,
                        as_Reason = ''credit_card_number must be 16 digits''\<rparr>), lg)
           else if \<not> approved
           then (Inr (StatusPaymentRequired, \<lparr>as_Authorized = False, as_Code = '''', as_Amount = Fin 0,
                        as_Reason = ''credit card declined''\<rparr>), lg)
           else (Inr (StatusOK, \<lparr>as_Authorized = True, as_Code = ''AUTH-'' @ stamp,
                        as_Amount = ar_Amount req, as_Reason = ''''\<rparr>),
                 lg @ [(ar_OrderID req, ar_Amount req)])))"

text \<open>A body written with a status outside 2xx is an error for the caller.\<close>

definition status_err :: "(int \<times> 'a) res \<Rightarrow> 'a res" where
  "status_err r = (case r of
                     Inl e \<Rightarrow> Inl e
                   | Inr (code, v) \<Rightarrow> if code < 200 \<or> code > 299
                                      then Inl (Errorf code ''%s %s returned %d'') else Inr v)"

datatype Decision = Approved | Declined | InvalidCard | Unavailable

definition classify :: "AuthorizeResponse res \<Rightarrow> Decision \<times> string \<times> go_error option" where
  "classify r =
     (case r of
        Inr resp \<Rightarrow> (Approved, as_Code resp, None)
      | Inl err \<Rightarrow>
          (if IsStatus err StatusPaymentRequired then (Declined, '''', None)
           else if IsStatus err StatusBadRequest then (InvalidCard, '''', None)
           else (Unavailable, '''', Some err)))"

definition cca_Authorize :: "call \<Rightarrow> bool \<Rightarrow> string \<Rightarrow> string \<Rightarrow> float64 \<Rightarrow> string \<Rightarrow> charge_log
    \<Rightarrow> (Decision \<times> string \<times> go_error option) \<times> charge_log" where
  "cca_Authorize c approved stamp cardNumber amount orderID lg =
     (let req = \<lparr>ar_CardNumber = cardNumber, ar_Amount = amount, ar_OrderID = orderID\<rparr>;
          (r, lg') = rpc_post c (\<lambda>l. let (x, l') = handleAuthorize approved stamp (Inr req) l
                                       in (status_err x, l')) lg
      in (classify r, lg'))"

section \<open>Properties\<close>

lemma card_digits_eq:
  "card_digits s n = (if \<forall>c \<in> set s. is_digit c \<or> c = CHR ''-'' \<or> c = CHR '' ''
                      then Some (n + length (filter is_digit s)) else None)"
  by (induction s n rule: card_digits.induct) auto

lemma TrimSpace_digit:
  assumes "c \<in> set s" and "is_digit c"
  shows "TrimSpace s \<noteq> ''''"
proof -
  have "\<forall>w \<in> set space_encodings. c \<notin> set w"
    using assms(2) by (auto simp: space_encodings_def is_digit_def less_eq_char_def)
  from TrimSpace_mem [OF assms(1) this] show ?thesis by auto
qed

lemma ValidCardNumber_iff:
  "ValidCardNumber s \<longleftrightarrow>
     length (filter is_digit s) = 16 \<and> (\<forall>c \<in> set s. is_digit c \<or> c = CHR ''-'' \<or> c = CHR '' '')"
proof -
  have "TrimSpace s \<noteq> ''''" if n16: "length (filter is_digit s) = 16"
  proof -
    obtain c where "c \<in> set s" "is_digit c"
      using n16 by (metis filter_False length_0_conv zero_neq_numeral)
    then show ?thesis by (rule TrimSpace_digit)
  qed
  then show ?thesis by (auto simp: ValidCardNumber_def card_digits_eq)
qed


lemma authorize_approved:
  assumes "cca_Authorize c approved stamp cardNumber amount orderID lg = ((Approved, code, err), lg')"
  shows "lg' = lg @ [(orderID, amount)]"
  using assms
  by (cases "call_err c")
    (auto simp: cca_Authorize_def rpc_post_def handleAuthorize_def status_err_def classify_def
      Let_def split: if_splits option.splits prod.splits)

text \<open>
  One call to the authorizer charges at most once, and only a card of sixteen digits the
  issuer accepts; the caller that sees \<open>Approved\<close> has been charged exactly once for exactly the
  amount it asked, and one that sees a decline or an invalid card has not been charged, as long
  as the transport's own failures carry their own statuses.
\<close>

lemma authorize_charges_once:
  assumes "transport_err (call_err c)"
    and "cca_Authorize c approved stamp cardNumber amount orderID lg = ((decision, code, err), lg')"
  shows "(lg' = lg \<or> lg' = lg @ [(orderID, amount)] \<and> ValidCardNumber cardNumber \<and> approved) \<and>
         (decision = Approved \<longrightarrow> lg' = lg @ [(orderID, amount)] \<and> call_err c = None) \<and>
         (decision = Declined \<or> decision = InvalidCard \<longrightarrow> lg' = lg)"
  using assms
  by (cases "call_err c")
    (auto simp: cca_Authorize_def rpc_post_def handleAuthorize_def status_err_def classify_def
      transport_err_def IsStatus_def StatusOf_def Let_def split: if_splits option.splits prod.splits)

lemma authorize_charges_once_witness:
  "snd (cca_Authorize (ok_call 0) True ''t'' ''4111-1111-1111-1111'' (Fin 10) ''o1'' []) =
     [(''o1'', Fin 10)]"
proof -
  have "ValidCardNumber ''4111-1111-1111-1111''"
    by (simp add: ValidCardNumber_iff is_digit_def less_eq_char_def)
  then have "cca_Authorize (ok_call 0) True ''t'' ''4111-1111-1111-1111'' (Fin 10) ''o1'' [] =
      ((Approved, ''AUTH-t'', None), snd (cca_Authorize (ok_call 0) True ''t'' ''4111-1111-1111-1111'' (Fin 10) ''o1'' []))"
    by (simp add: cca_Authorize_def rpc_post_def handleAuthorize_def status_err_def classify_def ok_call_def)
  from authorize_charges_once [OF _ this] show ?thesis by (simp add: transport_err_def ok_call_def)
qed

end
