(* ===== verification/Warehouse_Inventory.thy ===== *)
theory Warehouse_Inventory
  imports Orders Go_Strconv
begin

text \<open>
  \<^verbatim>\<open>src/internal/warehouse/inventory.go\<close>: per-product stock with versions, reservations and request
  receipts. A method is the composition of its critical sections, each of which is one function
  on the record (\<open>*_open\<close>, \<open>*_mark\<close> and so on run under \<open>resMu\<close>, \<open>deduct\<close> and \<open>restore\<close> under
  the locks of the products). The digest of a normalized request (SHA-256 of its JSON) is the
  parameter \<open>fp\<close>; clock, fresh ids and the order in which a map is visited are arguments.
  Quantities are \<open>int64\<close> with wrap-around, versions and counters \<open>uint64\<close>.
\<close>

datatype ReservationState = Reserved | Committed | Released

record Reservation =
  r_ID :: string
  r_RequestID :: string
  r_State :: ReservationState
  r_Items :: "orders_Item list"
  r_CreatedAt :: int
  r_ExpiresAt :: int

datatype ShipOutcome = ShipCompleted | ShipDuplicate | ShipRejected

record stockRecord =
  sr_quantity :: int
  sr_version :: "64 word"

record 'd requestReceipt =
  rc_digest :: 'd
  rc_done :: bool
  rc_reservationID :: string
  rc_err :: "go_error option"

record 'd Inventory =
  inv_initial :: int
  inv_ttl :: int
  inv_stock :: "string \<rightharpoonup> stockRecord"
  inv_reservations :: "string \<rightharpoonup> Reservation"
  inv_receipts :: "string \<rightharpoonup> 'd requestReceipt"
  inv_reserved :: "64 word"
  inv_rejected :: "64 word"
  inv_released :: "64 word"
  inv_expired :: "64 word"
  inv_shipped :: "64 word"
  inv_lateShips :: "64 word"
  inv_oversold :: "64 word"

definition DefaultTTL :: int where
  "DefaultTTL = 30000000000"

definition MaxCASAttempts :: nat where
  "MaxCASAttempts = 1000"

definition New :: "int \<Rightarrow> int \<Rightarrow> 'd Inventory" where
  "New initial ttl =
     \<lparr>inv_initial = (if initial < 0 then 0 else initial), inv_ttl = (if ttl \<le> 0 then DefaultTTL else ttl),
      inv_stock = Map.empty, inv_reservations = Map.empty, inv_receipts = Map.empty,
      inv_reserved = 0, inv_rejected = 0, inv_released = 0, inv_expired = 0, inv_shipped = 0,
      inv_lateShips = 0, inv_oversold = 0\<rparr>"

section \<open>Stock\<close>

definition counter :: "string \<Rightarrow> 'd Inventory \<Rightarrow> 'd Inventory" where
  "counter p iv =
     (case inv_stock iv p of
        Some st \<Rightarrow> iv
      | None \<Rightarrow> iv\<lparr>inv_stock := (inv_stock iv)(p \<mapsto> \<lparr>sr_quantity = inv_initial iv, sr_version = 0\<rparr>)\<rparr>)"

text \<open>The record \<open>counter\<close> returns a pointer to.\<close>

definition stock_of :: "'d Inventory \<Rightarrow> string \<Rightarrow> stockRecord" where
  "stock_of iv p =
     (case inv_stock iv p of
        Some st \<Rightarrow> st
      | None \<Rightarrow> \<lparr>sr_quantity = inv_initial iv, sr_version = 0\<rparr>)"

definition Snapshot :: "string \<Rightarrow> 'd Inventory \<Rightarrow> (int \<times> 64 word) \<times> 'd Inventory" where
  "Snapshot p iv =
     (let iv' = counter p iv; st = stock_of iv' p in ((sr_quantity st, sr_version st), iv'))"

definition Quantity :: "string \<Rightarrow> 'd Inventory \<Rightarrow> int \<times> 'd Inventory" where
  "Quantity p iv = (let (snap, iv') = Snapshot p iv in (fst snap, iv'))"

definition set_stock :: "string \<Rightarrow> stockRecord \<Rightarrow> 'd Inventory \<Rightarrow> 'd Inventory" where
  "set_stock p st iv = iv\<lparr>inv_stock := (inv_stock iv)(p \<mapsto> st)\<rparr>"

fun deduct :: "orders_Item list \<Rightarrow> 'd Inventory \<Rightarrow> 'd Inventory" where
  "deduct [] iv = iv"
| "deduct (it # its) iv =
     (let st = stock_of iv (o_ProductID it)
      in deduct its (set_stock (o_ProductID it)
           \<lparr>sr_quantity = wrap64 (sr_quantity st - o_Quantity it), sr_version = sr_version st + 1\<rparr> iv))"

fun restore :: "orders_Item list \<Rightarrow> 'd Inventory \<Rightarrow> 'd Inventory" where
  "restore [] iv = iv"
| "restore (it # its) iv =
     (let st = stock_of iv (o_ProductID it)
      in restore its (set_stock (o_ProductID it)
           \<lparr>sr_quantity = wrap64 (sr_quantity st + o_Quantity it), sr_version = sr_version st + 1\<rparr> iv))"

definition short_item :: "orders_Item list \<Rightarrow> 'd Inventory \<Rightarrow> orders_Item option" where
  "short_item items iv = List.find (\<lambda>it. sr_quantity (stock_of iv (o_ProductID it)) < o_Quantity it) items"

text \<open>
  \<open>reserveStock\<close>. The versions are read one product at a time and the locks taken afterwards,
  so other goroutines may run in between: \<open>env k i\<close> is what they do to the inventory with \<open>k\<close>
  attempts left, before the \<open>i\<close>-th product from the end is read (\<open>i = 0\<close>: before the locks are
  held). The check and the decrement run under all the locks.
\<close>

fun read_versions :: "(nat \<Rightarrow> 'd Inventory \<Rightarrow> 'd Inventory) \<Rightarrow> orders_Item list \<Rightarrow> 'd Inventory
    \<Rightarrow> 64 word list \<times> 'd Inventory" where
  "read_versions env [] iv = ([], env 0 iv)"
| "read_versions env (it # its) iv =
     (let iv1 = env (Suc (length its)) iv;
          v = sr_version (stock_of iv1 (o_ProductID it));
          (vs, iv2) = read_versions env its iv1
      in (v # vs, iv2))"

fun cas_loop :: "nat \<Rightarrow> (nat \<Rightarrow> nat \<Rightarrow> 'd Inventory \<Rightarrow> 'd Inventory) \<Rightarrow> orders_Item list
    \<Rightarrow> 'd Inventory \<Rightarrow> go_error option \<times> 'd Inventory" where
  "cas_loop 0 env items iv =
     (Some (Errorf StatusServiceUnavailable ''inventory contention exceeded %d CAS attempts''), iv)"
| "cas_loop (Suc k) env items iv =
     (let (versions, iv1) = read_versions (env k) items iv in
      if map (\<lambda>it. sr_version (stock_of iv1 (o_ProductID it))) items \<noteq> versions
      then cas_loop k env items iv1
      else (case short_item items iv1 of
              Some it \<Rightarrow>
                (Some (InsufficientStockError (o_ProductID it) (o_Quantity it)
                        (sr_quantity (stock_of iv1 (o_ProductID it)))), iv1)
            | None \<Rightarrow> (None, deduct items iv1)))"

definition reserveStock :: "(nat \<Rightarrow> nat \<Rightarrow> 'd Inventory \<Rightarrow> 'd Inventory) \<Rightarrow> orders_Item list
    \<Rightarrow> 'd Inventory \<Rightarrow> go_error option \<times> 'd Inventory" where
  "reserveStock env items iv =
     cas_loop MaxCASAttempts env items (fold (\<lambda>it. counter (o_ProductID it)) items iv)"

section \<open>Reservations\<close>

definition valid_request_id :: "string \<Rightarrow> go_error option" where
  "valid_request_id rid =
     (if rid = '''' \<or> length rid > 128
      then Some (Errorf StatusBadRequest ''request_id must contain 1..128 characters'')
      else if \<exists>c \<in> set rid. \<not> (is_lower c \<or> is_upper c \<or> is_digit c \<or>
                                 c = CHR ''-'' \<or> c = CHR ''_'' \<or> c = CHR '':'' \<or> c = CHR ''.'')
      then Some (Errorf StatusBadRequest ''invalid request_id'')
      else None)"

datatype claim_outcome = Rejects go_error | Waits | Claims

definition reserve_open :: "(orders_Item list \<Rightarrow> 'd) \<Rightarrow> string \<Rightarrow> orders_Item list \<Rightarrow> 'd Inventory
    \<Rightarrow> claim_outcome \<times> 'd Inventory" where
  "reserve_open fp rid ns iv =
     (case inv_receipts iv rid of
        Some rc \<Rightarrow>
          (if rc_digest rc \<noteq> fp ns
           then (Rejects (Errorf StatusConflict ''request_id already identifies different items''), iv)
           else (Waits, iv))
      | None \<Rightarrow>
          (Claims, iv\<lparr>inv_receipts := (inv_receipts iv)(rid \<mapsto>
              \<lparr>rc_digest = fp ns, rc_done = False, rc_reservationID = '''', rc_err = None\<rparr>)\<rparr>))"

text \<open>What a repeated request gets: \<open>None\<close> while the first one is still running. The missing
  reservation would be a nil dereference.\<close>

definition replay_receipt :: "string \<Rightarrow> 'd Inventory \<Rightarrow> Reservation res option" where
  "replay_receipt rid iv =
     (case inv_receipts iv rid of
        None \<Rightarrow> None
      | Some rc \<Rightarrow>
          (if \<not> rc_done rc then None
           else (case rc_err rc of
                   Some err \<Rightarrow> Some (Inl err)
                 | None \<Rightarrow> (case inv_reservations iv (rc_reservationID rc) of
                              Some r \<Rightarrow> Some (Inr r)
                            | None \<Rightarrow> Some (Inl (Sentinel ''panic: nil Reservation''))))))"

definition reserve_close :: "int \<Rightarrow> string \<Rightarrow> string \<Rightarrow> orders_Item list \<Rightarrow> go_error option
    \<Rightarrow> 'd Inventory \<Rightarrow> Reservation res \<times> 'd Inventory" where
  "reserve_close now newid rid ns err iv =
     (let fin = (\<lambda>resid. case inv_receipts iv rid of
                   None \<Rightarrow> inv_receipts iv
                 | Some rc \<Rightarrow> (inv_receipts iv)(rid \<mapsto>
                     rc\<lparr>rc_err := err, rc_done := True, rc_reservationID := resid\<rparr>))
      in case err of
           Some e \<Rightarrow> (Inl e, iv\<lparr>inv_receipts := fin '''', inv_rejected := inv_rejected iv + 1\<rparr>)
         | None \<Rightarrow>
             (let r = \<lparr>r_ID = newid, r_RequestID = rid, r_State = Reserved, r_Items = ns,
                       r_CreatedAt = now, r_ExpiresAt = now + inv_ttl iv\<rparr>
              in (Inr r, iv\<lparr>inv_receipts := fin newid,
                             inv_reservations := (inv_reservations iv)(newid \<mapsto> r),
                             inv_reserved := inv_reserved iv + 1\<rparr>)))"

definition ReserveWithRequestID :: "(orders_Item list \<Rightarrow> 'd) \<Rightarrow> int \<Rightarrow> string
    \<Rightarrow> (nat \<Rightarrow> nat \<Rightarrow> 'd Inventory \<Rightarrow> 'd Inventory) \<Rightarrow> string \<Rightarrow> orders_Item list \<Rightarrow> 'd Inventory
    \<Rightarrow> Reservation res option \<times> 'd Inventory" where
  "ReserveWithRequestID fp now newid env rid items iv =
     (case valid_request_id rid of
        Some err \<Rightarrow> (Some (Inl err), iv)
      | None \<Rightarrow>
          (case normalize items of
             Inl err \<Rightarrow> (Some (Inl err), iv)
           | Inr ns \<Rightarrow>
               (case reserve_open fp rid ns iv of
                  (Rejects err, iv1) \<Rightarrow> (Some (Inl err), iv1)
                | (Waits, iv1) \<Rightarrow> (replay_receipt rid iv1, iv1)
                | (Claims, iv1) \<Rightarrow>
                    (let (err, iv2) = reserveStock env ns iv1;
                         (r, iv3) = reserve_close now newid rid ns err iv2
                     in (Some r, iv3)))))"

definition set_state :: "string \<Rightarrow> ReservationState \<Rightarrow> 'd Inventory \<Rightarrow> 'd Inventory" where
  "set_state rid state iv =
     iv\<lparr>inv_reservations := (inv_reservations iv)
           (rid := map_option (\<lambda>r. r\<lparr>r_State := state\<rparr>) (inv_reservations iv rid))\<rparr>"

text \<open>The locked section of \<open>Release\<close>: the lines to restore, if the hold was live.\<close>

definition release_mark :: "string \<Rightarrow> 'd Inventory \<Rightarrow> orders_Item list option \<times> 'd Inventory" where
  "release_mark rid iv =
     (case inv_reservations iv rid of
        None \<Rightarrow> (None, iv)
      | Some r \<Rightarrow> if r_State r \<noteq> Reserved then (None, iv)
                  else (Some (r_Items r), set_state rid Released iv))"

definition Release :: "string \<Rightarrow> 'd Inventory \<Rightarrow> bool \<times> 'd Inventory" where
  "Release rid iv =
     (case release_mark rid iv of
        (None, iv1) \<Rightarrow> (False, iv1)
      | (Some items, iv1) \<Rightarrow>
          (let iv2 = restore items iv1 in (True, iv2\<lparr>inv_released := inv_released iv2 + 1\<rparr>)))"

text \<open>The locked section of \<open>Ship\<close>: the outcome and, for a hold found expired, its lines.\<close>

definition ship_mark :: "int \<Rightarrow> string \<Rightarrow> orders_Item list \<Rightarrow> 'd Inventory
    \<Rightarrow> (ShipOutcome \<times> orders_Item list option) \<times> 'd Inventory" where
  "ship_mark now rid ns iv =
     (case inv_reservations iv rid of
        None \<Rightarrow> ((ShipRejected, None), iv)
      | Some r \<Rightarrow>
          (if \<not> sameItems (r_Items r) ns \<or> r_State r = Released then ((ShipRejected, None), iv)
           else if r_State r = Committed then ((ShipDuplicate, None), iv)
           else if \<not> now < r_ExpiresAt r then ((ShipRejected, Some (r_Items r)), set_state rid Released iv)
           else ((ShipCompleted, None), set_state rid Committed iv)))"

definition Ship :: "int \<Rightarrow> string \<Rightarrow> orders_Item list \<Rightarrow> 'd Inventory \<Rightarrow> ShipOutcome \<times> 'd Inventory" where
  "Ship now rid items iv =
     (case normalize items of
        Inl err \<Rightarrow> (ShipRejected, iv\<lparr>inv_lateShips := inv_lateShips iv + 1\<rparr>)
      | Inr ns \<Rightarrow>
          (case ship_mark now rid ns iv of
             ((ShipRejected, None), iv1) \<Rightarrow> (ShipRejected, iv1\<lparr>inv_lateShips := inv_lateShips iv1 + 1\<rparr>)
           | ((ShipRejected, Some its), iv1) \<Rightarrow>
               (let iv2 = restore its iv1
                in (ShipRejected, iv2\<lparr>inv_expired := inv_expired iv2 + 1, inv_lateShips := inv_lateShips iv2 + 1\<rparr>))
           | ((ShipDuplicate, _), iv1) \<Rightarrow> (ShipDuplicate, iv1)
           | ((ShipCompleted, _), iv1) \<Rightarrow> (ShipCompleted, iv1\<lparr>inv_shipped := inv_shipped iv1 + 1\<rparr>)))"

definition is_stale :: "int \<Rightarrow> 'd Inventory \<Rightarrow> string \<Rightarrow> bool" where
  "is_stale now iv rid =
     (case inv_reservations iv rid of
        None \<Rightarrow> False
      | Some r \<Rightarrow> r_State r = Reserved \<and> \<not> now < r_ExpiresAt r)"

fun sweep_mark :: "int \<Rightarrow> string list \<Rightarrow> 'd Inventory \<Rightarrow> orders_Item list list \<times> 'd Inventory" where
  "sweep_mark now [] iv = ([], iv)"
| "sweep_mark now (rid # ord) iv =
     (if is_stale now iv rid
      then (let items = r_Items (the (inv_reservations iv rid));
                (stale, iv') = sweep_mark now ord (set_state rid Released iv)
            in (items # stale, iv'))
      else sweep_mark now ord iv)"

definition Sweep :: "int \<Rightarrow> string list \<Rightarrow> 'd Inventory \<Rightarrow> nat \<times> 'd Inventory" where
  "Sweep now ord iv =
     (let (stale, iv1) = sweep_mark now ord iv;
          iv2 = fold restore stale iv1
      in (length stale,
          if stale \<noteq> [] then iv2\<lparr>inv_expired := inv_expired iv2 + of_nat (length stale)\<rparr> else iv2))"

definition PendingReservations :: "string list \<Rightarrow> 'd Inventory \<Rightarrow> nat" where
  "PendingReservations ord iv =
     length (filter (\<lambda>k. case inv_reservations iv k of None \<Rightarrow> False | Some r \<Rightarrow> r_State r = Reserved) ord)"

definition newReservationID :: "8 word list option \<Rightarrow> string \<Rightarrow> string" where
  "newReservationID bytes fallback =
     (case bytes of None \<Rightarrow> ''res-'' @ fallback | Some b \<Rightarrow> ''res-'' @ hex_EncodeToString b)"


section \<open>Stock lemmas\<close>

lemma stock_of_set [simp]: "stock_of (set_stock p st iv) q = (if q = p then st else stock_of iv q)"
  by (simp add: stock_of_def set_stock_def split: option.split)

lemma stock_of_counter [simp]: "stock_of (counter p iv) q = stock_of iv q"
  by (simp add: stock_of_def counter_def split: option.split)

lemma counter_other [simp]:
  "inv_reservations (counter p iv) = inv_reservations iv" "inv_receipts (counter p iv) = inv_receipts iv"
  "inv_initial (counter p iv) = inv_initial iv" "inv_ttl (counter p iv) = inv_ttl iv"
  by (simp_all add: counter_def split: option.split)

lemma set_stock_other [simp]:
  "inv_reservations (set_stock p st iv) = inv_reservations iv"
  "inv_receipts (set_stock p st iv) = inv_receipts iv"
  "inv_initial (set_stock p st iv) = inv_initial iv" "inv_ttl (set_stock p st iv) = inv_ttl iv"
  by (simp_all add: set_stock_def)

lemma deduct_other [simp]:
  "inv_reservations (deduct items iv) = inv_reservations iv"
  "inv_receipts (deduct items iv) = inv_receipts iv"
  "inv_initial (deduct items iv) = inv_initial iv" "inv_ttl (deduct items iv) = inv_ttl iv"
  by (induction items iv rule: deduct.induct) (simp_all add: Let_def)

lemma restore_other [simp]:
  "inv_reservations (restore items iv) = inv_reservations iv"
  "inv_receipts (restore items iv) = inv_receipts iv"
  "inv_initial (restore items iv) = inv_initial iv" "inv_ttl (restore items iv) = inv_ttl iv"
  by (induction items iv rule: restore.induct) (simp_all add: Let_def)

lemma counters_other [simp]:
  "inv_reservations (fold (\<lambda>it. counter (o_ProductID it)) items iv) = inv_reservations iv"
  "inv_receipts (fold (\<lambda>it. counter (o_ProductID it)) items iv) = inv_receipts iv"
  "inv_initial (fold (\<lambda>it. counter (o_ProductID it)) items iv) = inv_initial iv"
  "stock_of (fold (\<lambda>it. counter (o_ProductID it)) items iv) = stock_of iv"
  by (induction items arbitrary: iv) (simp_all add: fun_eq_iff)

abbreviation avail :: "'d Inventory \<Rightarrow> string \<Rightarrow> int" where
  "avail iv p \<equiv> sr_quantity (stock_of iv p)"

lemma canonical_Cons:
  "canonical (it # its) \<Longrightarrow> canonical its \<and> 0 < o_Quantity it \<and> o_Quantity it \<le> MaxInt \<and>
   o_ProductID it \<notin> o_ProductID ` set its"
  by (auto simp: canonical_def)

lemma canonical_qty:
  assumes "canonical items"
  shows "0 \<le> qty p items"
  using assms by (intro qty_nonneg) (simp add: canonical_def)

lemma short_item_None:
  assumes "canonical items" and "short_item items iv = None"
  shows "qty p items \<le> max (avail iv p) 0"
  using assms
proof (induction items)
  case (Cons it its)
  note c = canonical_Cons [OF Cons.prems(1)]
  have "short_item its iv = None" and "o_Quantity it \<le> avail iv (o_ProductID it)"
    using Cons.prems(2) by (auto simp: short_item_def split: if_splits)
  with Cons.IH c show ?case by (auto simp: qty_absent)
qed simp

text \<open>No quantity wraps: a decrement that passed the check and an increment of units that
  were taken before stay within \<open>int64\<close>.\<close>

lemma deduct_avail:
  assumes "canonical items" and "\<And>p. 0 \<le> avail iv p \<and> avail iv p \<le> MaxInt"
    and "\<And>p. qty p items \<le> avail iv p"
  shows "avail (deduct items iv) p = avail iv p - qty p items"
  using assms
proof (induction items arbitrary: iv)
  case (Cons it its)
  let ?p = "o_ProductID it" and ?n = "o_Quantity it"
  note c = canonical_Cons [OF Cons.prems(1)]
  let ?st = "\<lparr>sr_quantity = wrap64 (avail iv ?p - ?n), sr_version = sr_version (stock_of iv ?p) + 1\<rparr>"
  have le: "?n \<le> avail iv ?p" using Cons.prems(3) [of ?p] c qty_absent [of ?p its] by simp
  then have w: "wrap64 (avail iv ?p - ?n) = avail iv ?p - ?n"
    using Cons.prems(2) [of ?p] c by (intro wrap64_id) (auto simp: MinInt_def MaxInt_def)
  have "avail (deduct its (set_stock ?p ?st iv)) p = avail (set_stock ?p ?st iv) p - qty p its"
  proof (rule Cons.IH)
    show "canonical its" using c by blast
    show "0 \<le> avail (set_stock ?p ?st iv) q \<and> avail (set_stock ?p ?st iv) q \<le> MaxInt" for q
      using Cons.prems(2) [of q] le w c by auto
    show "qty q its \<le> avail (set_stock ?p ?st iv) q" for q
      using Cons.prems(3) [of q] le w c qty_absent [of ?p its] by (cases "q = ?p") auto
  qed
  with w show ?case by (auto simp: Let_def)
qed simp

lemma restore_avail:
  assumes "canonical items" and "\<And>p. 0 \<le> avail iv p" and "\<And>p. avail iv p + qty p items \<le> MaxInt"
  shows "avail (restore items iv) p = avail iv p + qty p items"
  using assms
proof (induction items arbitrary: iv)
  case (Cons it its)
  let ?p = "o_ProductID it" and ?n = "o_Quantity it"
  note c = canonical_Cons [OF Cons.prems(1)]
  let ?st = "\<lparr>sr_quantity = wrap64 (avail iv ?p + ?n), sr_version = sr_version (stock_of iv ?p) + 1\<rparr>"
  have w: "wrap64 (avail iv ?p + ?n) = avail iv ?p + ?n"
    using Cons.prems(2) [of ?p] Cons.prems(3) [of ?p] c qty_absent [of ?p its]
    by (intro wrap64_id) (auto simp: MinInt_def)
  have "avail (restore its (set_stock ?p ?st iv)) p = avail (set_stock ?p ?st iv) p + qty p its"
  proof (rule Cons.IH)
    show "canonical its" using c by blast
    show "0 \<le> avail (set_stock ?p ?st iv) q" for q
      using Cons.prems(2) [of q] w c by auto
    show "avail (set_stock ?p ?st iv) q + qty q its \<le> MaxInt" for q
      using Cons.prems(3) [of q] w c qty_absent [of ?p its] by (cases "q = ?p") auto
  qed
  with w show ?case by (auto simp: Let_def)
qed simp


section \<open>All or nothing under interference\<close>

text \<open>\<open>others env\<close>: the inventory changes only by what other goroutines do.\<close>

definition others :: "(nat \<Rightarrow> nat \<Rightarrow> 'd Inventory \<Rightarrow> 'd Inventory) \<Rightarrow> 'd Inventory \<Rightarrow> 'd Inventory \<Rightarrow> bool" where
  "others env iv iv' \<longleftrightarrow> (\<exists>k i. iv' = env k i iv)"

lemma others_env: "(others env)\<^sup>*\<^sup>* iv (env k i iv)"
  by (rule r_into_rtranclp) (auto simp: others_def)

lemma read_versions_others: "(others env)\<^sup>*\<^sup>* iv (snd (read_versions (env k) items iv))"
proof (induction items arbitrary: iv)
  case Nil
  show ?case by (simp add: others_env)
next
  case (Cons it its)
  have "(others env)\<^sup>*\<^sup>* iv (snd (read_versions (env k) its (env k (Suc (length its)) iv)))"
    using others_env Cons.IH by (rule rtranclp_trans)
  then show ?case by (simp add: Let_def case_prod_unfold)
qed

definition stock_decision :: "orders_Item list \<Rightarrow> 'd Inventory \<Rightarrow> go_error option \<times> 'd Inventory" where
  "stock_decision items iv =
     (case short_item items iv of
        Some it \<Rightarrow> (Some (InsufficientStockError (o_ProductID it) (o_Quantity it) (avail iv (o_ProductID it))), iv)
      | None \<Rightarrow> (None, deduct items iv))"

lemma cas_loop_linearizes:
  "\<exists>ivc. (others env)\<^sup>*\<^sup>* iv ivc \<and>
     (cas_loop k env items iv = stock_decision items ivc \<or>
      cas_loop k env items iv =
        (Some (Errorf StatusServiceUnavailable ''inventory contention exceeded %d CAS attempts''), ivc))"
proof (induction k arbitrary: iv)
  case (Suc k)
  obtain vs iv1 where rv: "read_versions (env k) items iv = (vs, iv1)" by force
  have r1: "(others env)\<^sup>*\<^sup>* iv iv1" using read_versions_others [of env iv k items] rv by simp
  show ?case
  proof (cases "map (\<lambda>it. sr_version (stock_of iv1 (o_ProductID it))) items = vs")
    case True
    with r1 rv show ?thesis
      by (intro exI [of _ iv1]) (simp add: stock_decision_def split: option.split)
  next
    case False
    with rv have "cas_loop (Suc k) env items iv = cas_loop k env items iv1" by simp
    moreover obtain ivc where "(others env)\<^sup>*\<^sup>* iv1 ivc"
        "cas_loop k env items iv1 = stock_decision items ivc \<or>
         cas_loop k env items iv1 =
           (Some (Errorf StatusServiceUnavailable ''inventory contention exceeded %d CAS attempts''), ivc)"
      using Suc.IH by blast
    ultimately show ?thesis
      using r1 by (intro exI [of _ ivc] conjI rtranclp_trans [of _ iv iv1 ivc]) simp_all
  qed
qed auto

lemma read_versions_quiet:
  "read_versions (\<lambda>i. id) items iv = (map (\<lambda>it. sr_version (stock_of iv (o_ProductID it))) items, iv)"
  by (induction items arbitrary: iv) simp_all

lemma reserveStock_quiet:
  "reserveStock (\<lambda>k i. id) items iv =
   stock_decision items (fold (\<lambda>it. counter (o_ProductID it)) items iv)"
proof -
  have "cas_loop (Suc k) (\<lambda>k i. id) items iv' = stock_decision items iv'" for k and iv' :: "'a Inventory"
    by (simp add: read_versions_quiet stock_decision_def split: option.split)
  from this [of 999] show ?thesis by (simp add: reserveStock_def MaxCASAttempts_def)
qed

text \<open>An attempt nobody disturbs: what others do meanwhile leaves the versions of the requested products.\<close>

definition undisturbed :: "orders_Item list \<Rightarrow> (nat \<Rightarrow> 'd Inventory \<Rightarrow> 'd Inventory) \<Rightarrow> bool" where
  "undisturbed items e \<longleftrightarrow>
     (\<forall>i iv. \<forall>it \<in> set items. sr_version (stock_of (e i iv) (o_ProductID it)) = sr_version (stock_of iv (o_ProductID it)))"

lemma read_versions_undisturbed:
  assumes "undisturbed items e" and "set its \<subseteq> set items" and "read_versions e its iv = (vs, iv1)"
  shows "vs = map (\<lambda>it. sr_version (stock_of iv1 (o_ProductID it))) its \<and>
    (\<forall>it \<in> set items. sr_version (stock_of iv1 (o_ProductID it)) = sr_version (stock_of iv (o_ProductID it)))"
  using assms(2,3)
  by (induction its arbitrary: iv vs) (use assms(1) in \<open>auto simp: undisturbed_def Let_def split: prod.splits\<close>)

lemma cas_loop_decides:
  assumes "k < n" and quiet: "undisturbed items (env k)"
  shows "\<exists>ivc. (others env)\<^sup>*\<^sup>* iv ivc \<and> cas_loop n env items iv = stock_decision items ivc"
  using assms(1)
proof (induction n arbitrary: iv)
  case (Suc n)
  obtain vs iv1 where rv: "read_versions (env n) items iv = (vs, iv1)" by force
  have r1: "(others env)\<^sup>*\<^sup>* iv iv1" using read_versions_others [of env iv n items] rv by simp
  show ?case
  proof (cases "map (\<lambda>it. sr_version (stock_of iv1 (o_ProductID it))) items = vs")
    case True
    with r1 rv show ?thesis
      by (intro exI [of _ iv1]) (simp add: stock_decision_def split: option.split)
  next
    case False
    with rv have "k \<noteq> n" using read_versions_undisturbed [OF quiet, of items iv vs iv1] by auto
    with Suc.prems have "k < n" by simp
    then obtain ivc where "(others env)\<^sup>*\<^sup>* iv1 ivc" "cas_loop n env items iv1 = stock_decision items ivc"
      using Suc.IH by blast
    with False rv r1 show ?thesis by (intro exI [of _ ivc]) (auto intro: rtranclp_trans)
  qed
qed simp

text \<open>
  C16. \<open>reserveStock\<close> is atomic whatever other goroutines do between its reads and its locks.
  There is an instant, reached by the others' actions alone, at which it takes the whole cart or
  nothing: with enough of every product it deducts exactly the requested units of each and
  leaves none negative, and otherwise it changes nothing and names a product that is short there, or
  gives up with 503. It gives up only when others got in between in every one of a thousand attempts:
  if in one of them nobody changed the version of a requested product, it decides.
\<close>

theorem reserveStock_all_or_nothing:
  fixes env :: "nat \<Rightarrow> nat \<Rightarrow> 'd Inventory \<Rightarrow> 'd Inventory"
  assumes "canonical items"
    and range: "\<And>iv' p. (others env)\<^sup>*\<^sup>* (fold (\<lambda>it. counter (o_ProductID it)) items iv) iv' \<Longrightarrow>
                  0 \<le> avail iv' p \<and> avail iv' p \<le> MaxInt"
    and run: "reserveStock env items iv = (err, iv')"
  shows "\<exists>ivc. (others env)\<^sup>*\<^sup>* (fold (\<lambda>it. counter (o_ProductID it)) items iv) ivc \<and>
           (case err of
              None \<Rightarrow> \<forall>p. qty p items \<le> avail ivc p \<and> avail iv' p = avail ivc p - qty p items
            | Some e \<Rightarrow> iv' = ivc \<and>
                (StatusOf (Some e) = StatusServiceUnavailable \<and> (\<forall>k < 1000. \<not> undisturbed items (env k)) \<or>
                (\<exists>it \<in> set items. e = InsufficientStockError (o_ProductID it) (o_Quantity it)
                                      (avail ivc (o_ProductID it)) \<and>
                                    avail ivc (o_ProductID it) < o_Quantity it)))"
proof -
  let ?start = "fold (\<lambda>it. counter (o_ProductID it)) items iv"
  let ?busy = "Errorf StatusServiceUnavailable ''inventory contention exceeded %d CAS attempts''"
  have loop: "cas_loop 1000 env items ?start = (err, iv')" using run by (simp add: reserveStock_def MaxCASAttempts_def)
  obtain ivc where c: "(others env)\<^sup>*\<^sup>* ?start ivc"
    and d: "(err, iv') = stock_decision items ivc \<or> ((err, iv') = (Some ?busy, ivc) \<and> (\<forall>k < 1000. \<not> undisturbed items (env k)))"
    using cas_loop_linearizes [of env ?start 1000 items] cas_loop_decides [of _ 1000 items env ?start] loop by metis
  show ?thesis
  proof (cases "err")
    case None
    with d have "short_item items ivc = None" and iv': "iv' = deduct items ivc"
      by (auto simp: stock_decision_def split: option.splits)
    then have le: "qty p items \<le> avail ivc p" for p
      using short_item_None [OF assms(1)] range [OF c, of p] by (metis max_absorb1)
    with iv' None c show ?thesis
      using deduct_avail [OF assms(1) range [OF c]] by auto
  next
    case (Some e)
    with d c show ?thesis
      by (intro exI [of _ ivc]) (auto simp: stock_decision_def short_item_def find_Some_iff split: option.splits)
  qed
qed

definition demo_items :: "orders_Item list" where
  "demo_items = [\<lparr>o_ProductID = ''p1'', o_Quantity = 2\<rparr>, \<lparr>o_ProductID = ''p2'', o_Quantity = 4\<rparr>]"

lemma canonical_demo: "canonical demo_items"
  by (simp add: canonical_def demo_items_def MaxInt_def)

lemma New_avail: "avail (New initial ttl) p = max initial 0"
  by (simp add: stock_of_def New_def)

theorem reserveStock_all_or_nothing_witness:
  "\<exists>iv'. reserveStock (\<lambda>k i. id) demo_items (New 100 0 :: string Inventory) = (None, iv') \<and>
         avail iv' ''p2'' = 96"
proof -
  let ?iv = "New 100 0 :: string Inventory"
  let ?start = "fold (\<lambda>it. counter (o_ProductID it)) demo_items ?iv"
  have id: "iv' = ?start" if "(others (\<lambda>k i. id))\<^sup>*\<^sup>* ?start iv'" for iv'
    using that by (induction rule: rtranclp_induct) (auto simp: others_def)
  have "short_item demo_items ?start = None"
    by (simp add: short_item_def demo_items_def New_avail)
  then have "stock_decision demo_items ?start = (None, deduct demo_items ?start)"
    by (simp only: stock_decision_def option.case)
  then obtain iv' where r: "reserveStock (\<lambda>k i. id) demo_items ?iv = (None, iv')"
    using that [of "deduct demo_items ?start"] by (simp only: reserveStock_quiet)
  have range: "0 \<le> avail iv' p \<and> avail iv' p \<le> MaxInt" if "(others (\<lambda>k i. id))\<^sup>*\<^sup>* ?start iv'" for iv' p
    using id [OF that] by (simp add: New_avail MaxInt_def)
  obtain ivc where ivc: "(others (\<lambda>k i. id))\<^sup>*\<^sup>* ?start ivc"
      "\<forall>p. qty p demo_items \<le> avail ivc p \<and> avail iv' p = avail ivc p - qty p demo_items"
    using reserveStock_all_or_nothing [OF canonical_demo range r] by (auto simp only: option.case)
  have "avail iv' ''p2'' = 96"
    using ivc(2) id [OF ivc(1)] by (simp add: New_avail qty_def demo_items_def)
  with r show ?thesis by blast
qed

end
