(* ===== verification/Warehouse_Concurrent.thy ===== *)
theory Warehouse_Concurrent
  imports Warehouse_Inventory "HOL-Library.Multiset"
begin

text \<open>
  The methods of \<open>Inventory\<close> running concurrently: the critical sections of
  \<^verbatim>\<open>src/internal/warehouse/inventory.go\<close> interleaved in any order. Between its sections a
  reservation request has claimed a receipt but not decided (\<open>ww_pending\<close>), or has taken its
  stock but not recorded it (\<open>ww_held\<close>); a hold that was given up is still owed to the stock
  until \<open>restore\<close> runs (\<open>ww_owed\<close>).
\<close>

record 'd wh_world =
  ww_inv :: "'d Inventory"
  ww_pending :: "string \<rightharpoonup> orders_Item list"
  ww_held :: "string \<rightharpoonup> orders_Item list"
  ww_owed :: "orders_Item list multiset"

definition wh_init :: "int \<Rightarrow> int \<Rightarrow> 'd wh_world" where
  "wh_init initial ttl =
     \<lparr>ww_inv = New initial ttl, ww_pending = Map.empty, ww_held = Map.empty, ww_owed = {#}\<rparr>"

text \<open>Two inventories that differ in their statistics only.\<close>

definition same_but_counters :: "'d Inventory \<Rightarrow> 'd Inventory \<Rightarrow> bool" where
  "same_but_counters iv iv' \<longleftrightarrow>
     inv_initial iv' = inv_initial iv \<and> inv_ttl iv' = inv_ttl iv \<and> inv_stock iv' = inv_stock iv \<and>
     inv_reservations iv' = inv_reservations iv \<and> inv_receipts iv' = inv_receipts iv"

inductive wh_step :: "(orders_Item list \<Rightarrow> 'd) \<Rightarrow> 'd wh_world \<Rightarrow> 'd wh_world \<Rightarrow> bool" for fp where
  claim: "normalize items = Inr ns \<Longrightarrow> reserve_open fp rid ns (ww_inv w) = (Claims, iv) \<Longrightarrow>
     wh_step fp w (w\<lparr>ww_inv := iv, ww_pending := (ww_pending w)(rid \<mapsto> ns)\<rparr>)"
| take: "ww_pending w rid = Some ns \<Longrightarrow> short_item ns (ww_inv w) = None \<Longrightarrow>
     wh_step fp w (w\<lparr>ww_inv := deduct ns (ww_inv w), ww_pending := (ww_pending w)(rid := None),
                     ww_held := (ww_held w)(rid \<mapsto> ns)\<rparr>)"
| fail: "ww_pending w rid = Some ns \<Longrightarrow> reserve_close now newid rid ns (Some err) (ww_inv w) = (r, iv) \<Longrightarrow>
     wh_step fp w (w\<lparr>ww_inv := iv, ww_pending := (ww_pending w)(rid := None)\<rparr>)"
| grant: "ww_held w rid = Some ns \<Longrightarrow> newid \<notin> dom (inv_reservations (ww_inv w)) \<Longrightarrow>
     reserve_close now newid rid ns None (ww_inv w) = (r, iv) \<Longrightarrow>
     wh_step fp w (w\<lparr>ww_inv := iv, ww_held := (ww_held w)(rid := None)\<rparr>)"
| release: "release_mark resid (ww_inv w) = (Some items, iv) \<Longrightarrow>
     wh_step fp w (w\<lparr>ww_inv := iv, ww_owed := add_mset items (ww_owed w)\<rparr>)"
| ship: "ship_mark now resid ns (ww_inv w) = ((out, owed), iv) \<Longrightarrow>
     wh_step fp w (w\<lparr>ww_inv := iv,
       ww_owed := (case owed of None \<Rightarrow> ww_owed w | Some items \<Rightarrow> add_mset items (ww_owed w))\<rparr>)"
| sweep: "sweep_mark now ord (ww_inv w) = (stale, iv) \<Longrightarrow>
     wh_step fp w (w\<lparr>ww_inv := iv, ww_owed := mset stale + ww_owed w\<rparr>)"
| give_back: "items \<in># ww_owed w \<Longrightarrow>
     wh_step fp w (w\<lparr>ww_inv := restore items (ww_inv w), ww_owed := ww_owed w - {#items#}\<rparr>)"
| look: "wh_step fp w (w\<lparr>ww_inv := counter p (ww_inv w)\<rparr>)"
| count: "same_but_counters (ww_inv w) iv \<Longrightarrow> wh_step fp w (w\<lparr>ww_inv := iv\<rparr>)"

inductive_cases wh_stepE: "wh_step fp w w'"

section \<open>Accounting\<close>

text \<open>Units of \<open>p\<close> in reservations that hold or have shipped them, in flight, and owed.\<close>

definition res_units :: "Reservation \<Rightarrow> string \<Rightarrow> int" where
  "res_units r p = (if r_State r = Released then 0 else qty p (r_Items r))"

definition live :: "'d Inventory \<Rightarrow> string \<Rightarrow> int" where
  "live iv p = (\<Sum>k \<in> dom (inv_reservations iv). res_units (the (inv_reservations iv k)) p)"

definition held_units :: "(string \<rightharpoonup> orders_Item list) \<Rightarrow> string \<Rightarrow> int" where
  "held_units h p = (\<Sum>k \<in> dom h. qty p (the (h k)))"

definition owed_units :: "orders_Item list multiset \<Rightarrow> string \<Rightarrow> int" where
  "owed_units M p = (\<Sum>items \<in># M. qty p items)"

lemma sum_map_upd_new:
  assumes "finite (dom m)" and "m k = None"
  shows "(\<Sum>j \<in> dom (m(k \<mapsto> v)). f (the ((m(k \<mapsto> v)) j))) = f v + (\<Sum>j \<in> dom m. f (the (m j)))"
proof -
  have k: "k \<notin> dom m" using assms(2) by blast
  then have "(\<Sum>j \<in> dom m. f (the ((m(k \<mapsto> v)) j))) = (\<Sum>j \<in> dom m. f (the (m j)))"
    by (intro sum.cong) auto
  with assms(1) k show ?thesis by simp
qed

lemma sum_map_del:
  fixes f :: "'b \<Rightarrow> int"
  assumes "finite (dom m)" and "m k = Some v"
  shows "(\<Sum>j \<in> dom (m(k := None)). f (the ((m(k := None)) j))) = (\<Sum>j \<in> dom m. f (the (m j))) - f v"
proof -
  have kd: "k \<in> dom m" using assms(2) by blast
  have "(\<Sum>j \<in> dom (m(k := None)). f (the ((m(k := None)) j))) = (\<Sum>j \<in> dom m - {k}. f (the (m j)))"
    by (intro sum.cong) auto
  also have "\<dots> = (\<Sum>j \<in> dom m. f (the (m j))) - f v"
    using sum.remove [OF assms(1) kd, of "\<lambda>j. f (the (m j))"] assms(2) by simp
  finally show ?thesis .
qed

lemma live_add:
  assumes "finite (dom (inv_reservations iv))" and "inv_reservations iv k = None"
  shows "live (iv\<lparr>inv_reservations := (inv_reservations iv)(k \<mapsto> r)\<rparr>) p = res_units r p + live iv p"
  unfolding live_def using sum_map_upd_new [OF assms, of "\<lambda>r. res_units r p"] by simp

lemma live_set_state:
  assumes "finite (dom (inv_reservations iv))" and "inv_reservations iv k = Some r"
  shows "live (set_state k st iv) p = live iv p - res_units r p + res_units (r\<lparr>r_State := st\<rparr>) p"
proof -
  let ?m = "inv_reservations iv" and ?u = "\<lambda>r. res_units r p"
  let ?d = "?m(k := None)"
  have fin: "finite (dom ?d)" by (rule finite_subset [OF _ assms(1)]) auto
  have "?m(k \<mapsto> r\<lparr>r_State := st\<rparr>) = ?d(k \<mapsto> r\<lparr>r_State := st\<rparr>)" by simp
  then have "live (set_state k st iv) p =
      (\<Sum>j \<in> dom (?d(k \<mapsto> r\<lparr>r_State := st\<rparr>)). ?u (the ((?d(k \<mapsto> r\<lparr>r_State := st\<rparr>)) j)))"
    using assms(2) by (simp add: live_def set_state_def)
  also have "\<dots> = ?u (r\<lparr>r_State := st\<rparr>) + (\<Sum>j \<in> dom ?d. ?u (the (?d j)))"
    by (rule sum_map_upd_new [OF fin]) simp
  also have "(\<Sum>j \<in> dom ?d. ?u (the (?d j))) = live iv p - ?u r"
    unfolding live_def by (rule sum_map_del [OF assms])
  finally show ?thesis by simp
qed

lemma set_state_other [simp]:
  "inv_stock (set_state k st iv) = inv_stock iv" "inv_receipts (set_state k st iv) = inv_receipts iv"
  "inv_initial (set_state k st iv) = inv_initial iv" "inv_ttl (set_state k st iv) = inv_ttl iv"
  "dom (inv_reservations (set_state k st iv)) = dom (inv_reservations iv)"
  "stock_of (set_state k st iv) = stock_of iv"
  by (auto simp: set_state_def stock_of_def fun_eq_iff split: option.splits if_splits)

lemma set_state_reservation:
  "inv_reservations (set_state k st iv) j = Some r' \<Longrightarrow>
   \<exists>r. inv_reservations iv j = Some r \<and> r' = (if j = k then r\<lparr>r_State := st\<rparr> else r)"
  by (auto simp: set_state_def split: if_splits)


section \<open>Conservation of stock\<close>

definition all_units :: "'d wh_world \<Rightarrow> string \<Rightarrow> int" where
  "all_units w p = avail (ww_inv w) p + live (ww_inv w) p + held_units (ww_held w) p
                     + owed_units (ww_owed w) p"

definition lines_ok :: "'d wh_world \<Rightarrow> bool" where
  "lines_ok w \<longleftrightarrow>
     finite (dom (inv_reservations (ww_inv w))) \<and> finite (dom (ww_held w)) \<and>
     (\<forall>k r. inv_reservations (ww_inv w) k = Some r \<longrightarrow> canonical (r_Items r)) \<and>
     (\<forall>k ns. ww_pending w k = Some ns \<longrightarrow> canonical ns) \<and>
     (\<forall>k ns. ww_held w k = Some ns \<longrightarrow> canonical ns) \<and> (\<forall>ns \<in># ww_owed w. canonical ns)"

definition stock_inv :: "'d wh_world \<Rightarrow> bool" where
  "stock_inv w \<longleftrightarrow> lines_ok w \<and> inv_initial (ww_inv w) \<le> MaxInt \<and>
     (\<forall>p. 0 \<le> avail (ww_inv w) p \<and> all_units w p = inv_initial (ww_inv w))"

lemma units_nonneg:
  assumes "lines_ok w"
  shows "0 \<le> live (ww_inv w) p" "0 \<le> held_units (ww_held w) p" "0 \<le> owed_units (ww_owed w) p"
proof -
  show "0 \<le> live (ww_inv w) p"
    unfolding live_def using assms
    by (intro sum_nonneg) (auto simp: lines_ok_def res_units_def canonical_qty)
  show "0 \<le> held_units (ww_held w) p"
    unfolding held_units_def using assms
    by (intro sum_nonneg) (auto simp: lines_ok_def canonical_qty)
  have "0 \<le> (\<Sum>items \<in># M. qty p items)" if "\<forall>ns \<in># M. canonical ns" for M
    using that by (induction M) (auto simp: canonical_qty)
  then show "0 \<le> owed_units (ww_owed w) p"
    using assms by (simp add: owed_units_def lines_ok_def)
qed

lemma avail_bound:
  assumes "stock_inv w"
  shows "0 \<le> avail (ww_inv w) p" "avail (ww_inv w) p \<le> inv_initial (ww_inv w)"
    "avail (ww_inv w) p \<le> MaxInt"
proof -
  have lo: "lines_ok w" and e: "all_units w p = inv_initial (ww_inv w)" "inv_initial (ww_inv w) \<le> MaxInt"
    and a: "0 \<le> avail (ww_inv w) p"
    using assms by (simp_all add: stock_inv_def)
  note units_nonneg [OF lo, of p]
  with e show "avail (ww_inv w) p \<le> inv_initial (ww_inv w)" "avail (ww_inv w) p \<le> MaxInt"
    by (simp_all add: all_units_def)
  show "0 \<le> avail (ww_inv w) p" by (fact a)
qed

text \<open>Marking one live hold as released moves its units from the reservations to what is
  owed; marking it committed moves nothing.\<close>

lemma mark_released:
  assumes "stock_inv w" and "inv_reservations (ww_inv w) k = Some r" and "r_State r \<noteq> Released"
  shows "stock_inv (w\<lparr>ww_inv := set_state k Released (ww_inv w), ww_owed := add_mset (r_Items r) (ww_owed w)\<rparr>)"
proof -
  have fin: "finite (dom (inv_reservations (ww_inv w)))"
    using assms(1) by (simp add: stock_inv_def lines_ok_def)
  have "live (set_state k Released (ww_inv w)) p = live (ww_inv w) p - qty p (r_Items r)" for p
    using live_set_state [OF fin assms(2), of Released p] assms(3) by (simp add: res_units_def)
  then show ?thesis
    using assms(1,2)
    by (auto simp: stock_inv_def lines_ok_def all_units_def owed_units_def add.assoc dest!: set_state_reservation)
qed

lemma mark_committed:
  assumes "stock_inv w" and "inv_reservations (ww_inv w) k = Some r" and "r_State r \<noteq> Released"
  shows "stock_inv (w\<lparr>ww_inv := set_state k Committed (ww_inv w)\<rparr>)"
proof -
  have fin: "finite (dom (inv_reservations (ww_inv w)))"
    using assms(1) by (simp add: stock_inv_def lines_ok_def)
  have "live (set_state k Committed (ww_inv w)) p = live (ww_inv w) p" for p
    using live_set_state [OF fin assms(2), of Committed p] assms(3) by (simp add: res_units_def)
  then show ?thesis
    using assms(1,2)
    by (auto simp: stock_inv_def lines_ok_def all_units_def dest!: set_state_reservation)
qed

lemma sweep_mark_inv:
  "sweep_mark now ord (ww_inv w) = (stale, iv) \<Longrightarrow> stock_inv w \<Longrightarrow>
   stock_inv (w\<lparr>ww_inv := iv, ww_owed := mset stale + ww_owed w\<rparr>)"
proof (induction ord arbitrary: w stale)
  case Nil
  then show ?case by (cases w) auto
next
  case (Cons rid ord)
  show ?case
  proof (cases "is_stale now (ww_inv w) rid")
    case True
    then obtain r where r: "inv_reservations (ww_inv w) rid = Some r" "r_State r = Reserved"
      by (auto simp: is_stale_def split: option.splits)
    let ?w = "w\<lparr>ww_inv := set_state rid Released (ww_inv w), ww_owed := add_mset (r_Items r) (ww_owed w)\<rparr>"
    obtain stale' where "sweep_mark now ord (ww_inv ?w) = (stale', iv)" and st: "stale = r_Items r # stale'"
      using Cons.prems(1) True r(1) by (auto simp: Let_def split: prod.splits)
    moreover have "stock_inv ?w" using mark_released [OF Cons.prems(2) r(1)] r(2) by simp
    ultimately have "stock_inv (?w\<lparr>ww_inv := iv, ww_owed := mset stale' + ww_owed ?w\<rparr>)"
      using Cons.IH [of ?w stale'] by blast
    then show ?thesis by (simp add: st)
  next
    case False
    with Cons show ?thesis by simp
  qed
qed


lemma reserve_open_other:
  assumes "reserve_open fp rid ns iv = (Claims, iv')"
  shows "inv_stock iv' = inv_stock iv" "inv_reservations iv' = inv_reservations iv"
    "inv_initial iv' = inv_initial iv" "inv_receipts iv rid = None"
    "inv_receipts iv' = (inv_receipts iv)(rid \<mapsto>
       \<lparr>rc_digest = fp ns, rc_done = False, rc_reservationID = '''', rc_err = None\<rparr>)"
  using assms by (auto simp: reserve_open_def split: option.splits if_splits)

lemma same_stock: "inv_stock iv' = inv_stock iv \<Longrightarrow> inv_initial iv' = inv_initial iv \<Longrightarrow> stock_of iv' = stock_of iv"
  by (simp add: stock_of_def fun_eq_iff split: option.split)

lemma same_live: "inv_reservations iv' = inv_reservations iv \<Longrightarrow> live iv' = live iv"
  by (rule ext) (simp add: live_def)

lemma reserve_close_err:
  assumes "reserve_close now newid rid ns (Some err) iv = (r, iv')"
  shows "inv_stock iv' = inv_stock iv" "inv_reservations iv' = inv_reservations iv"
    "inv_initial iv' = inv_initial iv"
  using assms by (auto simp: reserve_close_def Let_def)

lemma reserve_close_ok:
  assumes "reserve_close now newid rid ns None iv = (r, iv')"
  shows "inv_stock iv' = inv_stock iv" "inv_initial iv' = inv_initial iv"
    "inv_reservations iv' = (inv_reservations iv)(newid \<mapsto>
       \<lparr>r_ID = newid, r_RequestID = rid, r_State = Reserved, r_Items = ns,
        r_CreatedAt = now, r_ExpiresAt = now + inv_ttl iv\<rparr>)"
  using assms by (auto simp: reserve_close_def Let_def)

lemma stock_inv_cong:
  assumes "stock_inv w" and "stock_of iv = stock_of (ww_inv w)"
    and "inv_reservations iv = inv_reservations (ww_inv w)" "inv_initial iv = inv_initial (ww_inv w)"
  shows "stock_inv (w\<lparr>ww_inv := iv\<rparr>)"
  using assms same_live [of iv "ww_inv w"] by (auto simp: stock_inv_def lines_ok_def all_units_def)

lemma take_inv:
  assumes inv: "stock_inv w" and p: "ww_pending w rid = Some ns" "ww_held w rid = None"
    and ok: "short_item ns (ww_inv w) = None"
  shows "stock_inv (w\<lparr>ww_inv := deduct ns (ww_inv w), ww_pending := (ww_pending w)(rid := None),
                     ww_held := (ww_held w)(rid \<mapsto> ns)\<rparr>)"
proof -
  have can: "canonical ns" and fin: "finite (dom (ww_held w))"
    using inv p by (auto simp: stock_inv_def lines_ok_def)
  have le: "qty q ns \<le> avail (ww_inv w) q" for q
    using short_item_None [OF can ok, of q] avail_bound [OF inv, of q] by simp
  have av: "avail (deduct ns (ww_inv w)) q = avail (ww_inv w) q - qty q ns" for q
    using deduct_avail [OF can] avail_bound [OF inv] le by blast
  have held: "held_units ((ww_held w)(rid \<mapsto> ns)) q = qty q ns + held_units (ww_held w) q" for q
    unfolding held_units_def using sum_map_upd_new [OF fin p(2), of "qty q"] .
  show ?thesis
    using inv can le by (auto simp: stock_inv_def lines_ok_def all_units_def av held
        same_live [OF deduct_other(1)] add.assoc split: if_splits)
qed

lemma grant_inv:
  assumes inv: "stock_inv w" and h: "ww_held w rid = Some ns"
    and new: "newid \<notin> dom (inv_reservations (ww_inv w))"
    and cl: "reserve_close now newid rid ns None (ww_inv w) = (r, iv)"
  shows "stock_inv (w\<lparr>ww_inv := iv, ww_held := (ww_held w)(rid := None)\<rparr>)"
proof -
  note c = reserve_close_ok [OF cl]
  have can: "canonical ns" and fin: "finite (dom (ww_held w))"
    and fin': "finite (dom (inv_reservations (ww_inv w)))"
    using inv h by (auto simp: stock_inv_def lines_ok_def)
  have held: "held_units ((ww_held w)(rid := None)) q = held_units (ww_held w) q - qty q ns" for q
    unfolding held_units_def using sum_map_del [OF fin h, of "qty q"] .
  let ?r = "\<lparr>r_ID = newid, r_RequestID = rid, r_State = Reserved, r_Items = ns,
        r_CreatedAt = now, r_ExpiresAt = now + inv_ttl (ww_inv w)\<rparr>"
  have lv: "live iv q = qty q ns + live (ww_inv w) q" for q
    using live_add [OF fin', of newid ?r q] new c(3) same_live [of iv "ww_inv w\<lparr>inv_reservations := inv_reservations iv\<rparr>"]
    by (auto simp: res_units_def domIff)
  have "finite (dom ((ww_held w)(rid := None)))" using fin by simp
  then show ?thesis
    using inv can c(3) by (auto simp: stock_inv_def lines_ok_def all_units_def held lv
        same_stock [OF c(1,2)] c(2) add.assoc split: if_splits)
qed

lemma give_back_inv:
  assumes inv: "stock_inv w" and ow: "items \<in># ww_owed w"
  shows "stock_inv (w\<lparr>ww_inv := restore items (ww_inv w), ww_owed := ww_owed w - {#items#}\<rparr>)"
proof -
  obtain M where M: "ww_owed w = add_mset items M" using ow by (metis insert_DiffM)
  have can: "canonical items" and lo: "lines_ok w"
    using inv ow by (auto simp: stock_inv_def lines_ok_def)
  have owed: "owed_units (ww_owed w) q = qty q items + owed_units M q" for q
    by (simp add: owed_units_def M)
  have "lines_ok (w\<lparr>ww_owed := M\<rparr>)" using lo by (simp add: lines_ok_def M)
  from units_nonneg [OF this] have M0: "0 \<le> owed_units M q" for q by simp
  have le: "avail (ww_inv w) q + qty q items \<le> MaxInt" for q
    using inv units_nonneg [OF lo, of q] M0 [of q] owed [of q] by (auto simp: stock_inv_def all_units_def dest: spec [of _ q])
  have av: "avail (restore items (ww_inv w)) q = avail (ww_inv w) q + qty q items" for q
    using restore_avail [OF can] avail_bound(1) [OF inv] le by blast
  have "0 \<le> qty q items" for q using can by (rule canonical_qty)
  then show ?thesis
    using inv owed by (auto simp: stock_inv_def lines_ok_def all_units_def av M
        same_live [OF restore_other(1)] ac_simps)
qed


section \<open>Receipts\<close>

text \<open>
  Every claimed request has one open receipt and is either undecided or holding stock; a
  finished receipt without an error names the one reservation made for it; every reservation
  is named by the receipt of its request.
\<close>

definition open_receipt :: "(orders_Item list \<Rightarrow> 'd) \<Rightarrow> 'd Inventory \<Rightarrow> string \<Rightarrow> orders_Item list \<Rightarrow> bool" where
  "open_receipt fp iv rid ns \<longleftrightarrow>
     (\<exists>rc. inv_receipts iv rid = Some rc \<and> \<not> rc_done rc \<and> rc_digest rc = fp ns)"

definition granted :: "'d Inventory \<Rightarrow> string \<Rightarrow> string \<Rightarrow> bool" where
  "granted iv rid k \<longleftrightarrow>
     (\<exists>rc. inv_receipts iv rid = Some rc \<and> rc_done rc \<and> rc_err rc = None \<and> rc_reservationID rc = k)"

definition receipts_inv :: "(orders_Item list \<Rightarrow> 'd) \<Rightarrow> 'd wh_world \<Rightarrow> bool" where
  "receipts_inv fp w \<longleftrightarrow>
     (\<forall>rid ns. ww_pending w rid = Some ns \<longrightarrow> ww_held w rid = None \<and> open_receipt fp (ww_inv w) rid ns) \<and>
     (\<forall>rid ns. ww_held w rid = Some ns \<longrightarrow> ww_pending w rid = None \<and> open_receipt fp (ww_inv w) rid ns) \<and>
     (\<forall>rid rc. inv_receipts (ww_inv w) rid = Some rc \<and> rc_done rc \<and> rc_err rc = None \<longrightarrow>
        (\<exists>r. inv_reservations (ww_inv w) (rc_reservationID rc) = Some r \<and> r_RequestID r = rid \<and>
             rc_digest rc = fp (r_Items r))) \<and>
     (\<forall>k r. inv_reservations (ww_inv w) k = Some r \<longrightarrow> r_ID r = k \<and> granted (ww_inv w) (r_RequestID r) k)"

lemma receipts_invI:
  assumes "\<And>rid ns. ww_pending w rid = Some ns \<Longrightarrow> ww_held w rid = None \<and> open_receipt fp (ww_inv w) rid ns"
    and "\<And>rid ns. ww_held w rid = Some ns \<Longrightarrow> ww_pending w rid = None \<and> open_receipt fp (ww_inv w) rid ns"
    and "\<And>rid rc. inv_receipts (ww_inv w) rid = Some rc \<Longrightarrow> rc_done rc \<Longrightarrow> rc_err rc = None \<Longrightarrow>
        (\<exists>r. inv_reservations (ww_inv w) (rc_reservationID rc) = Some r \<and> r_RequestID r = rid \<and>
             rc_digest rc = fp (r_Items r))"
    and "\<And>k r. inv_reservations (ww_inv w) k = Some r \<Longrightarrow> r_ID r = k \<and> granted (ww_inv w) (r_RequestID r) k"
  shows "receipts_inv fp w"
  using assms unfolding receipts_inv_def by blast

lemma receipts_invD:
  assumes "receipts_inv fp w"
  shows "ww_pending w rid = Some ns \<Longrightarrow> ww_held w rid = None \<and> open_receipt fp (ww_inv w) rid ns"
    and "ww_held w rid = Some ns \<Longrightarrow> ww_pending w rid = None \<and> open_receipt fp (ww_inv w) rid ns"
    and "inv_receipts (ww_inv w) rid = Some rc \<Longrightarrow> rc_done rc \<Longrightarrow> rc_err rc = None \<Longrightarrow>
        (\<exists>r. inv_reservations (ww_inv w) (rc_reservationID rc) = Some r \<and> r_RequestID r = rid \<and>
             rc_digest rc = fp (r_Items r))"
    and "inv_reservations (ww_inv w) k = Some r \<Longrightarrow> r_ID r = k \<and> granted (ww_inv w) (r_RequestID r) k"
  using assms unfolding receipts_inv_def by blast+

lemma receipts_inv_cong:
  assumes "receipts_inv fp w" and "inv_reservations iv = inv_reservations (ww_inv w)"
    and "inv_receipts iv = inv_receipts (ww_inv w)"
  shows "receipts_inv fp (w\<lparr>ww_inv := iv, ww_owed := M\<rparr>)"
  using assms by (simp add: receipts_inv_def open_receipt_def granted_def)

lemma receipts_inv_state:
  assumes "receipts_inv fp w"
  shows "receipts_inv fp (w\<lparr>ww_inv := set_state k st (ww_inv w), ww_owed := M\<rparr>)"
proof (rule receipts_invI)
  fix rid rc
  assume "inv_receipts (ww_inv (w\<lparr>ww_inv := set_state k st (ww_inv w), ww_owed := M\<rparr>)) rid = Some rc"
    "rc_done rc" "rc_err rc = None"
  with receipts_invD(3) [OF assms, of rid rc] obtain r where
    "inv_reservations (ww_inv w) (rc_reservationID rc) = Some r" "r_RequestID r = rid"
    "rc_digest rc = fp (r_Items r)" by auto
  then show "\<exists>r. inv_reservations (ww_inv (w\<lparr>ww_inv := set_state k st (ww_inv w), ww_owed := M\<rparr>))
                (rc_reservationID rc) = Some r \<and> r_RequestID r = rid \<and> rc_digest rc = fp (r_Items r)"
    by (auto simp: set_state_def)
next
  fix j r
  assume "inv_reservations (ww_inv (w\<lparr>ww_inv := set_state k st (ww_inv w), ww_owed := M\<rparr>)) j = Some r"
  then show "r_ID r = j \<and> granted (ww_inv (w\<lparr>ww_inv := set_state k st (ww_inv w), ww_owed := M\<rparr>)) (r_RequestID r) j"
    using receipts_invD(4) [OF assms, of j]
    by (auto simp: granted_def dest!: set_state_reservation split: if_splits)
qed (use receipts_invD(1,2) [OF assms] in \<open>simp_all add: open_receipt_def\<close>)

lemma owed_upd_id: "w\<lparr>ww_inv := iv, ww_owed := ww_owed w\<rparr> = w\<lparr>ww_inv := iv\<rparr>"
  by (cases w) simp

lemma receipts_inv_sweep:
  "sweep_mark now ord (ww_inv w) = (stale, iv) \<Longrightarrow> receipts_inv fp w \<Longrightarrow>
   receipts_inv fp (w\<lparr>ww_inv := iv, ww_owed := M\<rparr>)"
proof (induction ord arbitrary: w stale)
  case Nil
  then show ?case using receipts_inv_cong [of fp w iv M] by simp
next
  case (Cons rid ord)
  show ?case
  proof (cases "is_stale now (ww_inv w) rid")
    case True
    let ?w = "w\<lparr>ww_inv := set_state rid Released (ww_inv w), ww_owed := ww_owed w\<rparr>"
    obtain stale' where "sweep_mark now ord (ww_inv ?w) = (stale', iv)"
      using Cons.prems(1) True by (auto simp: Let_def split: prod.splits)
    from Cons.IH [OF this receipts_inv_state [OF Cons.prems(2)]] show ?thesis by simp
  next
    case False
    with Cons show ?thesis by simp
  qed
qed

lemma receipts_inv_claim:
  assumes inv: "receipts_inv fp w" and op: "reserve_open fp rid ns (ww_inv w) = (Claims, iv)"
  shows "receipts_inv fp (w\<lparr>ww_inv := iv, ww_pending := (ww_pending w)(rid \<mapsto> ns)\<rparr>)"
proof -
  note c = reserve_open_other [OF op] and d = receipts_invD [OF inv]
  have held: "ww_held w rid = None" using d(2) [of rid] c(4) by (cases "ww_held w rid") (auto simp: open_receipt_def)
  show ?thesis
  proof (rule receipts_invI)
    fix j xs assume "ww_pending (w\<lparr>ww_inv := iv, ww_pending := (ww_pending w)(rid \<mapsto> ns)\<rparr>) j = Some xs"
    then show "ww_held (w\<lparr>ww_inv := iv, ww_pending := (ww_pending w)(rid \<mapsto> ns)\<rparr>) j = None \<and>
        open_receipt fp (ww_inv (w\<lparr>ww_inv := iv, ww_pending := (ww_pending w)(rid \<mapsto> ns)\<rparr>)) j xs"
      using held d(1) [of j xs] by (auto simp: open_receipt_def c(5) split: if_splits)
  next
    fix j xs assume "ww_held (w\<lparr>ww_inv := iv, ww_pending := (ww_pending w)(rid \<mapsto> ns)\<rparr>) j = Some xs"
    then show "ww_pending (w\<lparr>ww_inv := iv, ww_pending := (ww_pending w)(rid \<mapsto> ns)\<rparr>) j = None \<and>
        open_receipt fp (ww_inv (w\<lparr>ww_inv := iv, ww_pending := (ww_pending w)(rid \<mapsto> ns)\<rparr>)) j xs"
      using held d(2) [of j xs] by (auto simp: open_receipt_def c(5) split: if_splits)
  next
    fix k r assume "inv_reservations (ww_inv (w\<lparr>ww_inv := iv, ww_pending := (ww_pending w)(rid \<mapsto> ns)\<rparr>)) k = Some r"
    then show "r_ID r = k \<and> granted (ww_inv (w\<lparr>ww_inv := iv, ww_pending := (ww_pending w)(rid \<mapsto> ns)\<rparr>)) (r_RequestID r) k"
      using d(4) [of k r] c(4) by (auto simp: granted_def c(2,5))
  qed (use d(3) in \<open>auto simp: c(2,5) split: if_splits\<close>)
qed

text \<open>Closing a receipt: what the two outcomes have in common.\<close>

lemma receipts_inv_close:
  assumes inv: "receipts_inv fp w" and op: "open_receipt fp (ww_inv w) rid ns"
    and rcs: "inv_receipts iv = (inv_receipts (ww_inv w))(rid \<mapsto> rc')" and rc': "rc_done rc'"
    and grows: "\<And>k r. inv_reservations (ww_inv w) k = Some r \<Longrightarrow> inv_reservations iv k = Some r"
    and new: "\<And>k r. inv_reservations iv k = Some r \<Longrightarrow> inv_reservations (ww_inv w) k = Some r \<or>
                r_ID r = k \<and> r_RequestID r = rid \<and> rc_err rc' = None \<and> rc_reservationID rc' = k"
    and ok: "rc_err rc' = None \<Longrightarrow> \<exists>r. inv_reservations iv (rc_reservationID rc') = Some r \<and>
                r_RequestID r = rid \<and> rc_digest rc' = fp (r_Items r)"
    and pend: "P \<subseteq>\<^sub>m ww_pending w" "P rid = None" and held: "K \<subseteq>\<^sub>m ww_held w" "K rid = None"
  shows "receipts_inv fp (w\<lparr>ww_inv := iv, ww_pending := P, ww_held := K\<rparr>)"
proof -
  note d = receipts_invD [OF inv]
  have sub: "ww_pending w j = Some xs" if "P j = Some xs" for j xs
    using that pend(1) by (metis domI map_le_def)
  have sub': "ww_held w j = Some xs" if "K j = Some xs" for j xs
    using that held(1) by (metis domI map_le_def)
  have none: "P j = None" if "ww_pending w j = None" for j using that sub by (cases "P j") auto
  have none': "K j = None" if "ww_held w j = None" for j using that sub' by (cases "K j") auto
  have keep: "open_receipt fp iv j xs" if "open_receipt fp (ww_inv w) j xs" "j \<noteq> rid" for j xs
    using that by (simp add: open_receipt_def rcs)
  have other: "r_RequestID r \<noteq> rid" if "inv_reservations (ww_inv w) k = Some r" for k r
    using d(4) [OF that] op by (auto simp: granted_def open_receipt_def)
  show ?thesis
  proof (rule receipts_invI, simp_all)
    show "K j = None \<and> open_receipt fp iv j xs" if "P j = Some xs" for j xs
      using d(1) [OF sub [OF that]] none' keep that pend(2) by (cases "j = rid") auto
    show "P j = None \<and> open_receipt fp iv j xs" if "K j = Some xs" for j xs
      using d(2) [OF sub' [OF that]] none keep that held(2) by (cases "j = rid") auto
    show "\<exists>r. inv_reservations iv (rc_reservationID rc) = Some r \<and> r_RequestID r = j \<and> rc_digest rc = fp (r_Items r)"
      if "inv_receipts iv j = Some rc" "rc_done rc" "rc_err rc = None" for j rc
      using that d(3) [of j rc] ok grows by (cases "j = rid") (auto simp: rcs)
    show "r_ID r = k \<and> granted iv (r_RequestID r) k" if "inv_reservations iv k = Some r" for k r
      using new [OF that] d(4) [of k r] other [of k r] rc' by (auto simp: granted_def rcs)
  qed
qed

lemma receipts_inv_fail:
  assumes inv: "receipts_inv fp w" and p: "ww_pending w rid = Some ns"
    and cl: "reserve_close now newid rid ns (Some err) (ww_inv w) = (r, iv)"
  shows "receipts_inv fp (w\<lparr>ww_inv := iv, ww_pending := (ww_pending w)(rid := None)\<rparr>)"
proof -
  have op: "open_receipt fp (ww_inv w) rid ns" and h: "ww_held w rid = None"
    using receipts_invD(1) [OF inv p] by auto
  obtain rc where rc: "inv_receipts (ww_inv w) rid = Some rc" using op by (auto simp: open_receipt_def)
  have iv: "inv_receipts iv = (inv_receipts (ww_inv w))(rid \<mapsto>
        rc\<lparr>rc_err := Some err, rc_done := True, rc_reservationID := ''''\<rparr>)"
    using cl rc by (auto simp: reserve_close_def Let_def)
  from receipts_inv_close [OF inv op iv, of "(ww_pending w)(rid := None)" "ww_held w"]
  show ?thesis using h reserve_close_err [OF cl] by (simp add: map_le_def)
qed

lemma receipts_inv_grant:
  assumes inv: "receipts_inv fp w" and h: "ww_held w rid = Some ns"
    and new: "newid \<notin> dom (inv_reservations (ww_inv w))"
    and cl: "reserve_close now newid rid ns None (ww_inv w) = (r, iv)"
  shows "receipts_inv fp (w\<lparr>ww_inv := iv, ww_held := (ww_held w)(rid := None)\<rparr>)"
proof -
  have op: "open_receipt fp (ww_inv w) rid ns" and p: "ww_pending w rid = None"
    using receipts_invD(2) [OF inv h] by auto
  obtain rc where rc: "inv_receipts (ww_inv w) rid = Some rc" "rc_digest rc = fp ns"
    using op by (auto simp: open_receipt_def)
  have iv: "inv_receipts iv = (inv_receipts (ww_inv w))(rid \<mapsto>
        rc\<lparr>rc_err := None, rc_done := True, rc_reservationID := newid\<rparr>)"
    using cl rc(1) by (auto simp: reserve_close_def Let_def)
  note res = reserve_close_ok(3) [OF cl]
  have none: "inv_reservations (ww_inv w) newid = None" using new by blast
  have "receipts_inv fp (w\<lparr>ww_inv := iv, ww_pending := ww_pending w, ww_held := (ww_held w)(rid := None)\<rparr>)"
    by (rule receipts_inv_close [OF inv op iv])
      (use p rc(2) none in \<open>auto simp: map_le_def res split: if_splits\<close>)
  then show ?thesis by simp
qed


section \<open>Invariance\<close>

lemma release_mark_cases:
  assumes "release_mark k iv = (Some items, iv')"
  obtains r where "inv_reservations iv k = Some r" "r_State r = Reserved" "items = r_Items r"
    "iv' = set_state k Released iv"
  using assms by (auto simp: release_mark_def split: option.splits if_splits)

lemma ship_mark_cases:
  assumes "ship_mark now k ns iv = ((out, owed), iv')"
  obtains (none) "owed = None" "iv' = iv" "out \<noteq> ShipCompleted"
      "case inv_reservations iv k of None \<Rightarrow> out = ShipRejected
       | Some r \<Rightarrow> (if \<not> sameItems (r_Items r) ns \<or> r_State r = Released then out = ShipRejected
                    else r_State r = Committed \<and> out = ShipDuplicate)"
  | (expired) r where "inv_reservations iv k = Some r" "r_State r = Reserved" "owed = Some (r_Items r)"
      "iv' = set_state k Released iv" "out = ShipRejected"
  | (shipped) r where "inv_reservations iv k = Some r" "r_State r = Reserved" "owed = None"
      "iv' = set_state k Committed iv" "out = ShipCompleted" "r_Items r = ns" "now < r_ExpiresAt r"
  using assms by (cases "inv_reservations iv k"; cases "r_State (the (inv_reservations iv k))")
    (auto simp: ship_mark_def split: if_splits)

definition wh_inv :: "(orders_Item list \<Rightarrow> 'd) \<Rightarrow> 'd wh_world \<Rightarrow> bool" where
  "wh_inv fp w \<longleftrightarrow> stock_inv w \<and> receipts_inv fp w"

lemma stock_inv_step:
  assumes "wh_step fp w w'" and inv: "stock_inv w" and rcs: "receipts_inv fp w"
  shows "stock_inv w'"
  using assms(1)
proof cases
  case (claim items ns rid iv)
  note c = reserve_open_other [OF claim(3)]
  have "stock_inv (w\<lparr>ww_inv := iv\<rparr>)"
    using stock_inv_cong [OF inv same_stock [OF c(1,3)] c(2,3)] .
  with claim normalize_ok(1) [OF claim(2)] show ?thesis
    by (auto simp: stock_inv_def lines_ok_def all_units_def)
next
  case (take rid ns)
  with inv receipts_invD(1) [OF rcs take(2)] show ?thesis by (simp add: take_inv)
next
  case (fail rid ns now newid err r iv)
  note c = reserve_close_err [OF fail(3)]
  have "stock_inv (w\<lparr>ww_inv := iv\<rparr>)"
    using stock_inv_cong [OF inv same_stock [OF c(1,3)] c(2,3)] .
  with fail show ?thesis by (auto simp: stock_inv_def lines_ok_def all_units_def)
next
  case (grant rid ns newid now r iv)
  with inv show ?thesis by (simp add: grant_inv)
next
  case (release k items iv)
  then show ?thesis using inv by (auto elim!: release_mark_cases intro!: mark_released)
next
  case (ship now k ns out owed iv)
  from ship(2) show ?thesis
  proof (cases rule: ship_mark_cases)
    case none
    with ship inv show ?thesis by (cases w) simp
  next
    case (expired r)
    with ship mark_released [OF inv expired(1)] show ?thesis by simp
  next
    case (shipped r)
    with ship mark_committed [OF inv shipped(1)] show ?thesis by simp
  qed
next
  case (sweep now ord stale iv)
  with inv show ?thesis by (simp add: sweep_mark_inv)
next
  case (give_back items)
  with inv show ?thesis by (simp add: give_back_inv)
next
  case (look p)
  then show ?thesis
    using stock_inv_cong [OF inv, of "counter p (ww_inv w)"] by (simp add: fun_eq_iff)
next
  case (count iv)
  then show ?thesis
    using stock_inv_cong [OF inv same_stock] by (simp add: same_but_counters_def)
qed

lemma receipts_inv_step:
  assumes "wh_step fp w w'" and inv: "receipts_inv fp w"
  shows "receipts_inv fp w'"
  using assms(1)
proof cases
  case (claim items ns rid iv)
  with inv show ?thesis by (simp add: receipts_inv_claim)
next
  case (take rid ns)
  with receipts_invD [OF inv] receipts_invD(1) [OF inv take(2)] show ?thesis
    by (intro receipts_invI) (auto simp: open_receipt_def granted_def split: if_splits)
next
  case (fail rid ns now newid err r iv)
  with inv show ?thesis by (simp add: receipts_inv_fail)
next
  case (grant rid ns newid now r iv)
  with inv show ?thesis by (simp add: receipts_inv_grant)
next
  case (release k items iv)
  then show ?thesis using inv by (auto elim!: release_mark_cases intro!: receipts_inv_state)
next
  case (ship now k ns out owed iv)
  from ship(2) show ?thesis
    using ship(1) inv receipts_inv_cong [of fp w "ww_inv w"]
      receipts_inv_state [OF inv, where k = k and st = Committed and M = "ww_owed w"] owed_upd_id [of w]
    by (cases rule: ship_mark_cases) (simp_all add: receipts_inv_state)
next
  case (sweep now ord stale iv)
  with inv show ?thesis by (simp add: receipts_inv_sweep)
next
  case (give_back items)
  with receipts_inv_cong [OF inv] show ?thesis by simp
next
  case (look p)
  with receipts_inv_cong [OF inv, of _ "ww_owed w"] show ?thesis by (cases w) simp
next
  case (count iv)
  with receipts_inv_cong [OF inv, of iv "ww_owed w"] show ?thesis
    by (cases w) (simp add: same_but_counters_def)
qed

interpretation wh: invariant_system
  "\<lambda>w. \<exists>initial ttl. initial \<le> MaxInt \<and> w = wh_init initial ttl" "wh_step fp" "wh_inv fp" for fp
proof
  show "wh_inv fp w" if "\<exists>initial ttl. initial \<le> MaxInt \<and> w = wh_init initial ttl" for w
    using that by (auto simp: wh_inv_def stock_inv_def lines_ok_def all_units_def wh_init_def
        receipts_inv_def stock_of_def live_def held_units_def owed_units_def New_def MaxInt_def)
  show "wh_inv fp w'" if "wh_inv fp w" "wh_step fp w w'" for w w'
    using that stock_inv_step receipts_inv_step by (auto simp: wh_inv_def)
qed


text \<open>
  C5. Stock is conserved under every interleaving of reservations, releases, shipments and
  sweeps: for each product the units available, held or shipped by a reservation, taken by a
  request in flight, and on their way back always add up to the initial stock, and the units
  available never fall below zero or exceed it. Nothing is oversold and no expired or released
  hold is given back twice.
\<close>

theorem inventory_conserved:
  assumes "initial \<le> MaxInt" and "(wh_step fp)\<^sup>*\<^sup>* (wh_init initial ttl) w"
  shows "0 \<le> avail (ww_inv w) p \<and> avail (ww_inv w) p \<le> max initial 0 \<and>
         avail (ww_inv w) p + live (ww_inv w) p + held_units (ww_held w) p + owed_units (ww_owed w) p
           = max initial 0"
proof -
  have inv: "stock_inv w"
    using wh.reachable_inv [of "wh_init initial ttl" fp w] assms by (auto simp: wh_inv_def)
  have keep: "inv_initial (ww_inv w') = inv_initial (ww_inv w)" if "wh_step fp w w'" for w w'
    using that
  proof cases
    case (claim items ns rid iv)
    then show ?thesis using reserve_open_other(3) [OF claim(3)] by simp
  next
    case (fail rid ns now newid err r iv)
    then show ?thesis using reserve_close_err(3) [OF fail(3)] by simp
  next
    case (grant rid ns newid now r iv)
    then show ?thesis using reserve_close_ok(2) [OF grant(4)] by simp
  next
    case (sweep now ord stale iv)
    have "inv_initial iv = inv_initial iv0" if "sweep_mark now ord iv0 = (stale, iv)" for iv0 stale
      using that by (induction ord arbitrary: iv0 stale) (auto simp: Let_def split: if_splits prod.splits)
    with sweep show ?thesis by simp
  qed (auto simp: same_but_counters_def elim!: release_mark_cases ship_mark_cases)
  have "inv_initial (ww_inv w) = max initial 0"
    using assms(2) by (induction rule: rtranclp_induct) (auto simp: wh_init_def New_def dest: keep)
  with inv avail_bound(2) [OF inv, of p] show ?thesis
    by (simp add: stock_inv_def all_units_def)
qed

definition demo_world :: "orders_Item list wh_world" where
  "demo_world = (let w0 = wh_init 100 0; ns = demo_items
                 in w0\<lparr>ww_inv := snd (reserve_open id ''r1'' ns (ww_inv w0)), ww_pending := [''r1'' \<mapsto> ns]\<rparr>)"

lemma normalize_demo_items: "normalize demo_items = Inr demo_items"
  by (simp add: normalize_def demo_items_def Let_def MaxInt_def MinInt_def wrap64_def)

lemma demo_world_reachable:
  "(wh_step id)\<^sup>*\<^sup>* (wh_init 100 0) (demo_world\<lparr>ww_inv := deduct demo_items (ww_inv demo_world),
     ww_pending := (ww_pending demo_world)(''r1'' := None), ww_held := (ww_held demo_world)(''r1'' \<mapsto> demo_items)\<rparr>)"
proof -
  have "wh_step id (wh_init 100 0) demo_world"
    using claim [OF normalize_demo_items, of id "''r1''" "wh_init 100 0"]
    by (simp add: demo_world_def wh_init_def New_def reserve_open_def Let_def)
  moreover have "short_item demo_items (ww_inv demo_world) = None"
    by (simp add: short_item_def demo_items_def demo_world_def wh_init_def New_def reserve_open_def stock_of_def Let_def)
  then have "wh_step id demo_world (demo_world\<lparr>ww_inv := deduct demo_items (ww_inv demo_world),
     ww_pending := (ww_pending demo_world)(''r1'' := None), ww_held := (ww_held demo_world)(''r1'' \<mapsto> demo_items)\<rparr>)"
    by (intro take) (simp_all add: demo_world_def Let_def)
  ultimately show ?thesis by (meson converse_rtranclp_into_rtranclp r_into_rtranclp)
qed

theorem inventory_conserved_witness:
  "avail (deduct demo_items (ww_inv demo_world)) ''p1'' + live (deduct demo_items (ww_inv demo_world)) ''p1''
     + held_units [''r1'' \<mapsto> demo_items] ''p1'' = 100"
  using inventory_conserved [OF _ demo_world_reachable, of "''p1''"]
  by (simp add: MaxInt_def demo_world_def wh_init_def owed_units_def Let_def)

text \<open>
  C15. One request, one reservation. In every reachable state two reservations made under the
  same request id are the same reservation, and the receipt of a request that succeeded leads a
  repeated request to it: the replay never dereferences a missing reservation, and returns one
  whose lines have the digest of the request.
\<close>

theorem one_reservation_per_request:
  assumes "initial \<le> MaxInt" and "(wh_step fp)\<^sup>*\<^sup>* (wh_init initial ttl) w"
  shows "(\<forall>k r k' r'. inv_reservations (ww_inv w) k = Some r \<and> inv_reservations (ww_inv w) k' = Some r' \<and>
            r_RequestID r = r_RequestID r' \<longrightarrow> k = k' \<and> r = r') \<and>
         (\<forall>rid rc. inv_receipts (ww_inv w) rid = Some rc \<and> rc_done rc \<and> rc_err rc = None \<longrightarrow>
            (\<exists>r. replay_receipt rid (ww_inv w) = Some (Inr r) \<and> r_RequestID r = rid \<and>
                 rc_digest rc = fp (r_Items r)))"
proof -
  have inv: "receipts_inv fp w"
    using wh.reachable_inv [of "wh_init initial ttl" fp w] assms by (auto simp: wh_inv_def)
  note d = receipts_invD [OF inv]
  have "k = k' \<and> r = r'" if "inv_reservations (ww_inv w) k = Some r" "inv_reservations (ww_inv w) k' = Some r'"
    "r_RequestID r = r_RequestID r'" for k r k' r'
  proof -
    have "k = k'" using d(4) [OF that(1)] d(4) [OF that(2)] that(3) by (auto simp: granted_def)
    with that show ?thesis by simp
  qed
  moreover have "\<exists>r. replay_receipt rid (ww_inv w) = Some (Inr r) \<and> r_RequestID r = rid \<and> rc_digest rc = fp (r_Items r)"
    if "inv_receipts (ww_inv w) rid = Some rc" "rc_done rc" "rc_err rc = None" for rid rc
    using d(3) [OF that] that by (auto simp: replay_receipt_def)
  ultimately show ?thesis by blast
qed

lemma demo_grant_reachable:
  "\<exists>w r. (wh_step id)\<^sup>*\<^sup>* (wh_init 100 0) w \<and> inv_reservations (ww_inv w) ''res-1'' = Some r \<and>
     r_State r = Reserved \<and> r_RequestID r = ''r1'' \<and> r_Items r = demo_items \<and>
     (\<exists>rc. inv_receipts (ww_inv w) ''r1'' = Some rc \<and> rc_done rc \<and> rc_err rc = None)"
proof -
  let ?w = "demo_world\<lparr>ww_inv := deduct demo_items (ww_inv demo_world),
     ww_pending := (ww_pending demo_world)(''r1'' := None), ww_held := (ww_held demo_world)(''r1'' \<mapsto> demo_items)\<rparr>"
  obtain r iv where c: "reserve_close 0 ''res-1'' ''r1'' demo_items None (ww_inv ?w) = (r, iv)" by force
  have "''res-1'' \<notin> dom (inv_reservations (ww_inv ?w))"
    by (simp add: demo_world_def wh_init_def New_def reserve_open_def Let_def)
  then have "wh_step id ?w (?w\<lparr>ww_inv := iv, ww_held := (ww_held ?w)(''r1'' := None)\<rparr>)"
    by (intro grant [OF _ _ c]) simp_all
  with demo_world_reachable have "(wh_step id)\<^sup>*\<^sup>* (wh_init 100 0) (?w\<lparr>ww_inv := iv, ww_held := (ww_held ?w)(''r1'' := None)\<rparr>)"
    by (rule rtranclp.rtrancl_into_rtrancl)
  moreover have "inv_reservations iv ''res-1'' = Some \<lparr>r_ID = ''res-1'', r_RequestID = ''r1'', r_State = Reserved,
      r_Items = demo_items, r_CreatedAt = 0, r_ExpiresAt = 0 + inv_ttl (ww_inv ?w)\<rparr>"
    using reserve_close_ok(3) [OF c] by simp
  moreover have "\<exists>rc. inv_receipts iv ''r1'' = Some rc \<and> rc_done rc \<and> rc_err rc = None"
    using c by (auto simp: reserve_close_def Let_def demo_world_def wh_init_def New_def reserve_open_def)
  ultimately show ?thesis
    by (intro exI [of _ "?w\<lparr>ww_inv := iv, ww_held := (ww_held ?w)(''r1'' := None)\<rparr>"]) simp
qed

theorem one_reservation_per_request_witness:
  "\<exists>w r. (wh_step id)\<^sup>*\<^sup>* (wh_init 100 0) w \<and> replay_receipt ''r1'' (ww_inv w) = Some (Inr r) \<and> r_RequestID r = ''r1''"
proof -
  obtain w where w: "(wh_step id)\<^sup>*\<^sup>* (wh_init 100 0) w"
      "\<exists>rc. inv_receipts (ww_inv w) ''r1'' = Some rc \<and> rc_done rc \<and> rc_err rc = None"
    using demo_grant_reachable by blast
  from one_reservation_per_request [OF _ w(1)] w show ?thesis by (fastforce simp: MaxInt_def)
qed


section \<open>The lifecycle of a reservation\<close>

text \<open>How one reservation may change: not at all, or from reserved to a terminal state.\<close>

definition evolves :: "Reservation \<Rightarrow> Reservation \<Rightarrow> bool" where
  "evolves r r' \<longleftrightarrow> r' = r \<or> r_State r = Reserved \<and> (\<exists>st. st \<noteq> Reserved \<and> r' = r\<lparr>r_State := st\<rparr>)"

definition res_evolve :: "'d Inventory \<Rightarrow> 'd Inventory \<Rightarrow> bool" where
  "res_evolve iv iv' \<longleftrightarrow>
     (\<forall>k r. inv_reservations iv k = Some r \<longrightarrow> (\<exists>r'. inv_reservations iv' k = Some r' \<and> evolves r r'))"

lemma evolves_trans: "evolves a b \<Longrightarrow> evolves b c \<Longrightarrow> evolves a c"
  by (auto simp: evolves_def)

lemma res_evolve_trans: "res_evolve a b \<Longrightarrow> res_evolve b c \<Longrightarrow> res_evolve a c"
  unfolding res_evolve_def using evolves_trans by meson

lemma res_evolve_same: "inv_reservations iv' = inv_reservations iv \<Longrightarrow> res_evolve iv iv'"
  by (simp add: res_evolve_def evolves_def)

lemma res_evolve_set_state:
  assumes "inv_reservations iv k = Some r" and "r_State r = Reserved" and "st \<noteq> Reserved"
  shows "res_evolve iv (set_state k st iv)"
  using assms by (auto simp: res_evolve_def evolves_def set_state_def)

lemma res_evolve_sweep: "sweep_mark now ord iv = (stale, iv') \<Longrightarrow> res_evolve iv iv'"
proof (induction ord arbitrary: iv stale)
  case (Cons rid ord)
  show ?case
  proof (cases "is_stale now iv rid")
    case True
    then obtain r where "inv_reservations iv rid = Some r" "r_State r = Reserved"
      by (auto simp: is_stale_def split: option.splits)
    then have "res_evolve iv (set_state rid Released iv)" by (rule res_evolve_set_state) simp
    moreover have "res_evolve (set_state rid Released iv) iv'"
      using Cons.prems True by (auto simp: Let_def split: prod.splits intro: Cons.IH)
    ultimately show ?thesis by (rule res_evolve_trans)
  next
    case False
    with Cons show ?thesis by simp
  qed
qed (simp add: res_evolve_same)

lemma res_evolve_step: "wh_step fp w w' \<Longrightarrow> res_evolve (ww_inv w) (ww_inv w')"
proof (induction rule: wh_step.induct)
  case (claim items ns rid w iv)
  then show ?case using reserve_open_other(2) [OF claim(2)] by (simp add: res_evolve_same)
next
  case (fail w rid ns now newid err r iv)
  then show ?case using reserve_close_err(2) [OF fail(2)] by (simp add: res_evolve_same)
next
  case (grant w rid ns newid now r iv)
  then show ?case using reserve_close_ok(3) [OF grant(3)] by (auto simp: res_evolve_def evolves_def domIff)
next
  case (release k w items iv)
  then show ?case by (auto elim!: release_mark_cases intro!: res_evolve_set_state)
next
  case (ship now k ns w out owed iv)
  from this show ?case
    by (cases rule: ship_mark_cases) (simp_all add: res_evolve_same res_evolve_set_state)
next
  case (sweep now ord w stale iv)
  then show ?case by (simp add: res_evolve_sweep)
qed (simp_all add: res_evolve_same same_but_counters_def)

text \<open>
  A reservation is never forgotten and its terminal state is final: along every
  interleaving its lines and identity never change, and once committed it stays committed, once
  released it stays released.
\<close>

lemma reservation_terminal:
  assumes "(wh_step fp)\<^sup>*\<^sup>* w w'" and "inv_reservations (ww_inv w) k = Some r"
  shows "\<exists>r'. inv_reservations (ww_inv w') k = Some r' \<and> r_Items r' = r_Items r \<and>
              r_RequestID r' = r_RequestID r \<and> r_ExpiresAt r' = r_ExpiresAt r \<and>
              (r_State r \<noteq> Reserved \<longrightarrow> r_State r' = r_State r)"
proof -
  have "res_evolve (ww_inv w) (ww_inv w')"
    using assms(1)
    by (induction rule: rtranclp_induct) (auto intro: res_evolve_same res_evolve_trans res_evolve_step)
  with assms(2) show ?thesis by (fastforce simp: res_evolve_def evolves_def)
qed

lemma reservation_terminal_witness:
  "\<exists>(w :: orders_Item list wh_world) r'. inv_reservations (ww_inv (w\<lparr>ww_inv := counter ''p9'' (ww_inv w)\<rparr>)) ''res-1'' = Some r' \<and>
     r_Items r' = demo_items"
proof -
  obtain w r where w: "(wh_step id)\<^sup>*\<^sup>* (wh_init 100 0) w" "inv_reservations (ww_inv w) ''res-1'' = Some r"
      "r_Items r = demo_items"
    using demo_grant_reachable by blast
  have "(wh_step id)\<^sup>*\<^sup>* w (w\<lparr>ww_inv := counter ''p9'' (ww_inv w)\<rparr>)" by (rule r_into_rtranclp) (rule look)
  from reservation_terminal [OF this w(2)] w(3) show ?thesis by auto
qed

section \<open>The methods are runs of the step relation\<close>

definition idle :: "'d Inventory \<Rightarrow> 'd wh_world" where
  "idle iv = \<lparr>ww_inv = iv, ww_pending = Map.empty, ww_held = Map.empty, ww_owed = {#}\<rparr>"

lemma idle_count: "same_but_counters iv iv' \<Longrightarrow> wh_step fp (idle iv) (idle iv')"
  using count [of "idle iv" iv' fp] by (simp add: idle_def)

lemma restore_run:
  "(wh_step fp)\<^sup>*\<^sup>* (idle iv\<lparr>ww_owed := mset stale\<rparr>) (idle (fold restore stale iv))"
proof (induction stale arbitrary: iv)
  case Nil
  show ?case by (simp add: idle_def)
next
  case (Cons items stale)
  have "wh_step fp (idle iv\<lparr>ww_owed := mset (items # stale)\<rparr>) (idle (restore items iv)\<lparr>ww_owed := mset stale\<rparr>)"
    using give_back [of items "idle iv\<lparr>ww_owed := mset (items # stale)\<rparr>" fp] by (simp add: idle_def)
  with Cons.IH [of "restore items iv"] show ?case by (simp add: converse_rtranclp_into_rtranclp)
qed

lemma Release_run: "(wh_step fp)\<^sup>*\<^sup>* (idle iv) (idle (snd (Release k iv)))"
proof (cases "release_mark k iv")
  case (Pair o1 iv1)
  show ?thesis
  proof (cases o1)
    case None
    with Pair have "snd (Release k iv) = iv"
      by (auto simp: Release_def release_mark_def split: option.splits if_splits)
    then show ?thesis by simp
  next
    case (Some items)
    have "wh_step fp (idle iv) (idle iv1\<lparr>ww_owed := mset [items]\<rparr>)"
      using release [of k "idle iv" items iv1 fp] Pair Some by (simp add: idle_def)
    moreover have "same_but_counters (restore items iv1) (snd (Release k iv))"
      using Pair Some by (simp add: Release_def Let_def same_but_counters_def)
    then have "wh_step fp (idle (fold restore [items] iv1)) (idle (snd (Release k iv)))"
      by (simp add: idle_count)
    ultimately show ?thesis using restore_run [where fp = fp and iv = iv1 and stale = "[items]"] by (meson rtranclp.simps converse_rtranclp_into_rtranclp)
  qed
qed

lemma Sweep_run: "(wh_step fp)\<^sup>*\<^sup>* (idle iv) (idle (snd (Sweep now ord iv)))"
proof -
  obtain stale iv1 where sm: "sweep_mark now ord iv = (stale, iv1)" by force
  have "wh_step fp (idle iv) (idle iv1\<lparr>ww_owed := mset stale\<rparr>)"
    using sweep [of now ord "idle iv" stale iv1 fp] sm by (simp add: idle_def)
  moreover have "wh_step fp (idle (fold restore stale iv1)) (idle (snd (Sweep now ord iv)))"
    using sm by (intro idle_count) (simp add: Sweep_def Let_def same_but_counters_def)
  ultimately show ?thesis using restore_run [where fp = fp and iv = iv1 and stale = stale]
    by (meson rtranclp.simps converse_rtranclp_into_rtranclp)
qed


lemma Ship_run: "(wh_step fp)\<^sup>*\<^sup>* (idle iv) (idle (snd (Ship now k items iv)))"
proof (cases "normalize items")
  case (Inl err)
  then have "wh_step fp (idle iv) (idle (snd (Ship now k items iv)))"
    by (intro idle_count) (simp add: Ship_def same_but_counters_def)
  then show ?thesis by simp
next
  case (Inr ns)
  obtain out owed iv1 where sm: "ship_mark now k ns iv = ((out, owed), iv1)" by (metis surj_pair)
  let ?stale = "case owed of None \<Rightarrow> [] | Some its \<Rightarrow> [its]"
  have "wh_step fp (idle iv) (idle iv1\<lparr>ww_owed := mset ?stale\<rparr>)"
    using ship [of now k ns "idle iv" out owed iv1 fp] sm by (cases owed) (simp_all add: idle_def)
  moreover have "same_but_counters (fold restore ?stale iv1) (snd (Ship now k items iv))"
    using sm
    by (cases rule: ship_mark_cases [OF sm])
      (auto simp: Ship_def Inr Let_def same_but_counters_def split: ShipOutcome.split)
  then have "wh_step fp (idle (fold restore ?stale iv1)) (idle (snd (Ship now k items iv)))"
    by (rule idle_count)
  ultimately show ?thesis using restore_run [where fp = fp and iv = iv1 and stale = ?stale]
    by (meson rtranclp.simps converse_rtranclp_into_rtranclp)
qed

lemma counters_run:
  "(wh_step fp)\<^sup>*\<^sup>* w (w\<lparr>ww_inv := fold (\<lambda>it. counter (o_ProductID it)) items (ww_inv w)\<rparr>)"
proof (induction items arbitrary: w)
  case (Cons it items)
  let ?w = "w\<lparr>ww_inv := counter (o_ProductID it) (ww_inv w)\<rparr>"
  from Cons.IH [of ?w] look [of fp w "o_ProductID it"] show ?case
    by (simp add: converse_rtranclp_into_rtranclp)
qed simp

lemma Reserve_run:
  assumes "newid \<notin> dom (inv_reservations iv)"
  shows "(wh_step fp)\<^sup>*\<^sup>* (idle iv) (idle (snd (ReserveWithRequestID fp now newid (\<lambda>k i. id) rid items iv)))"
proof (cases "valid_request_id rid = None \<and> (\<exists>ns. normalize items = Inr ns) \<and> inv_receipts iv rid = None")
  case False
  then have "snd (ReserveWithRequestID fp now newid (\<lambda>k i. id) rid items iv) = iv"
    by (auto simp: ReserveWithRequestID_def reserve_open_def split: option.splits sum.splits)
  then show ?thesis by simp
next
  case True
  then obtain ns where ns: "normalize items = Inr ns" by blast
  obtain iv1 where op: "reserve_open fp rid ns iv = (Claims, iv1)" using True by (simp add: reserve_open_def)
  let ?iv2 = "fold (\<lambda>it. counter (o_ProductID it)) ns iv1"
  let ?pend = "idle ?iv2\<lparr>ww_pending := [rid \<mapsto> ns]\<rparr>"
  have "wh_step fp (idle iv) (idle iv1\<lparr>ww_pending := [rid \<mapsto> ns]\<rparr>)"
    using claim [OF ns, of fp rid "idle iv" iv1] op by (simp add: idle_def)
  moreover have "(wh_step fp)\<^sup>*\<^sup>* (idle iv1\<lparr>ww_pending := [rid \<mapsto> ns]\<rparr>) ?pend"
    using counters_run [of fp "idle iv1\<lparr>ww_pending := [rid \<mapsto> ns]\<rparr>" ns] by (simp add: idle_def)
  ultimately have start: "(wh_step fp)\<^sup>*\<^sup>* (idle iv) ?pend" by (meson converse_rtranclp_into_rtranclp)
  obtain err iv3 where dec: "stock_decision ns ?iv2 = (err, iv3)" by force
  obtain r iv4 where cl: "reserve_close now newid rid ns err iv3 = (r, iv4)" by force
  have fin: "snd (ReserveWithRequestID fp now newid (\<lambda>k i. id) rid items iv) = iv4"
    using True ns op dec cl by (simp add: ReserveWithRequestID_def reserveStock_quiet)
  show ?thesis
  proof (cases err)
    case (Some e)
    with dec have "iv3 = ?iv2" by (auto simp: stock_decision_def split: option.splits)
    with Some cl fail [of ?pend rid ns now newid e r iv4 fp] have "wh_step fp ?pend (idle iv4)"
      by (simp add: idle_def)
    with start show ?thesis by (simp add: fin)
  next
    case None
    with dec have d: "short_item ns ?iv2 = None" "iv3 = deduct ns ?iv2"
      by (auto simp: stock_decision_def split: option.splits)
    have "wh_step fp ?pend (idle iv3\<lparr>ww_held := [rid \<mapsto> ns]\<rparr>)"
      using take [of ?pend rid ns fp] d by (simp add: idle_def)
    moreover have "newid \<notin> dom (inv_reservations iv3)"
      using assms reserve_open_other(2) [OF op] d(2) by simp
    then have "wh_step fp (idle iv3\<lparr>ww_held := [rid \<mapsto> ns]\<rparr>) (idle iv4)"
      using grant [of "idle iv3\<lparr>ww_held := [rid \<mapsto> ns]\<rparr>" rid ns newid now r iv4 fp] cl None
      by (simp add: idle_def)
    ultimately show ?thesis using start by (simp add: fin)
  qed
qed

text \<open>
  C18. The methods implement the transition system: run to completion without interference,
  \<open>ReserveWithRequestID\<close> (given an unused reservation id), \<open>Release\<close>, \<open>Ship\<close> and \<open>Sweep\<close> are each
  a sequence of its steps that leaves nothing in flight, so every invariant proved of the steps
  holds of them.
\<close>

theorem methods_refine_steps:
  "(newid \<notin> dom (inv_reservations iv) \<longrightarrow>
      (wh_step fp)\<^sup>*\<^sup>* (idle iv) (idle (snd (ReserveWithRequestID fp now newid (\<lambda>k i. id) rid items iv)))) \<and>
   (wh_step fp)\<^sup>*\<^sup>* (idle iv) (idle (snd (Release k iv))) \<and>
   (wh_step fp)\<^sup>*\<^sup>* (idle iv) (idle (snd (Ship now k items iv))) \<and>
   (wh_step fp)\<^sup>*\<^sup>* (idle iv) (idle (snd (Sweep now ord iv)))"
  by (simp add: Reserve_run Release_run Ship_run Sweep_run)

theorem methods_refine_steps_witness:
  "(wh_step id)\<^sup>*\<^sup>* (idle (New 100 0))
     (idle (snd (ReserveWithRequestID id 0 ''res-1'' (\<lambda>k i. id) ''r1'' demo_items (New 100 0))))"
  using methods_refine_steps [of "''res-1''" "New 100 0" id 0 "''r1''" demo_items "''x''" "[]"]
  by (simp add: New_def)

end
