(* ===== verification/Events.thy ===== *)
theory Events
  imports Orders Go_Float
begin

text \<open>
  \<^verbatim>\<open>src/internal/events/events.go\<close> and the ship message of \<^verbatim>\<open>src/internal/orders/orders.go\<close>: the
  envelope of a domain event, building and decoding it, and dispatch to handlers. The encoding
  of values as JSON is a pair of functions given as arguments; \<open>None\<close> is the error.
\<close>

record ShipMessage =
  sm_OrderID :: string
  sm_CartID :: string
  sm_CustomerID :: string
  sm_ReservationID :: string
  sm_Items :: "orders_Item list"
  sm_TotalWeight :: float64
  sm_TotalPrice :: float64
  sm_PlacedAt :: int

record Envelope =
  v_ID :: string
  v_Type :: string
  v_OccurredAt :: int
  v_CorrelationID :: string
  v_OrderID :: string
  v_CustomerID :: string
  v_Data :: string

record OrderPlacedData =
  pd_OrderID :: string
  pd_CartID :: string
  pd_CustomerID :: string
  pd_Items :: "orders_Item list"
  pd_TotalPrice :: float64
  pd_TotalWeight :: float64
  pd_ReservationID :: string
  pd_PlacedAt :: int

record OrderShippedData =
  sd_OrderID :: string
  sd_CustomerID :: string
  sd_Items :: "orders_Item list"
  sd_Outcome :: string
  sd_ShippedAt :: int

record OrderCancelledData =
  cd_OrderID :: string
  cd_CustomerID :: string
  cd_Reason :: string
  cd_CancelledAt :: int

definition OrderPlaced :: string where "OrderPlaced = ''order.placed''"
definition OrderShipped :: string where "OrderShipped = ''order.shipped''"
definition OrderCancelled :: string where "OrderCancelled = ''order.cancelled''"

definition ErrDrop :: go_error where
  "ErrDrop = Sentinel ''rmq.ErrDrop''"

definition ErrUndeliverable :: go_error where
  "ErrUndeliverable = ErrDrop"

definition events_New :: "('a \<Rightarrow> string option) \<Rightarrow> string \<Rightarrow> int \<Rightarrow> string \<Rightarrow> string \<Rightarrow> string \<Rightarrow> string \<Rightarrow> 'a
    \<Rightarrow> Envelope res" where
  "events_New enc newid now correlation typ orderID customerID data =
     (case enc data of
        None \<Rightarrow> Inl (Wrapped ''events: encoding %s payload'' [])
      | Some payload \<Rightarrow>
          Inr \<lparr>v_ID = newid, v_Type = typ, v_OccurredAt = now, v_CorrelationID = correlation,
               v_OrderID = orderID, v_CustomerID = customerID, v_Data = payload\<rparr>)"

definition Decode :: "(string \<Rightarrow> 'a option) \<Rightarrow> Envelope \<Rightarrow> 'a res" where
  "Decode dec e =
     (if v_Data e = '''' then Inl (Wrapped ''events: %s envelope has no payload'' [])
      else (case dec (v_Data e) of
              None \<Rightarrow> Inl (Wrapped ''events: decoding %s payload'' [])
            | Some v \<Rightarrow> Inr v))"

text \<open>\<open>Emit\<close>: the bus is the list of envelopes published; \<open>have\<close> is false for a nil publisher,
  \<open>pub\<close> is the outcome of the broker.\<close>

definition events_Publish :: "bool \<Rightarrow> (Envelope \<Rightarrow> string option) \<Rightarrow> go_error option \<Rightarrow> Envelope
    \<Rightarrow> (string \<times> string) list \<Rightarrow> go_error option \<times> (string \<times> string) list" where
  "events_Publish have_pub encv pub e bus =
     (if \<not> have_pub then (None, bus)
      else (case encv e of
              None \<Rightarrow> (Some (Wrapped ''events: encoding envelope'' []), bus)
            | Some body \<Rightarrow> (case pub of Some err \<Rightarrow> (Some err, bus) | None \<Rightarrow> (None, bus @ [(v_Type e, body)]))))"

definition Emit :: "bool \<Rightarrow> (Envelope \<Rightarrow> string option) \<Rightarrow> go_error option \<Rightarrow> Envelope res
    \<Rightarrow> (string \<times> string) list \<Rightarrow> go_error option \<times> (string \<times> string) list" where
  "Emit have_pub encv pub built bus =
     (case built of Inl err \<Rightarrow> (Some err, bus) | Inr e \<Rightarrow> events_Publish have_pub encv pub e bus)"

type_synonym 's handler = "Envelope \<Rightarrow> 's \<Rightarrow> go_error option \<times> 's"

definition Subscribe :: "(string \<Rightarrow> Envelope option) \<Rightarrow> 's handler \<Rightarrow> string \<Rightarrow> 's \<Rightarrow> go_error option \<times> 's" where
  "Subscribe decv handler body s =
     (case decv body of
        None \<Rightarrow> (Some (Wrapped ''malformed event envelope'' [ErrDrop]), s)
      | Some e \<Rightarrow>
          (if v_Type e = '''' then (Some (Wrapped ''event %s has no type'' [ErrDrop]), s)
           else handler e s))"

definition router_Handle :: "(string \<times> 's handler) list \<Rightarrow> 's handler" where
  "router_Handle r e s = (case map_of r (v_Type e) of None \<Rightarrow> (None, s) | Some h \<Rightarrow> h e s)"

definition Patterns :: "(string \<times> 's handler) list \<Rightarrow> string list" where
  "Patterns r = sort (map fst r)"

section \<open>Delivery\<close>

text \<open>
  An event published by \<open>Emit\<close> reaches its handler unchanged: given that the JSON encodings
  round trip, the body on the bus is decoded by the subscriber to an envelope whose payload
  decodes to the data that was emitted, under the routing key of its type.
\<close>

lemma emit_subscribe_roundtrip:
  assumes enc: "codec_ok enc dec" and encv: "codec_ok encv decv"
    and ok: "Emit True encv pub (events_New enc newid now corr typ oid cust data) bus = (None, bus')"
    and "typ \<noteq> ''''"
  shows "\<exists>body e. bus' = bus @ [(typ, body)] \<and> Subscribe decv h body s = h e s \<and>
                  Decode dec e = Inr data \<and> v_OrderID e = oid \<and> v_CustomerID e = cust"
proof -
  obtain payload where p: "enc data = Some payload"
    using ok by (auto simp: Emit_def events_New_def split: option.splits)
  let ?e = "\<lparr>v_ID = newid, v_Type = typ, v_OccurredAt = now, v_CorrelationID = corr, v_OrderID = oid,
             v_CustomerID = cust, v_Data = payload\<rparr>"
  obtain body where "encv ?e = Some body" "bus' = bus @ [(typ, body)]"
    using ok p by (auto simp: Emit_def events_New_def events_Publish_def split: option.splits)
  then show ?thesis
    using codec_okD [OF enc p] codec_okD [OF encv, of ?e body] assms(4)
    by (intro exI [of _ body] exI [of _ ?e]) (simp add: Subscribe_def Decode_def)
qed

definition demo_envelope :: Envelope where
  "demo_envelope = \<lparr>v_ID = ''evt-1'', v_Type = OrderPlaced, v_OccurredAt = 0, v_CorrelationID = '''',
     v_OrderID = ''o1'', v_CustomerID = ''c1'', v_Data = ''d''\<rparr>"

lemma emit_subscribe_roundtrip_witness:
  "\<exists>body e. Decode (table_dec [(7 :: nat, ''d'')]) e = Inr 7 \<and>
     Subscribe (table_dec [(demo_envelope, ''b'')]) (\<lambda>e s. (None, s + 1)) body (0 :: nat) = (None, 1)"
proof -
  have c: "codec_ok (table_enc [(7 :: nat, ''d'')]) (table_dec [(7, ''d'')])"
      "codec_ok (table_enc [(demo_envelope, ''b'')]) (table_dec [(demo_envelope, ''b'')])"
    by (rule table_codec_ok; simp)+
  have "Emit True (table_enc [(demo_envelope, ''b'')]) None
          (events_New (table_enc [(7 :: nat, ''d'')]) ''evt-1'' 0 '''' OrderPlaced ''o1'' ''c1'' 7) [] =
        (None, [(OrderPlaced, ''b'')])"
    by (simp add: Emit_def events_New_def events_Publish_def demo_envelope_def table_enc_def)
  from emit_subscribe_roundtrip [OF c this, of "\<lambda>e s. (None, s + 1)" "0 :: nat"] show ?thesis
    by (auto simp: OrderPlaced_def)
qed

end
