(* ===== verification/Warehouse_Server.thy ===== *)
theory Warehouse_Server
  imports Warehouse_Concurrent Events Rpc
begin

text \<open>
  The HTTP handlers of \<^verbatim>\<open>src/internal/warehouse/server.go\<close>, the queue consumer of
  \<^verbatim>\<open>src/internal/warehouse/shipper.go\<close> and what a repeated request gets.
\<close>

record ReserveResponse =
  rr_RequestID :: string
  rr_ReservationID :: string
  rr_Status :: ReservationState
  rr_ExpiresAt :: int

text \<open>A shortfall is answered with a 409 body written by the handler itself; the caller sees the
  status either way.\<close>

definition handleReserve :: "(orders_Item list \<Rightarrow> 'd) \<Rightarrow> int \<Rightarrow> string
    \<Rightarrow> (nat \<Rightarrow> nat \<Rightarrow> 'd Inventory \<Rightarrow> 'd Inventory) \<Rightarrow> (string \<times> orders_Item list) res \<Rightarrow> 'd Inventory
    \<Rightarrow> ReserveResponse res option \<times> 'd Inventory" where
  "handleReserve fp now newid env body iv =
     (case body of
        Inl err \<Rightarrow> (Some (Inl err), iv)
      | Inr (rid, items) \<Rightarrow>
          (case ReserveWithRequestID fp now newid env rid items iv of
             (None, iv') \<Rightarrow> (None, iv')
           | (Some (Inl (InsufficientStockError p n a)), iv') \<Rightarrow>
               (Some (Inl (Errorf StatusConflict ''insufficient inventory for product %s (requested %d, available %d)'')), iv')
           | (Some (Inl err), iv') \<Rightarrow> (Some (Inl err), iv')
           | (Some (Inr r), iv') \<Rightarrow>
               (Some (Inr \<lparr>rr_RequestID = r_RequestID r, rr_ReservationID = r_ID r, rr_Status = r_State r,
                           rr_ExpiresAt = r_ExpiresAt r\<rparr>), iv')))"

definition handleRelease :: "string res \<Rightarrow> 'd Inventory \<Rightarrow> (string \<times> string) res \<times> 'd Inventory" where
  "handleRelease body iv =
     (case body of
        Inl err \<Rightarrow> (Inl err, iv)
      | Inr resid \<Rightarrow>
          (if resid = '''' then (Inl (Errorf StatusBadRequest ''reservationId is required''), iv)
           else (let (released, iv') = Release resid iv
                 in (Inr (resid, if released then ''released'' else ''already-resolved''), iv'))))"

definition handleInventory :: "string \<Rightarrow> 'd Inventory \<Rightarrow> int res \<times> 'd Inventory" where
  "handleInventory p iv =
     (if p = '''' then (Inl (Errorf StatusBadRequest ''productId is required''), iv)
      else (let (q, iv') = Quantity p iv in (Inr q, iv')))"

text \<open>\<open>announce\<close>: what is published, if anything.\<close>

definition announce :: "bool \<Rightarrow> int \<Rightarrow> ShipMessage \<Rightarrow> string \<Rightarrow> OrderShippedData option" where
  "announce have_pub now msg outcome =
     (if \<not> have_pub \<or> sm_CustomerID msg = '''' then None
      else Some \<lparr>sd_OrderID = sm_OrderID msg, sd_CustomerID = sm_CustomerID msg, sd_Items = sm_Items msg,
                 sd_Outcome = outcome, sd_ShippedAt = now\<rparr>)"

definition shipper_Handle :: "bool \<Rightarrow> int \<Rightarrow> ShipMessage res \<Rightarrow> 'd Inventory
    \<Rightarrow> go_error option \<times> OrderShippedData option \<times> 'd Inventory" where
  "shipper_Handle have_pub now body iv =
     (case body of
        Inl err \<Rightarrow> (Some (Wrapped ''malformed ship message'' [ErrDrop, err]), None, iv)
      | Inr msg \<Rightarrow>
          (if sm_ReservationID msg = '''' \<and> sm_Items msg = []
           then (Some (Wrapped ''ship message %q has neither a reservation nor items'' [ErrDrop]), None, iv)
           else (case Ship now (sm_ReservationID msg) (sm_Items msg) iv of
                   (ShipRejected, iv') \<Rightarrow>
                     (Some (Wrapped ''reservation %q is unknown, released, expired or does not match items'' [ErrDrop]),
                      None, iv')
                 | (ShipDuplicate, iv') \<Rightarrow> (None, None, iv')
                 | (ShipCompleted, iv') \<Rightarrow> (None, announce have_pub now msg ''completed'', iv'))))"

section \<open>Repeating a request\<close>

lemma ReserveWithRequestID_replay:
  assumes "valid_request_id rid = None" and "normalize items = Inr ns"
    and "inv_receipts iv rid = Some rc" and "rc_done rc"
  shows "ReserveWithRequestID fp now newid env rid items iv =
         (if rc_digest rc \<noteq> fp ns
          then (Some (Inl (Errorf StatusConflict ''request_id already identifies different items'')), iv)
          else (replay_receipt rid iv, iv))"
  using assms by (simp add: ReserveWithRequestID_def reserve_open_def)

lemma reserve_close_receipt:
  assumes "inv_receipts iv rid = Some rc"
  shows "inv_receipts (snd (reserve_close now newid rid ns err iv)) rid =
           Some (rc\<lparr>rc_err := err, rc_done := True,
                    rc_reservationID := (if err = None then newid else '''')\<rparr>)"
    and "fst (reserve_close now newid rid ns err iv) = Inr r \<Longrightarrow>
         inv_reservations (snd (reserve_close now newid rid ns err iv)) newid = Some r \<and> err = None"
    and "fst (reserve_close now newid rid ns err iv) = Inl e \<Longrightarrow> err = Some e"
  using assms by (auto simp: reserve_close_def Let_def split: option.splits)

text \<open>
  Repeating a reservation request is safe. Once a request has been answered, sending it
  again under the same id with the same lines returns the same answer (the reservation, or the
  same refusal) and changes nothing, so no stock is taken twice; the same id with lines of
  another digest is refused with 409, also without any change.
\<close>

lemma reserve_replayed:
  assumes first: "ReserveWithRequestID fp now newid (\<lambda>k i. id) rid items iv = (Some res, iv')"
    and new: "inv_receipts iv rid = None" and ok: "valid_request_id rid = None" "normalize items = Inr ns"
  shows "ReserveWithRequestID fp now' newid' env rid items iv' = (Some res, iv') \<and>
         (\<forall>items' ns'. normalize items' = Inr ns' \<and> fp ns' \<noteq> fp ns \<longrightarrow>
            (\<exists>e. ReserveWithRequestID fp now' newid' env rid items' iv' = (Some (Inl e), iv') \<and>
                 StatusOf (Some e) = StatusConflict))"
proof -
  obtain iv1 where op: "reserve_open fp rid ns iv = (Claims, iv1)" using new by (simp add: reserve_open_def)
  note o1 = reserve_open_other [OF op]
  obtain err iv2 where st: "reserveStock (\<lambda>k i. id) ns iv1 = (err, iv2)" by force
  have r2: "inv_receipts iv2 rid = Some \<lparr>rc_digest = fp ns, rc_done = False, rc_reservationID = '''', rc_err = None\<rparr>"
    using st o1(5) by (auto simp: reserveStock_quiet stock_decision_def split: option.splits)
  have cl: "reserve_close now newid rid ns err iv2 = (res, iv')"
    using first ok op st by (auto simp: ReserveWithRequestID_def split: prod.splits)
  note rc = reserve_close_receipt [OF r2, of now newid ns err]
  have rec: "inv_receipts iv' rid = Some \<lparr>rc_digest = fp ns, rc_done = True,
      rc_reservationID = (if err = None then newid else ''''), rc_err = err\<rparr>"
    using rc(1) cl by simp
  have rep: "replay_receipt rid iv' = Some res"
    using rec rc(2,3) cl by (cases res) (auto simp: replay_receipt_def)
  have one: "ReserveWithRequestID fp now' newid' env rid items iv' = (Some res, iv')"
    using ReserveWithRequestID_replay [OF ok rec] rep by simp
  have "ReserveWithRequestID fp now' newid' env rid items' iv' =
      (Some (Inl (Errorf StatusConflict ''request_id already identifies different items'')), iv')"
    if "normalize items' = Inr ns'" "fp ns' \<noteq> fp ns" for items' ns'
    using ReserveWithRequestID_replay [OF ok(1) that(1) rec, of fp now' newid' env] that(2) by auto
  with one show ?thesis by auto
qed

lemma reserve_replayed_witness:
  "\<exists>res iv'. ReserveWithRequestID id 0 ''res-1'' (\<lambda>k i. id) ''r1'' demo_items (New 100 0) = (Some res, iv') \<and>
     ReserveWithRequestID id 5 ''res-2'' (\<lambda>k i. id) ''r1'' demo_items iv' = (Some res, iv')"
proof -
  have v: "valid_request_id ''r1'' = None"
    by (simp add: valid_request_id_def is_lower_def is_upper_def is_digit_def less_eq_char_def)
  obtain res iv' where r: "ReserveWithRequestID id 0 ''res-1'' (\<lambda>k i. id) ''r1'' demo_items (New 100 0) = (Some res, iv')"
    using v normalize_demo_items
    by (simp add: ReserveWithRequestID_def reserve_open_def New_def case_prod_unfold Let_def)
  from reserve_replayed [OF r _ v normalize_demo_items, of 5 "''res-2''" "\<lambda>k i. id"] r show ?thesis
    by (auto simp: New_def)
qed

section \<open>Consuming ship messages\<close>

lemma Ship_again:
  assumes "Ship now k items iv = (out, iv')"
  shows "\<exists>iv''. Ship now' k items iv' = (if out = ShipCompleted then ShipDuplicate else out, iv'') \<and>
           inv_stock iv'' = inv_stock iv' \<and> inv_reservations iv'' = inv_reservations iv'"
proof (cases "normalize items")
  case (Inl err)
  with assms show ?thesis by (auto simp: Ship_def)
next
  case (Inr ns)
  obtain o1 owed iv1 where sm: "ship_mark now k ns iv = ((o1, owed), iv1)" by (metis surj_pair)
  from sm show ?thesis
  proof (cases rule: ship_mark_cases)
    case none
    have "out = o1 \<and> inv_reservations iv' = inv_reservations iv"
      using sm assms none(1,2,3) by (cases o1) (auto simp: Ship_def Inr)
    then have same: "out = o1" "inv_reservations iv' k = inv_reservations iv k" by simp_all
    have "ship_mark now' k ns iv' = ((out, None), iv')"
      unfolding ship_mark_def same using none(4) by (auto split: option.splits if_splits)
    with none(3) same(1) Inr show ?thesis by (cases out) (simp_all add: Ship_def)
  next
    case (expired r)
    then have "inv_reservations iv' k = Some (r\<lparr>r_State := Released\<rparr>)"
      using sm assms Inr by (auto simp: Ship_def Let_def set_state_def)
    with expired sm assms Inr show ?thesis by (auto simp: Ship_def ship_mark_def Let_def)
  next
    case (shipped r)
    then have "inv_reservations iv' k = Some (r\<lparr>r_State := Committed\<rparr>)"
      using sm assms Inr by (auto simp: Ship_def set_state_def)
    with shipped sm assms Inr show ?thesis by (auto simp: Ship_def ship_mark_def)
  qed
qed

text \<open>
  Redelivering a ship message is harmless: after a message has been handled, handling the
  same message again, at any other time, changes no stock and no reservation, announces nothing,
  and is acknowledged or dropped as the first delivery was.
\<close>

lemma ship_redelivery:
  assumes "shipper_Handle have_pub now (Inr msg) iv = (err, ann, iv')"
    and "shipper_Handle have_pub now' (Inr msg) iv' = (err', ann', iv'')"
  shows "inv_stock iv'' = inv_stock iv' \<and> inv_reservations iv'' = inv_reservations iv' \<and> ann' = None \<and>
         (err = None \<longleftrightarrow> err' = None)"
proof (cases "sm_ReservationID msg = '''' \<and> sm_Items msg = []")
  case True
  with assms show ?thesis by (auto simp: shipper_Handle_def)
next
  case False
  obtain out iv1 where s: "Ship now (sm_ReservationID msg) (sm_Items msg) iv = (out, iv1)" by force
  with assms(1) False have "iv1 = iv'" and "err = None \<longleftrightarrow> out \<noteq> ShipRejected"
    by (cases out; auto simp: shipper_Handle_def)+
  with Ship_again [OF s, of now'] assms(2) False show ?thesis
    by (cases out) (auto simp: shipper_Handle_def)
qed

definition demo_ship :: ShipMessage where
  "demo_ship = \<lparr>sm_OrderID = ''o1'', sm_CartID = ''cart-c1'', sm_CustomerID = ''c1'',
     sm_ReservationID = ''res-1'', sm_Items = demo_items, sm_TotalWeight = Fin 1, sm_TotalPrice = Fin 10,
     sm_PlacedAt = 0\<rparr>"

lemma ship_redelivery_witness:
  "let iv = snd (ReserveWithRequestID id 0 ''res-1'' (\<lambda>k i. id) ''r1'' demo_items (New 100 0));
       iv' = snd (snd (shipper_Handle True 1 (Inr demo_ship) iv));
       iv'' = snd (snd (shipper_Handle True 2 (Inr demo_ship) iv'))
   in inv_stock iv'' = inv_stock iv'"
proof -
  define iv where "iv = snd (ReserveWithRequestID id 0 ''res-1'' (\<lambda>k i. id) ''r1'' demo_items (New 100 0))"
  obtain err ann iv' where a: "shipper_Handle True 1 (Inr demo_ship) iv = (err, ann, iv')" by (metis surj_pair)
  obtain err' ann' iv'' where b: "shipper_Handle True 2 (Inr demo_ship) iv' = (err', ann', iv'')" by (metis surj_pair)
  from ship_redelivery [OF a b] a b show ?thesis by (simp add: iv_def Let_def)
qed

section \<open>Counters\<close>

definition ReceiptCount :: "string list \<Rightarrow> 'd Inventory \<Rightarrow> nat" where
  "ReceiptCount ord iv = length (filter (\<lambda>k. inv_reservations iv k \<noteq> None) ord)"

definition TrackedProducts :: "string list \<Rightarrow> 'd Inventory \<Rightarrow> nat" where
  "TrackedProducts ord iv = length (filter (\<lambda>k. inv_stock iv k \<noteq> None) ord)"

text \<open>Every reservation that is pending has a receipt.\<close>

lemma pending_le_receipts: "PendingReservations ord iv \<le> ReceiptCount ord iv"
proof -
  have "length (filter P ord) \<le> length (filter Q ord)" if "\<And>k. P k \<Longrightarrow> Q k" for P Q :: "string \<Rightarrow> bool"
    using that by (induction ord) auto
  then show ?thesis unfolding PendingReservations_def ReceiptCount_def by (auto split: option.splits)
qed


end
