(* ===== verification/Cart_Checkout.thy ===== *)
theory Cart_Checkout
  imports Cart_Service Cca Warehouse_Server
begin

text \<open>
  \<^verbatim>\<open>src/internal/cart/checkout.go\<close> over a world of the services it calls: the cart database, its
  transaction manager, the warehouse, the card authorizer, the ship queue and the event bus. Every
  remote call of the flow is a site; \<open>env\<close> says what the network did to the call at each site.
  Requests with the same key are serialized by the service's mutex, so a checkout is one function
  on the world.
\<close>

datatype site = LoadClaim | SaveClaim | GetCart | BeginTxn | HoldStock | TakeMoney | WriteOrder
  | ClearCart | CommitTxn | CompleteClaim | PublishPlaced | QueueShip | UndoHold | UndoTxn | UndoClaim

record 'd world =
  cw_db :: Store
  cw_txn :: TxnManager
  cw_wh :: "'d Inventory"
  cw_charges :: charge_log
  cw_bus :: "OrderPlacedData list"
  cw_queue :: "ShipMessage list"

record CheckoutRequest =
  cr_RequestID :: string
  cr_CreditCard :: string
  cr_IdempotencyKey :: string

text \<open>The choices of the environment in one checkout: the clock, the calls, the fresh ids, the
  issuer's decision, the digest of a reservation request.\<close>

record 'd checkout_env =
  ev_now :: int
  ev_call :: "site \<Rightarrow> call"
  ev_orderID :: string
  ev_txnID :: string
  ev_resID :: string
  ev_approved :: bool
  ev_stamp :: string
  ev_fp :: "orders_Item list \<Rightarrow> 'd"

definition newOrderID :: "8 word list option \<Rightarrow> int \<Rightarrow> string" where
  "newOrderID bytes now =
     (case bytes of
        None \<Rightarrow> ''ord-'' @ itoa now
      | Some b \<Rightarrow> ''ord-'' @ itoa (UnixMilli now) @ ''-'' @ hex_EncodeToString b)"

section \<open>The remote calls\<close>

definition txn_BeginCall :: "'d checkout_env \<Rightarrow> 'd world \<Rightarrow> string res \<times> 'd world" where
  "txn_BeginCall ev w =
     (let c = ev_call ev BeginTxn;
          (r, m) = rpc_post c (\<lambda>m. let (t, m') = txn_Begin (ev_txnID ev) (call_now c) m in (Inr t, m')) (cw_txn w)
      in (client_BeginTxn r, w\<lparr>cw_txn := m\<rparr>))"

definition txn_ResolveCall :: "call \<Rightarrow> (string \<Rightarrow> TxnManager \<Rightarrow> Txn res \<times> TxnManager) \<Rightarrow> string \<Rightarrow> 'd world
    \<Rightarrow> go_error option \<times> 'd world" where
  "txn_ResolveCall c resolve txnID w =
     (let (r, m) = rpc_post c (resolve txnID) (cw_txn w)
      in (case r of Inl err \<Rightarrow> Some err | Inr t \<Rightarrow> None, w\<lparr>cw_txn := m\<rparr>))"

text \<open>Orders have fresh ids, so a reservation request never waits for an earlier one.\<close>

definition reserve_op :: "(orders_Item list \<Rightarrow> 'd) \<Rightarrow> int \<Rightarrow> string \<Rightarrow> string \<Rightarrow> orders_Item list \<Rightarrow> 'd Inventory
    \<Rightarrow> ReserveResponse res \<times> 'd Inventory" where
  "reserve_op fp now newid rid items iv =
     (case handleReserve fp now newid (\<lambda>k i. id) (Inr (rid, items)) iv of
        (Some r, iv') \<Rightarrow> (r, iv')
      | (None, iv') \<Rightarrow> (Inl (Errorf StatusServiceUnavailable ''calling %s''), iv'))"

definition wh_ReserveCall :: "'d checkout_env \<Rightarrow> string \<Rightarrow> orders_Item list \<Rightarrow> 'd world
    \<Rightarrow> ReserveResponse res \<times> 'd world" where
  "wh_ReserveCall ev rid items w =
     (let c = ev_call ev HoldStock;
          (r, iv) = rpc_post c (reserve_op (ev_fp ev) (call_now c) (ev_resID ev) rid items) (cw_wh w)
      in (r, w\<lparr>cw_wh := iv\<rparr>))"

definition wh_ReleaseCall :: "call \<Rightarrow> string \<Rightarrow> 'd world \<Rightarrow> 'd world" where
  "wh_ReleaseCall c resid w = w\<lparr>cw_wh := snd (rpc_post c (handleRelease (Inr resid)) (cw_wh w))\<rparr>"

definition cards_AuthorizeCall :: "'d checkout_env \<Rightarrow> string \<Rightarrow> float64 \<Rightarrow> string \<Rightarrow> 'd world
    \<Rightarrow> (Decision \<times> string \<times> go_error option) \<times> 'd world" where
  "cards_AuthorizeCall ev cardNumber amount orderID w =
     (let (d, lg) = cca_Authorize (ev_call ev TakeMoney) (ev_approved ev) (ev_stamp ev) cardNumber amount orderID
                      (cw_charges w)
      in (d, w\<lparr>cw_charges := lg\<rparr>))"

definition writeOrder :: "codecs \<Rightarrow> call \<Rightarrow> cart_Order \<Rightarrow> 'd world \<Rightarrow> go_error option \<times> 'd world" where
  "writeOrder J c order w =
     (case enc_order J order of
        None \<Rightarrow> (Some (Wrap StatusInternalServerError (Sentinel ''json'') ''encoding order %s''), w)
      | Some raw \<Rightarrow>
          (case db_Put c (OrderKeyPrefix @ co_OrderID order) raw (cw_db w) of
             (Inl err, db) \<Rightarrow> (Some (Wrap StatusServiceUnavailable err ''could not commit order %s''), w\<lparr>cw_db := db\<rparr>)
           | (Inr e, db) \<Rightarrow> (None, w\<lparr>cw_db := db\<rparr>)))"

definition orderItems :: "cart_Item list \<Rightarrow> orders_Item list" where
  "orderItems items = map item_Order items"

text \<open>A publish that was confirmed reached the broker; one that reports an error may have reached it
  all the same, when only the confirmation was lost.\<close>

definition published :: "call \<Rightarrow> bool" where
  "published c \<longleftrightarrow> call_err c = None \<or> call_times c > 0"

definition announcePlaced :: "call \<Rightarrow> cart_Order \<Rightarrow> 'd world \<Rightarrow> 'd world" where
  "announcePlaced c order w =
     (if \<not> published c then w
      else w\<lparr>cw_bus := cw_bus w @ [\<lparr>pd_OrderID = co_OrderID order, pd_CartID = co_CartID order,
               pd_CustomerID = co_CustomerID order, pd_Items = orderItems (co_Items order),
               pd_TotalPrice = co_TotalPrice order, pd_TotalWeight = co_TotalWeight order,
               pd_ReservationID = co_ReservationID order, pd_PlacedAt = co_PlacedAt order\<rparr>]\<rparr>)"

definition queueShipment :: "call \<Rightarrow> cart_Order \<Rightarrow> 'd world \<Rightarrow> 'd world" where
  "queueShipment c order w =
     (if \<not> published c then w
      else w\<lparr>cw_queue := cw_queue w @ [\<lparr>sm_OrderID = co_OrderID order, sm_CartID = co_CartID order,
               sm_CustomerID = co_CustomerID order, sm_ReservationID = co_ReservationID order,
               sm_Items = orderItems (co_Items order), sm_TotalWeight = co_TotalWeight order,
               sm_TotalPrice = co_TotalPrice order, sm_PlacedAt = co_PlacedAt order\<rparr>]\<rparr>)"

definition releaseClaim :: "codecs \<Rightarrow> 'd checkout_env \<Rightarrow> string \<Rightarrow> string \<Rightarrow> 'd world \<Rightarrow> 'd world" where
  "releaseClaim J ev key cartID w =
     (if key = '''' then w
      else w\<lparr>cw_db := idem_release J (ev_call ev UndoClaim) (ev_now ev) key cartID (cw_db w)\<rparr>)"

text \<open>The deferred unwind: give the stock back, abort the transaction, give the key back. The
  claim was taken exactly when there is a key.\<close>

definition unwind :: "codecs \<Rightarrow> 'd checkout_env \<Rightarrow> string \<Rightarrow> string \<Rightarrow> string \<Rightarrow> string \<Rightarrow> 'd world \<Rightarrow> 'd world" where
  "unwind J ev key cartID resid txnID w =
     (let w1 = (if resid \<noteq> '''' then wh_ReleaseCall (ev_call ev UndoHold) resid w else w);
          w2 = snd (txn_ResolveCall (ev_call ev UndoTxn) txn_Abort txnID w1)
      in releaseClaim J ev key cartID w2)"

section \<open>Checkout\<close>

text \<open>Step 3 and the end of the transaction; \<open>Inl\<close> is a failure that still has to be unwound.\<close>

definition commit_order :: "codecs \<Rightarrow> 'd checkout_env \<Rightarrow> string \<Rightarrow> string \<Rightarrow> cart_Order \<Rightarrow> 'd world
    \<Rightarrow> Receipt res \<times> 'd world" where
  "commit_order J ev key txnID order w =
     (case writeOrder J (ev_call ev WriteOrder) order w of
        (Some err, w1) \<Rightarrow> (Inl err, w1)
      | (None, w1) \<Rightarrow>
          (let w2 = w1\<lparr>cw_db := snd (cart_Clear J (ev_call ev ClearCart) (co_CustomerID order) (cw_db w1))\<rparr> in
           case txn_ResolveCall (ev_call ev CommitTxn) txn_Commit txnID w2 of
             (Some err, w3) \<Rightarrow> (Inl (Wrap StatusInternalServerError err ''could not commit transaction''), w3)
           | (None, w3) \<Rightarrow>
               (let receipt = \<lparr>rp_OrderID = co_OrderID order, rp_Status = co_Status order,
                               rp_TotalPrice = co_TotalPrice order, rp_TotalWeight = co_TotalWeight order\<rparr>;
                    w4 = (if key \<noteq> '''' then w3\<lparr>cw_db := idem_complete J (ev_call ev CompleteClaim) (ev_now ev) key
                                                       (co_CartID order) receipt (cw_db w3)\<rparr> else w3);
                    w5 = announcePlaced (ev_call ev PublishPlaced) order w4;
                    w6 = queueShipment (ev_call ev QueueShip) order w5
                in (Inr receipt, w6))))"

text \<open>Everything between begin and end of the transaction.\<close>

definition run_txn :: "codecs \<Rightarrow> 'd checkout_env \<Rightarrow> string \<Rightarrow> string \<Rightarrow> string \<Rightarrow> cart_Order \<Rightarrow> 'd world
    \<Rightarrow> Receipt res \<times> 'd world" where
  "run_txn J ev key cardNumber txnID order w =
     (let fail = (\<lambda>resid err w'. (Inl err, unwind J ev key (co_CartID order) resid txnID w')) in
      case wh_ReserveCall ev (co_OrderID order) (orderItems (co_Items order)) w of
        (Inl err, w1) \<Rightarrow>
          (if IsStatus err StatusConflict
           then fail '''' (Errorf StatusConflict ''one or more items are out of stock'') w1
           else fail '''' (Wrap StatusServiceUnavailable err ''warehouse unavailable'') w1)
      | (Inr rsv, w1) \<Rightarrow>
          (let order1 = order\<lparr>co_ReservationID := rr_ReservationID rsv\<rparr>;
               resid = rr_ReservationID rsv;
               ((decision, code, authErr), w2) = cards_AuthorizeCall ev cardNumber (co_TotalPrice order) (co_OrderID order) w1
           in case decision of
                Declined \<Rightarrow> fail resid (Errorf StatusPaymentRequired ''credit card declined'') w2
              | InvalidCard \<Rightarrow> fail resid (Errorf StatusBadRequest ''credit card number is not valid'') w2
              | Unavailable \<Rightarrow> fail resid (case authErr of
                    Some e \<Rightarrow> Wrap StatusServiceUnavailable e ''payment system unavailable''
                  | None \<Rightarrow> Errorf StatusServiceUnavailable ''payment system unavailable'') w2
              | Approved \<Rightarrow>
                  (case commit_order J ev key txnID (order1\<lparr>co_AuthorizationCode := code\<rparr>) w2 of
                     (Inl err, w3) \<Rightarrow> fail resid err w3
                   | (Inr receipt, w3) \<Rightarrow> (Inr receipt, w3))))"

definition checkout_cart :: "codecs \<Rightarrow> 'd checkout_env \<Rightarrow> string \<Rightarrow> string \<Rightarrow> string \<Rightarrow> string \<Rightarrow> 'd world
    \<Rightarrow> Receipt res \<times> 'd world" where
  "checkout_cart J ev key cardNumber cartID customerID w =
     (case cart_Get J (ev_call ev GetCart) customerID (cw_db w) of
        Inl err \<Rightarrow> (Inl err, releaseClaim J ev key cartID w)
      | Inr found \<Rightarrow>
          (if found = None \<or> IsEmpty (the found)
           then (Inl (Errorf StatusBadRequest ''cart %s is empty''), releaseClaim J ev key cartID w)
           else (let ct = the found;
                     order = \<lparr>co_OrderID = ev_orderID ev, co_CartID = cartID, co_CustomerID = customerID,
                              co_Items = ct_Items ct, co_TotalWeight = TotalWeight ct,
                              co_TotalPrice = TotalPrice ct, co_ReservationID = '''',
                              co_AuthorizationCode = '''', co_Status = ''confirmed'', co_PlacedAt = ev_now ev\<rparr>
                 in case txn_BeginCall ev w of
                      (Inl err, w1) \<Rightarrow>
                        (Inl (Wrap StatusServiceUnavailable err ''could not begin transaction''),
                         releaseClaim J ev key cartID w1)
                    | (Inr txnID, w1) \<Rightarrow> run_txn J ev key cardNumber txnID order w1)))"

definition request_key :: "CheckoutRequest \<Rightarrow> string" where
  "request_key req = (if cr_IdempotencyKey req = '''' then cr_RequestID req else cr_IdempotencyKey req)"

definition Checkout :: "codecs \<Rightarrow> 'd checkout_env \<Rightarrow> string \<Rightarrow> CheckoutRequest \<Rightarrow> 'd world
    \<Rightarrow> Receipt res \<times> 'd world" where
  "Checkout J ev cartID req w =
     (let key = request_key req in
      case (if key = '''' then None else validateIdempotencyKey key) of
        Some err \<Rightarrow> (Inl err, w)
      | None \<Rightarrow>
          (if cr_CreditCard req = '''' then (Inl (Errorf StatusBadRequest ''creditCard is required''), w)
           else (case CustomerFor cartID of
                   Inl err \<Rightarrow> (Inl err, w)
                 | Inr customerID \<Rightarrow>
                     (if key = '''' then checkout_cart J ev '''' (cr_CreditCard req) cartID customerID w
                      else (case idem_claim J (ev_call ev LoadClaim) (ev_call ev SaveClaim) (ev_now ev) key cartID (cw_db w) of
                              (Inl err, db) \<Rightarrow> (Inl err, w\<lparr>cw_db := db\<rparr>)
                            | (Inr (Some receipt), db) \<Rightarrow> (Inr receipt, w\<lparr>cw_db := db\<rparr>)
                            | (Inr None, db) \<Rightarrow>
                                checkout_cart J ev key (cr_CreditCard req) cartID customerID (w\<lparr>cw_db := db\<rparr>))))))"

definition handleCheckout :: "codecs \<Rightarrow> 'd checkout_env \<Rightarrow> string \<Rightarrow> string \<Rightarrow> string \<Rightarrow> CheckoutRequest res \<Rightarrow> 'd world
    \<Rightarrow> (int \<times> Receipt) res \<times> 'd world" where
  "handleCheckout J ev caller headerKey cartID body w =
     (case cart_authorize caller cartID of
        Inl err \<Rightarrow> (Inl err, w)
      | Inr owner \<Rightarrow>
          (case body of
             Inl err \<Rightarrow> (Inl err, w)
           | Inr req0 \<Rightarrow>
               (let req = (if headerKey \<noteq> '''' then req0\<lparr>cr_IdempotencyKey := headerKey\<rparr> else req0)
                in case Checkout J ev cartID req w of
                     (Inl err, w') \<Rightarrow> (Inl err, w')
                   | (Inr receipt, w') \<Rightarrow> (Inr (StatusOK, receipt), w'))))"


section \<open>What each call leaves alone\<close>

lemma txn_BeginCall_other [simp]:
  "cw_charges (snd (txn_BeginCall ev w)) = cw_charges w" "cw_db (snd (txn_BeginCall ev w)) = cw_db w"
  "cw_wh (snd (txn_BeginCall ev w)) = cw_wh w"
  by (simp_all add: txn_BeginCall_def Let_def case_prod_unfold)

lemma txn_ResolveCall_other [simp]:
  "cw_charges (snd (txn_ResolveCall c f t w)) = cw_charges w" "cw_db (snd (txn_ResolveCall c f t w)) = cw_db w"
  "cw_wh (snd (txn_ResolveCall c f t w)) = cw_wh w"
  by (simp_all add: txn_ResolveCall_def Let_def case_prod_unfold)

lemma wh_ReserveCall_other [simp]:
  "cw_charges (snd (wh_ReserveCall ev rid items w)) = cw_charges w"
  "cw_db (snd (wh_ReserveCall ev rid items w)) = cw_db w"
  "cw_txn (snd (wh_ReserveCall ev rid items w)) = cw_txn w"
  by (simp_all add: wh_ReserveCall_def Let_def case_prod_unfold)

lemma wh_ReleaseCall_other [simp]:
  "cw_charges (wh_ReleaseCall c rid w) = cw_charges w" "cw_db (wh_ReleaseCall c rid w) = cw_db w"
  "cw_txn (wh_ReleaseCall c rid w) = cw_txn w"
  by (simp_all add: wh_ReleaseCall_def)

lemma cards_AuthorizeCall_other [simp]:
  "cw_db (snd (cards_AuthorizeCall ev cardNumber amount oid w)) = cw_db w"
  "cw_txn (snd (cards_AuthorizeCall ev cardNumber amount oid w)) = cw_txn w"
  "cw_wh (snd (cards_AuthorizeCall ev cardNumber amount oid w)) = cw_wh w"
  by (simp_all add: cards_AuthorizeCall_def Let_def case_prod_unfold)

lemma writeOrder_other [simp]:
  "cw_charges (snd (writeOrder J c order w)) = cw_charges w" "cw_wh (snd (writeOrder J c order w)) = cw_wh w"
  "cw_txn (snd (writeOrder J c order w)) = cw_txn w"
  by (auto simp: writeOrder_def split: option.split prod.split sum.split)

lemma publish_other [simp]:
  "cw_charges (announcePlaced c order w) = cw_charges w" "cw_charges (queueShipment c order w) = cw_charges w"
  "cw_db (announcePlaced c order w) = cw_db w" "cw_db (queueShipment c order w) = cw_db w"
  "cw_wh (announcePlaced c order w) = cw_wh w" "cw_wh (queueShipment c order w) = cw_wh w"
  "cw_txn (announcePlaced c order w) = cw_txn w" "cw_txn (queueShipment c order w) = cw_txn w"
  by (simp_all add: announcePlaced_def queueShipment_def)

lemma releaseClaim_other [simp]:
  "cw_charges (releaseClaim J ev key cartID w) = cw_charges w" "cw_wh (releaseClaim J ev key cartID w) = cw_wh w"
  "cw_txn (releaseClaim J ev key cartID w) = cw_txn w"
  by (simp_all add: releaseClaim_def)

lemma unwind_charges [simp]: "cw_charges (unwind J ev key cartID resid txnID w) = cw_charges w"
  by (simp add: unwind_def Let_def)

lemma commit_order_charges [simp]: "cw_charges (snd (commit_order J ev key txnID order w)) = cw_charges w"
proof -
  obtain e1 w1 where w1: "writeOrder J (ev_call ev WriteOrder) order w = (e1, w1)" by force
  let ?w2 = "w1\<lparr>cw_db := snd (cart_Clear J (ev_call ev ClearCart) (co_CustomerID order) (cw_db w1))\<rparr>"
  obtain e3 w3 where w3: "txn_ResolveCall (ev_call ev CommitTxn) txn_Commit txnID ?w2 = (e3, w3)" by force
  have "cw_charges w1 = cw_charges w" using writeOrder_other(1) [of J "ev_call ev WriteOrder" order w] w1 by simp
  moreover have "cw_charges w3 = cw_charges ?w2"
    using txn_ResolveCall_other(1) [of "ev_call ev CommitTxn" txn_Commit txnID ?w2] w3 by simp
  ultimately show ?thesis
    by (cases e1; cases e3) (simp_all add: commit_order_def w1 w3 Let_def)
qed

section \<open>Charging\<close>

lemma cards_AuthorizeCall_charges:
  "cw_charges (snd (cards_AuthorizeCall ev cardNumber amount oid w)) = cw_charges w \<or>
   cw_charges (snd (cards_AuthorizeCall ev cardNumber amount oid w)) = cw_charges w @ [(oid, amount)]"
  by (auto simp: cards_AuthorizeCall_def cca_Authorize_def rpc_post_def handleAuthorize_def Let_def
      split: option.splits prod.splits if_splits)

lemma run_txn_charges:
  "\<exists>xs. cw_charges (snd (run_txn J ev key cardNumber txnID order w)) = cw_charges w @ xs \<and> length xs \<le> 1 \<and>
        set xs \<subseteq> {(co_OrderID order, co_TotalPrice order)}"
proof -
  obtain r w1 where r: "wh_ReserveCall ev (co_OrderID order) (orderItems (co_Items order)) w = (r, w1)" by force
  have c1: "cw_charges w1 = cw_charges w"
    using wh_ReserveCall_other(1) [of ev "co_OrderID order" "orderItems (co_Items order)" w] r by simp
  show ?thesis
  proof (cases r)
    case (Inl err)
    with r c1 show ?thesis by (intro exI [of _ "[]"]) (simp add: run_txn_def Let_def)
  next
    case (Inr rsv)
    obtain d code ae w2 where a: "cards_AuthorizeCall ev cardNumber (co_TotalPrice order) (co_OrderID order) w1 = ((d, code, ae), w2)"
      by (metis surj_pair)
    have c2: "cw_charges w2 = cw_charges w \<or> cw_charges w2 = cw_charges w @ [(co_OrderID order, co_TotalPrice order)]"
      using cards_AuthorizeCall_charges [of ev cardNumber "co_TotalPrice order" "co_OrderID order" w1] a c1 by simp
    have "cw_charges (snd (run_txn J ev key cardNumber txnID order w)) = cw_charges w2"
    proof (cases d)
      case Approved
      obtain r3 w3 where co: "commit_order J ev key txnID
          (order\<lparr>co_ReservationID := rr_ReservationID rsv, co_AuthorizationCode := code\<rparr>) w2 = (r3, w3)" by force
      then have "cw_charges w3 = cw_charges w2"
        using commit_order_charges [of J ev key txnID "order\<lparr>co_ReservationID := rr_ReservationID rsv, co_AuthorizationCode := code\<rparr>" w2]
        by simp
      with r Inr a Approved co show ?thesis by (cases r3) (simp_all add: run_txn_def Let_def)
    qed (use r Inr a in \<open>simp_all add: run_txn_def Let_def\<close>)
    with c2 show ?thesis
      by (metis append_Nil2 empty_subsetI le_zero_eq length_0_conv length_Cons list.set(1) list.simps(15) nat_le_linear
          not_less_eq_eq One_nat_def order_refl)
  qed
qed


lemma checkout_cart_charges:
  "\<exists>xs. cw_charges (snd (checkout_cart J ev key cardNumber cartID customerID w)) = cw_charges w @ xs \<and> length xs \<le> 1 \<and>
        fst ` set xs \<subseteq> {ev_orderID ev}"
proof -
  have none: "\<exists>xs. lg = lg @ xs \<and> length xs \<le> 1 \<and> fst ` set xs \<subseteq> {ev_orderID ev}" for lg :: charge_log
    by (intro exI [of _ "[]"]) simp
  obtain r w1 where b: "txn_BeginCall ev w = (r, w1)" by force
  have c1: "cw_charges w1 = cw_charges w" using txn_BeginCall_other(1) [of ev w] b by simp
  have run: "\<exists>xs. cw_charges (snd (run_txn J ev key cardNumber t order w1)) = cw_charges w @ xs \<and> length xs \<le> 1 \<and>
      fst ` set xs \<subseteq> {ev_orderID ev}" if "co_OrderID order = ev_orderID ev" for t order
    using run_txn_charges [of J ev key cardNumber t order w1] c1 that by fastforce
  show ?thesis
  proof (cases "cart_Get J (ev_call ev GetCart) customerID (cw_db w)")
    case (Inl e)
    then show ?thesis using none by (simp add: checkout_cart_def)
  next
    case (Inr found)
    then show ?thesis using none c1 run b
      by (cases r) (auto simp: checkout_cart_def Let_def)
  qed
qed

text \<open>
  C1. A checkout charges the card at most once, whatever fails: under every combination of
  lost requests and lost answers, one call to \<open>Checkout\<close> adds at most one entry to the
  authorizer's log, and it is for the order id of this attempt.
\<close>

theorem checkout_charges_at_most_once:
  "\<exists>xs. cw_charges (snd (Checkout J ev cartID req w)) = cw_charges w @ xs \<and> length xs \<le> 1 \<and>
        fst ` set xs \<subseteq> {ev_orderID ev}"
proof -
  have none: "\<exists>xs. lg = lg @ xs \<and> length xs \<le> 1 \<and> fst ` set xs \<subseteq> {ev_orderID ev}" for lg :: charge_log
    by (intro exI [of _ "[]"]) simp
  have run: "\<exists>xs. cw_charges (snd (checkout_cart J ev key cardNumber cartID cust (w\<lparr>cw_db := db\<rparr>))) = cw_charges w @ xs \<and>
      length xs \<le> 1 \<and> fst ` set xs \<subseteq> {ev_orderID ev}" for key cardNumber cust db
    using checkout_cart_charges [of J ev key cardNumber cartID cust "w\<lparr>cw_db := db\<rparr>"] by simp
  show ?thesis
    using none run checkout_cart_charges [of J ev "''''" "cr_CreditCard req" cartID _ w]
    by (auto simp: Checkout_def Let_def split: option.splits sum.splits prod.splits)
qed


section \<open>A successful checkout\<close>

text \<open>The three kinds of keys of the cart database never collide.\<close>

lemma key_spaces:
  "OrderKeyPrefix @ a \<noteq> IDFor b" "OrderKeyPrefix @ a \<noteq> idempotencyPrefix @ b" "idempotencyPrefix @ a \<noteq> IDFor b"
  by (simp_all add: OrderKeyPrefix_def IDFor_def cart_KeyPrefix_def idempotencyPrefix_def)

lemma cart_Save_other: "k \<noteq> ct_CartID ct \<Longrightarrow> s_data (snd (cart_Save J c ct db)) k = s_data db k"
  using db_PutWithTTL_other [of k "ct_CartID ct" c _ 0 db]
  by (auto simp: cart_Save_def db_Put_def split: option.splits prod.splits sum.splits) (metis snd_conv)+

lemma cart_Clear_other: "k \<noteq> IDFor cust \<Longrightarrow> s_data (snd (cart_Clear J c cust db)) k = s_data db k"
  by (simp add: cart_Clear_def NewCart_def cart_Save_other)

lemma db_Put_ok_value:
  assumes "db_Put c key val db = (Inr e, db')"
  shows "s_data db' key = Some e \<and> e_Value e = val"
proof -
  have "call_err c = None" using assms by (auto simp: db_Put_def db_PutWithTTL_def rpc_put_def split: option.splits)
  from db_PutWithTTL_ok [OF this, of 0 key val db] assms show ?thesis
    by (auto simp: db_Put_def MinInt_def MaxInt_def)
qed

lemma writeOrder_ok:
  assumes "codecs_ok J" and "writeOrder J c order w = (None, w')"
  shows "\<exists>e. s_data (cw_db w') (OrderKeyPrefix @ co_OrderID order) = Some e \<and> dec_order J (e_Value e) = Some order"
proof -
  obtain raw e db where "enc_order J order = Some raw"
    "db_Put c (OrderKeyPrefix @ co_OrderID order) raw (cw_db w) = (Inr e, db)" "w' = w\<lparr>cw_db := db\<rparr>"
    using assms(2) by (auto simp: writeOrder_def split: option.splits prod.splits sum.splits)
  moreover from this have "dec_order J raw = Some order"
    using assms(1) codec_okD [of "enc_order J" "dec_order J"] by (simp add: codecs_ok_def)
  ultimately show ?thesis using db_Put_ok_value by fastforce
qed

lemma txn_Commit_ok:
  assumes "txn_ResolveCall c txn_Commit txnID w = (None, w')"
  shows "m_txns (cw_txn w') txnID = None"
  using assms txn_resolve_ok(3) [of txnID TxnCommitted "cw_txn w"]
  by (auto simp: txn_ResolveCall_def rpc_post_def txn_Commit_def case_prod_unfold Let_def split: option.splits sum.splits)
    (metis fun_upd_same prod.collapse)

definition order_receipt :: "cart_Order \<Rightarrow> Receipt" where
  "order_receipt order = \<lparr>rp_OrderID = co_OrderID order, rp_Status = co_Status order,
     rp_TotalPrice = co_TotalPrice order, rp_TotalWeight = co_TotalWeight order\<rparr>"

definition completed_claim :: "int \<Rightarrow> string \<Rightarrow> string \<Rightarrow> Receipt \<Rightarrow> idempotencyRecord" where
  "completed_claim now key cartID receipt =
     \<lparr>ir_Key = key, ir_CartID = cartID, ir_State = claimCompleted, ir_Receipt = Some receipt, ir_StartedAt = now\<rparr>"

lemma commit_order_ok:
  assumes J: "codecs_ok J" and ok: "commit_order J ev key txnID order w = (Inr receipt, w')"
  shows "receipt = order_receipt order" and "m_txns (cw_txn w') txnID = None" and "cw_wh w' = cw_wh w"
    and "\<exists>e. s_data (cw_db w') (OrderKeyPrefix @ co_OrderID order) = Some e \<and> dec_order J (e_Value e) = Some order"
    and "key \<noteq> '''' \<Longrightarrow> \<exists>db. cw_db w' = idem_complete J (ev_call ev CompleteClaim) (ev_now ev) key (co_CartID order) receipt db"
proof -
  obtain w1 where w1: "writeOrder J (ev_call ev WriteOrder) order w = (None, w1)"
    using ok by (auto simp: commit_order_def split: prod.splits option.splits)
  let ?w2 = "w1\<lparr>cw_db := snd (cart_Clear J (ev_call ev ClearCart) (co_CustomerID order) (cw_db w1))\<rparr>"
  obtain w3 where w3: "txn_ResolveCall (ev_call ev CommitTxn) txn_Commit txnID ?w2 = (None, w3)"
    using ok w1 by (auto simp: commit_order_def Let_def split: prod.splits option.splits)
  let ?r = "order_receipt order"
  let ?w4 = "if key \<noteq> '''' then w3\<lparr>cw_db := idem_complete J (ev_call ev CompleteClaim) (ev_now ev) key (co_CartID order) ?r (cw_db w3)\<rparr> else w3"
  have fin: "receipt = ?r" "w' = queueShipment (ev_call ev QueueShip) order (announcePlaced (ev_call ev PublishPlaced) order ?w4)"
    using ok w1 w3 by (auto simp: commit_order_def Let_def order_receipt_def)
  show "receipt = order_receipt order" by (fact fin(1))
  show "m_txns (cw_txn w') txnID = None" using txn_Commit_ok [OF w3] by (simp add: fin(2))
  have "cw_wh w3 = cw_wh w"
    using txn_ResolveCall_other(3) [of "ev_call ev CommitTxn" txn_Commit txnID ?w2] w3
      writeOrder_other(2) [of J "ev_call ev WriteOrder" order w] w1 by simp
  then show "cw_wh w' = cw_wh w" by (simp add: fin(2))
  have db3: "cw_db w3 = cw_db ?w2"
    using txn_ResolveCall_other(2) [of "ev_call ev CommitTxn" txn_Commit txnID ?w2] w3 by simp
  have "s_data (cw_db w') (OrderKeyPrefix @ co_OrderID order) = s_data (cw_db w1) (OrderKeyPrefix @ co_OrderID order)"
    by (simp add: fin(2) db3 idem_complete_def claim_save_other cart_Clear_other key_spaces)
  with writeOrder_ok [OF J w1]
  show "\<exists>e. s_data (cw_db w') (OrderKeyPrefix @ co_OrderID order) = Some e \<and> dec_order J (e_Value e) = Some order"
    by simp
  show "\<exists>db. cw_db w' = idem_complete J (ev_call ev CompleteClaim) (ev_now ev) key (co_CartID order) receipt db" if "key \<noteq> ''''"
    using that by (auto simp: fin)
qed


lemma reserve_op_ok:
  assumes ok: "reserve_op fp now newid rid items iv = (Inr rsv, iv')" and fresh: "inv_receipts iv rid = None"
  obtains ns where "normalize items = Inr ns" and "short_item ns iv = None"
    and "\<And>p. stock_of iv' p = stock_of (deduct ns (fold (\<lambda>it. counter (o_ProductID it)) ns iv)) p"
    and "inv_reservations iv' = (inv_reservations iv)(newid \<mapsto>
       \<lparr>r_ID = newid, r_RequestID = rid, r_State = Reserved, r_Items = ns, r_CreatedAt = now, r_ExpiresAt = now + inv_ttl iv\<rparr>)"
    and "rr_ReservationID rsv = newid"
proof -
  obtain r where R: "ReserveWithRequestID fp now newid (\<lambda>k i. id) rid items iv = (Some (Inr r), iv')"
      and rsv: "rr_ReservationID rsv = r_ID r"
    using ok by (auto simp: reserve_op_def handleReserve_def split: option.splits prod.splits sum.splits go_error.splits)
  obtain ns where ns: "normalize items = Inr ns"
    using R by (auto simp: ReserveWithRequestID_def split: option.splits sum.splits)
  obtain iv1 where op: "reserve_open fp rid ns iv = (Claims, iv1)" using fresh by (simp add: reserve_open_def)
  note o1 = reserve_open_other [OF op]
  obtain err iv2 where st: "reserveStock (\<lambda>k i. id) ns iv1 = (err, iv2)" by force
  have cl: "reserve_close now newid rid ns err iv2 = (Inr r, iv')"
    using R ns op st by (auto simp: ReserveWithRequestID_def split: prod.splits option.splits)
  then have "err = None" by (auto simp: reserve_close_def Let_def split: option.splits)
  let ?start = "fold (\<lambda>it. counter (o_ProductID it)) ns iv1"
  have d: "short_item ns ?start = None" "iv2 = deduct ns ?start"
    using st \<open>err = None\<close> by (auto simp: reserveStock_quiet stock_decision_def split: option.splits)
  have so: "stock_of iv1 = stock_of iv" by (rule same_stock [OF o1(1,3)])
  then have "short_item ns iv = None" using d(1) by (simp add: short_item_def)
  note c = reserve_close_ok [OF cl [unfolded \<open>err = None\<close>]]
  have dd: "stock_of (deduct xs a) = stock_of (deduct xs b)" if "stock_of a = stock_of b" for xs and a b :: "'a Inventory"
    using that
  proof (induction xs arbitrary: a b)
    case (Cons x xs)
    let ?st = "\<lparr>sr_quantity = wrap64 (sr_quantity (stock_of a (o_ProductID x)) - o_Quantity x),
                sr_version = sr_version (stock_of a (o_ProductID x)) + 1\<rparr>"
    have "stock_of (set_stock (o_ProductID x) ?st a) = stock_of (set_stock (o_ProductID x) ?st b)"
      using Cons.prems by (simp add: fun_eq_iff)
    from Cons.IH [OF this] Cons.prems show ?case by (simp add: Let_def)
  qed simp
  have "stock_of iv' = stock_of (deduct ns ?start)" using same_stock [OF c(1,2)] d(2) by simp
  also have "\<dots> = stock_of (deduct ns (fold (\<lambda>it. counter (o_ProductID it)) ns iv))" by (rule dd) (simp add: so)
  finally have stock: "stock_of iv' p = stock_of (deduct ns (fold (\<lambda>it. counter (o_ProductID it)) ns iv)) p" for p by simp
  have ttl: "inv_ttl iv2 = inv_ttl iv"
  proof -
    have "inv_ttl ?start = inv_ttl iv1" by (induction ns arbitrary: iv1) simp_all
    moreover have "inv_ttl iv1 = inv_ttl iv" using op by (auto simp: reserve_open_def split: option.splits if_splits)
    ultimately show ?thesis by (simp add: d(2))
  qed
  have "r_ID r = newid" using cl \<open>err = None\<close> by (auto simp: reserve_close_def Let_def)
  with that [OF ns \<open>short_item ns iv = None\<close> stock] c(3) ttl o1(2) d(2) rsv show thesis by simp
qed

lemma run_txn_ok:
  assumes J: "codecs_ok J"
    and fresh: "inv_receipts (cw_wh w) (co_OrderID order) = None"
    and ok: "run_txn J ev key cardNumber txnID order w = (Inr receipt, w')"
  shows "\<exists>code ns. let order' = order\<lparr>co_ReservationID := ev_resID ev, co_AuthorizationCode := code\<rparr> in
     receipt = order_receipt order \<and> m_txns (cw_txn w') txnID = None \<and>
     cw_charges w' = cw_charges w @ [(co_OrderID order, co_TotalPrice order)] \<and>
     (\<exists>e. s_data (cw_db w') (OrderKeyPrefix @ co_OrderID order) = Some e \<and> dec_order J (e_Value e) = Some order') \<and>
     normalize (orderItems (co_Items order)) = Inr ns \<and>
     (\<exists>r. inv_reservations (cw_wh w') (ev_resID ev) = Some r \<and> r_State r = Reserved \<and> r_Items r = ns \<and>
          r_RequestID r = co_OrderID order) \<and>
     (key \<noteq> '''' \<longrightarrow> (\<exists>db. cw_db w' = idem_complete J (ev_call ev CompleteClaim) (ev_now ev) key (co_CartID order) receipt db))"
proof -
  obtain rsv w1 where r: "wh_ReserveCall ev (co_OrderID order) (orderItems (co_Items order)) w = (Inr rsv, w1)"
    using ok by (auto simp: run_txn_def Let_def split: prod.splits sum.splits if_splits)
  have c1: "cw_charges w1 = cw_charges w"
    using wh_ReserveCall_other(1) [of ev "co_OrderID order" "orderItems (co_Items order)" w] r by simp
  obtain iv where iv: "reserve_op (ev_fp ev) (call_now (ev_call ev HoldStock)) (ev_resID ev) (co_OrderID order)
      (orderItems (co_Items order)) (cw_wh w) = (Inr rsv, iv)" "cw_wh w1 = iv"
    using r by (auto simp: wh_ReserveCall_def rpc_post_def Let_def split: option.splits prod.splits)
  obtain ns where ns: "normalize (orderItems (co_Items order)) = Inr ns" "rr_ReservationID rsv = ev_resID ev"
    and res: "\<exists>r. inv_reservations iv (ev_resID ev) = Some r \<and> r_State r = Reserved \<and> r_Items r = ns \<and> r_RequestID r = co_OrderID order"
    by (rule reserve_op_ok [OF iv(1) fresh]) simp
  obtain d code ae w2 where a: "cards_AuthorizeCall ev cardNumber (co_TotalPrice order) (co_OrderID order) w1 = ((d, code, ae), w2)"
    by (metis surj_pair)
  let ?order = "order\<lparr>co_ReservationID := rr_ReservationID rsv, co_AuthorizationCode := code\<rparr>"
  have "d = Approved" and co: "commit_order J ev key txnID ?order w2 = (Inr receipt, w')"
    using ok r a by (cases d; auto simp: run_txn_def Let_def split: prod.splits sum.splits)+
  then have "cw_charges w2 = cw_charges w @ [(co_OrderID order, co_TotalPrice order)]"
    using a c1 authorize_approved by (auto simp: cards_AuthorizeCall_def Let_def split: prod.splits)
  moreover have "cw_charges w' = cw_charges w2"
    using commit_order_charges [of J ev key txnID ?order w2] co by simp
  moreover have "cw_wh w2 = iv"
    using cards_AuthorizeCall_other(3) [of ev cardNumber "co_TotalPrice order" "co_OrderID order" w1] a iv(2) by simp
  ultimately show ?thesis
    using commit_order_ok [OF J co] ns res
    by (intro exI [of _ code] exI [of _ ns]) (simp add: Let_def order_receipt_def)
qed


text \<open>What a checkout that was not a replay leaves behind when it succeeds.\<close>

definition order_of :: "'d checkout_env \<Rightarrow> string \<Rightarrow> string \<Rightarrow> Cart \<Rightarrow> cart_Order" where
  "order_of ev cartID customerID ct =
     \<lparr>co_OrderID = ev_orderID ev, co_CartID = cartID, co_CustomerID = customerID, co_Items = ct_Items ct,
      co_TotalWeight = TotalWeight ct, co_TotalPrice = TotalPrice ct, co_ReservationID = '''',
      co_AuthorizationCode = '''', co_Status = ''confirmed'', co_PlacedAt = ev_now ev\<rparr>"

definition placed :: "codecs \<Rightarrow> 'd checkout_env \<Rightarrow> cart_Order \<Rightarrow> Receipt \<Rightarrow> 'd world \<Rightarrow> 'd world \<Rightarrow> bool" where
  "placed J ev order receipt w w' \<longleftrightarrow>
     receipt = order_receipt order \<and> m_txns (cw_txn w') (ev_txnID ev) = None \<and>
     cw_charges w' = cw_charges w @ [(co_OrderID order, co_TotalPrice order)] \<and>
     (\<exists>code e. s_data (cw_db w') (OrderKeyPrefix @ co_OrderID order) = Some e \<and>
        dec_order J (e_Value e) = Some (order\<lparr>co_ReservationID := ev_resID ev, co_AuthorizationCode := code\<rparr>)) \<and>
     (\<exists>r. inv_reservations (cw_wh w') (ev_resID ev) = Some r \<and> r_State r = Reserved \<and>
          normalize (orderItems (co_Items order)) = Inr (r_Items r) \<and> r_RequestID r = co_OrderID order)"

lemma txn_BeginCall_ok:
  "txn_BeginCall ev w = (Inr t, w1) \<Longrightarrow> t = ev_txnID ev"
  by (auto simp: txn_BeginCall_def rpc_post_def client_BeginTxn_def txn_Begin_def Let_def
      split: option.splits prod.splits if_splits)

lemma checkout_cart_ok:
  assumes J: "codecs_ok J" and fresh: "inv_receipts (cw_wh w) (ev_orderID ev) = None"
    and ok: "checkout_cart J ev key cardNumber cartID customerID w = (Inr receipt, w')"
  shows "\<exists>ct. cart_Get J (ev_call ev GetCart) customerID (cw_db w) = Inr (Some ct) \<and> ct_Items ct \<noteq> [] \<and>
     placed J ev (order_of ev cartID customerID ct) receipt w w' \<and>
     (key \<noteq> '''' \<longrightarrow> (\<exists>db. cw_db w' = idem_complete J (ev_call ev CompleteClaim) (ev_now ev) key cartID receipt db))"
proof -
  obtain ct where ct: "cart_Get J (ev_call ev GetCart) customerID (cw_db w) = Inr (Some ct)" "ct_Items ct \<noteq> []"
    using ok by (auto simp: checkout_cart_def IsEmpty_def split: sum.splits if_splits)
  obtain t w1 where b: "txn_BeginCall ev w = (Inr t, w1)"
    using ok ct by (auto simp: checkout_cart_def IsEmpty_def Let_def split: sum.splits prod.splits)
  let ?order = "order_of ev cartID customerID ct"
  have run: "run_txn J ev key cardNumber t ?order w1 = (Inr receipt, w')"
    using ok ct b by (simp add: checkout_cart_def IsEmpty_def Let_def order_of_def)
  have o: "cw_charges w1 = cw_charges w" "cw_wh w1 = cw_wh w" "t = ev_txnID ev"
    using txn_BeginCall_other [of ev w] b txn_BeginCall_ok [OF b] by simp_all
  have "inv_receipts (cw_wh w1) (co_OrderID ?order) = None" using fresh o(2) by (simp add: order_of_def)
  from run_txn_ok [OF J this run] ct o show ?thesis
    by (intro exI [of _ ct]) (auto simp: placed_def Let_def order_of_def)
qed

text \<open>Taking the key writes the claim's record only, so the cart it goes on with is the stored one.\<close>

lemma idem_claim_keeps_carts:
  assumes "idem_claim J cl cs now key cartID db = (r, db')"
  shows "s_data db' (IDFor customerID) = s_data db (IDFor customerID)"
  using assms claim_save_other [of "IDFor customerID" "\<lparr>ir_Key = key, ir_CartID = cartID, ir_State = claimInProgress,
      ir_Receipt = None, ir_StartedAt = now\<rparr>" J cs inProgressTTL db] key_spaces(3) [of key customerID]
  by (auto simp: idem_claim_def Let_def split: sum.splits option.splits if_splits prod.splits)

definition stored_cart :: "codecs \<Rightarrow> int \<Rightarrow> string \<Rightarrow> Store \<Rightarrow> Cart \<Rightarrow> bool" where
  "stored_cart J now customerID db ct \<longleftrightarrow>
     (case store_Get now (IDFor customerID) db of None \<Rightarrow> False | Some e \<Rightarrow> dec_cart J (e_Value e) = Some ct)"

lemma cart_Get_stored: "cart_Get J c customerID db = Inr (Some ct) \<Longrightarrow> stored_cart J (call_now c) customerID db ct"
  by (auto simp: cart_Get_def stored_cart_def db_Get_def client_Get_def handleInternalRead_def LocalRead_def rpc_get_def answer_def
      split: sum.splits option.splits if_splits)

lemma stored_cart_cong:
  "s_data db' (IDFor customerID) = s_data db (IDFor customerID) \<Longrightarrow>
   stored_cart J now customerID db' ct = stored_cart J now customerID db ct"
  by (simp add: stored_cart_def store_Get_def)

text \<open>
  C2. What a successful checkout means, for an order id the warehouse has no receipt for. Either the
  receipt is the one stored under the caller's idempotency key for this cart, and nothing at all was
  changed; or the cart the database held for this cart's customer when the checkout began was not empty,
  the card was charged once for that cart's total, the order with that cart's lines is stored under its id
  with the reservation that holds all of them, the transaction is closed, and the receipt is that order's.
  No combination of faults makes a success mean less.
\<close>

theorem checkout_success:
  assumes J: "codecs_ok J" and fresh: "inv_receipts (cw_wh w) (ev_orderID ev) = None"
    and ok: "Checkout J ev cartID req w = (Inr receipt, w')"
  shows "(request_key req \<noteq> '''' \<and> w' = w \<and>
            (\<exists>rec. claim_load J (ev_call ev LoadClaim) (request_key req) (cw_db w) = Inr (Some rec) \<and>
                   ir_CartID rec = cartID \<and> ir_Receipt rec = Some receipt)) \<or>
         (\<exists>ct customerID. CustomerFor cartID = Inr customerID \<and>
            stored_cart J (call_now (ev_call ev GetCart)) customerID (cw_db w) ct \<and> ct_Items ct \<noteq> [] \<and>
            placed J ev (order_of ev cartID customerID ct) receipt w w')"
proof (cases "request_key req = ''''")
  case True
  then obtain customerID where "CustomerFor cartID = Inr customerID"
      "checkout_cart J ev '''' (cr_CreditCard req) cartID customerID w = (Inr receipt, w')"
    using ok by (auto simp: Checkout_def split: if_splits sum.splits)
  with checkout_cart_ok [OF J fresh this(2)] show ?thesis by (blast intro: cart_Get_stored)
next
  case False
  then obtain customerID where cust: "CustomerFor cartID = Inr customerID"
    using ok by (auto simp: Checkout_def Let_def split: if_splits sum.splits option.splits)
  obtain cl db where ic: "idem_claim J (ev_call ev LoadClaim) (ev_call ev SaveClaim) (ev_now ev) (request_key req) cartID (cw_db w) = (cl, db)"
    by force
  consider "cl = Inr (Some receipt)" "w' = w\<lparr>cw_db := db\<rparr>"
    | "cl = Inr None" "checkout_cart J ev (request_key req) (cr_CreditCard req) cartID customerID (w\<lparr>cw_db := db\<rparr>) = (Inr receipt, w')"
    using ok False cust ic by (auto simp: Checkout_def Let_def split: if_splits sum.splits option.splits)
  then show ?thesis
  proof cases
    case 1
    then have "db = cw_db w \<and> (\<exists>rec. claim_load J (ev_call ev LoadClaim) (request_key req) (cw_db w) = Inr (Some rec) \<and>
        ir_CartID rec = cartID \<and> ir_Receipt rec = Some receipt)"
      using ic by (auto simp: idem_claim_def Let_def split: sum.splits option.splits if_splits prod.splits)
    with 1 False show ?thesis by (cases w) auto
  next
    case 2
    then have "inv_receipts (cw_wh (w\<lparr>cw_db := db\<rparr>)) (ev_orderID ev) = None" using fresh by simp
    from checkout_cart_ok [OF J this 2(2)] obtain ct where
      ct: "cart_Get J (ev_call ev GetCart) customerID db = Inr (Some ct)" "ct_Items ct \<noteq> []"
        "placed J ev (order_of ev cartID customerID ct) receipt w w'" by (auto simp: placed_def)
    from cart_Get_stored [OF ct(1)] have "stored_cart J (call_now (ev_call ev GetCart)) customerID (cw_db w) ct"
      by (simp add: stored_cart_cong [OF idem_claim_keeps_carts [OF ic]])
    with cust ct show ?thesis by blast
  qed
qed


section \<open>Retrying with the same key\<close>

lemma idem_complete_record:
  assumes "codecs_ok J" and "call_err c = None" and "enc_claim J (completed_claim now key cartID receipt) \<noteq> None"
  shows "\<exists>e. s_data (idem_complete J c now key cartID receipt db) (idempotencyPrefix @ key) = Some e \<and>
             dec_claim J (e_Value e) = Some (completed_claim now key cartID receipt) \<and>
             e_ExpiresAt e = UnixMilli (call_now c) + 86400000"
proof -
  let ?rec = "completed_claim now key cartID receipt"
  have "in_int64 completedTTL" by (simp add: completedTTL_def MinInt_def MaxInt_def)
  from claim_save_ok [OF assms(1,3,2) this, of db] obtain e db' where
    "claim_save J c ?rec completedTTL db = (None, db')" "s_data db' (idempotencyPrefix @ key) = Some e"
    "dec_claim J (e_Value e) = Some ?rec" "e_ExpiresAt e = UnixMilli (call_now c) + 86400000"
    by (auto simp: completed_claim_def completedTTL_def Millisecond_def)
  then show ?thesis by (simp add: idem_complete_def completed_claim_def)
qed

text \<open>
  C3. A retry never pays twice. After a checkout under an idempotency key has charged the card
  and recorded its completion, any later request with the same key for the same cart within the
  retention time returns the same receipt and changes nothing, whatever else has happened to the
  rest of the system in between: no charge, no stock, no order. The same key for another cart is
  refused with 409, also without any change.
\<close>

theorem checkout_retry_replays:
  assumes J: "codecs_ok J" and fresh: "inv_receipts (cw_wh w) (ev_orderID ev) = None"
    and first: "Checkout J ev cartID req w = (Inr receipt, w')" and charged: "cw_charges w' \<noteq> cw_charges w"
    and key: "request_key req \<noteq> ''''"
    and recorded: "call_err (ev_call ev CompleteClaim) = None"
      "enc_claim J (completed_claim (ev_now ev) (request_key req) cartID receipt) \<noteq> None"
    and kept: "s_data (cw_db w2) (idempotencyPrefix @ request_key req) = s_data (cw_db w') (idempotencyPrefix @ request_key req)"
    and retry: "request_key req2 = request_key req" "cr_CreditCard req2 \<noteq> ''''"
      "call_err (ev_call ev2 LoadClaim) = None"
      "UnixMilli (call_now (ev_call ev2 LoadClaim)) < UnixMilli (call_now (ev_call ev CompleteClaim)) + 86400000"
  shows "Checkout J ev2 cartID req2 w2 = (Inr receipt, w2) \<and>
         (\<forall>customer. customer \<noteq> '''' \<and> IDFor customer \<noteq> cartID \<longrightarrow>
            (\<exists>err. Checkout J ev2 (IDFor customer) req2 w2 = (Inl err, w2) \<and> StatusOf (Some err) = StatusConflict))"
proof -
  let ?key = "request_key req" and ?rec = "completed_claim (ev_now ev) (request_key req) cartID receipt"
  have valid: "validateIdempotencyKey ?key = None" and cust: "\<exists>c. CustomerFor cartID = Inr c"
    using first key by (auto simp: Checkout_def Let_def split: option.splits if_splits sum.splits)
  obtain customerID db0 where
    cc: "checkout_cart J ev ?key (cr_CreditCard req) cartID customerID (w\<lparr>cw_db := db0\<rparr>) = (Inr receipt, w')"
    using first key valid charged
    by (auto simp: Checkout_def Let_def split: if_splits sum.splits prod.splits option.splits)
  have "inv_receipts (cw_wh (w\<lparr>cw_db := db0\<rparr>)) (ev_orderID ev) = None" using fresh by simp
  from checkout_cart_ok [OF J this cc] key obtain db where
    db: "cw_db w' = idem_complete J (ev_call ev CompleteClaim) (ev_now ev) ?key cartID receipt db" by blast
  obtain e where e: "s_data (cw_db w2) (idempotencyPrefix @ ?key) = Some e" "dec_claim J (e_Value e) = Some ?rec"
      "e_ExpiresAt e = UnixMilli (call_now (ev_call ev CompleteClaim)) + 86400000"
    using idem_complete_record [OF J recorded, of db] kept db by auto
  then have load: "claim_load J (ev_call ev2 LoadClaim) ?key (cw_db w2) = Inr (Some ?rec)"
    using retry(3,4) by (simp add: claim_load_def db_Get_ok store_Get_def Expired_def)
  have claim: "idem_claim J (ev_call ev2 LoadClaim) (ev_call ev2 SaveClaim) (ev_now ev2) ?key cid (cw_db w2) =
      (if cartID \<noteq> cid then (Inl (Errorf StatusConflict ''idempotency key %q was already used for a different cart''), cw_db w2)
       else (Inr (Some receipt), cw_db w2))" for cid
    using load by (simp add: idem_claim_def completed_claim_def Let_def)
  show ?thesis
    using claim retry(1,2) key valid cust
    by (auto simp: Checkout_def Let_def CustomerFor_IDFor)
qed


section \<open>A concrete checkout\<close>

definition shop_cart :: Cart where
  "shop_cart = \<lparr>ct_CartID = ''cart-alice'', ct_CustomerID = ''alice'', ct_Items = [demo_line],
     ct_CreatedAt = 0, ct_UpdatedAt = 0\<rparr>"

definition shop_env :: "orders_Item list checkout_env" where
  "shop_env = \<lparr>ev_now = 0, ev_call = \<lambda>s. ok_call 0, ev_orderID = ''ord-1'', ev_txnID = ''t1'',
     ev_resID = ''res-1'', ev_approved = True, ev_stamp = ''s'', ev_fp = id\<rparr>"

definition shop_order :: cart_Order where
  "shop_order = \<lparr>co_OrderID = ''ord-1'', co_CartID = ''cart-alice'', co_CustomerID = ''alice'',
     co_Items = [demo_line], co_TotalWeight = TotalWeight shop_cart, co_TotalPrice = TotalPrice shop_cart,
     co_ReservationID = ''res-1'', co_AuthorizationCode = ''AUTH-s'', co_Status = ''confirmed'', co_PlacedAt = 0\<rparr>"

definition shop_open_claim :: idempotencyRecord where
  "shop_open_claim = \<lparr>ir_Key = ''k1'', ir_CartID = ''cart-alice'', ir_State = claimInProgress,
     ir_Receipt = None, ir_StartedAt = 0\<rparr>"

definition shop_codecs :: codecs where
  "shop_codecs =
     (let carts = [(shop_cart, ''c''), (NewCart 0 ''alice'', ''e'')];
          claims = [(shop_open_claim, ''i''),
                    (completed_claim 0 ''k1'' ''cart-alice'' (order_receipt shop_order), ''d''),
                    (shop_open_claim\<lparr>ir_StartedAt := - 120000000000\<rparr>, ''r'')];
          orders = [(shop_order, ''o'')]
      in \<lparr>enc_cart = table_enc carts, dec_cart = table_dec carts, enc_claim = table_enc claims,
          dec_claim = table_dec claims, enc_order = table_enc orders, dec_order = table_dec orders\<rparr>)"

definition shop_req :: CheckoutRequest where
  "shop_req = \<lparr>cr_RequestID = ''k1'', cr_CreditCard = ''4111111111111111'', cr_IdempotencyKey = ''''\<rparr>"

definition shop_world :: "orders_Item list world" where
  "shop_world = \<lparr>cw_db = \<lparr>s_data = [''cart-alice'' \<mapsto> \<lparr>e_Key = ''cart-alice'', e_Value = ''c'', e_Version = 1,
       e_Origin = ''n'', e_ExpiresAt = 0\<rparr>], s_nodeID = ''n''\<rparr>,
     cw_txn = NewTxnManager 0, cw_wh = New 100 0, cw_charges = [], cw_bus = [], cw_queue = []\<rparr>"

lemma shop_codecs_ok: "codecs_ok shop_codecs"
  by (simp add: codecs_ok_def shop_codecs_def Let_def table_codec_ok)

lemma reserve_op_succeeds:
  assumes "valid_request_id rid = None" and "normalize items = Inr ns" and "inv_receipts iv rid = None"
    and "short_item ns iv = None"
  shows "\<exists>rsv iv'. reserve_op fp now newid rid items iv = (Inr rsv, iv') \<and> rr_ReservationID rsv = newid"
proof -
  obtain iv1 where op: "reserve_open fp rid ns iv = (Claims, iv1)" using assms(3) by (simp add: reserve_open_def)
  note o1 = reserve_open_other [OF op]
  have "stock_of iv1 = stock_of iv" by (rule same_stock [OF o1(1,3)])
  then have "short_item ns (fold (\<lambda>it. counter (o_ProductID it)) ns iv1) = None"
    using assms(4) by (simp add: short_item_def)
  then obtain iv2 where st: "reserveStock (\<lambda>k i. id) ns iv1 = (None, iv2)"
    by (simp add: reserveStock_quiet stock_decision_def)
  obtain r iv3 where cl: "reserve_close now newid rid ns None iv2 = (Inr r, iv3)" "r_ID r = newid"
    by (simp add: reserve_close_def Let_def)
  have "ReserveWithRequestID fp now newid (\<lambda>k i. id) rid items iv = (Some (Inr r), iv3)"
    using assms(1,2) op st cl by (simp add: ReserveWithRequestID_def)
  then show ?thesis using cl(2) by (simp add: reserve_op_def handleReserve_def)
qed

section \<open>Nothing in the way: the checkout completes\<close>

text \<open>
  The customer has a stored, non-empty cart, the requested units are in stock, the card is valid
  and the issuer accepts it, the ids are fresh, and the values to be stored have encodings.
\<close>

definition ready :: "codecs \<Rightarrow> 'd checkout_env \<Rightarrow> string \<Rightarrow> string \<Rightarrow> string \<Rightarrow> Cart \<Rightarrow> 'd world \<Rightarrow> bool" where
  "ready J ev cartID cardNumber customerID ct w \<longleftrightarrow>
     (\<exists>e. store_Get (call_now (ev_call ev GetCart)) (IDFor customerID) (cw_db w) = Some e \<and>
          dec_cart J (e_Value e) = Some ct) \<and> ct_Items ct \<noteq> [] \<and>
     ev_txnID ev \<noteq> '''' \<and> valid_request_id (ev_orderID ev) = None \<and>
     inv_receipts (cw_wh w) (ev_orderID ev) = None \<and>
     (\<exists>ns. normalize (OrderItems ct) = Inr ns \<and> short_item ns (cw_wh w) = None) \<and>
     ValidCardNumber cardNumber \<and> ev_approved ev \<and>
     enc_order J ((order_of ev cartID customerID ct)\<lparr>co_ReservationID := ev_resID ev,
        co_AuthorizationCode := ''AUTH-'' @ ev_stamp ev\<rparr>) \<noteq> None"

lemma ready_db:
  assumes "s_data db (IDFor customerID) = s_data (cw_db w) (IDFor customerID)"
  shows "ready J ev cartID cardNumber customerID ct (w\<lparr>cw_db := db\<rparr>) = ready J ev cartID cardNumber customerID ct w"
  using assms by (simp add: ready_def store_Get_def)

text \<open>Everything up to the commit of the transaction.\<close>

lemma reach_commit:
  assumes r: "ready J ev cartID cardNumber customerID ct w"
    and calls: "\<And>s. s \<in> {GetCart, BeginTxn, HoldStock, TakeMoney, WriteOrder} \<Longrightarrow> call_err (ev_call ev s) = None"
  obtains w2 where "m_txns (cw_txn w2) (ev_txnID ev) \<noteq> None" "cw_db w2 = cw_db w"
    "cw_charges w2 = cw_charges w @ [(ev_orderID ev, TotalPrice ct)]"
    "checkout_cart J ev key cardNumber cartID customerID w =
       (case commit_order J ev key (ev_txnID ev) ((order_of ev cartID customerID ct)\<lparr>co_ReservationID := ev_resID ev,
                co_AuthorizationCode := ''AUTH-'' @ ev_stamp ev\<rparr>) w2 of
          (Inl err, w3) \<Rightarrow> (Inl err, unwind J ev key cartID (ev_resID ev) (ev_txnID ev) w3)
        | (Inr receipt, w3) \<Rightarrow> (Inr receipt, w3))"
proof -
  let ?order = "order_of ev cartID customerID ct"
  have get: "cart_Get J (ev_call ev GetCart) customerID (cw_db w) = Inr (Some ct)"
    using r calls [of GetCart] by (auto simp: ready_def cart_Get_def db_Get_ok)
  obtain w1 where b: "txn_BeginCall ev w = (Inr (ev_txnID ev), w1)" "m_txns (cw_txn w1) (ev_txnID ev) \<noteq> None"
      "cw_db w1 = cw_db w" "cw_wh w1 = cw_wh w" "cw_charges w1 = cw_charges w"
    using r calls [of BeginTxn] by (simp add: ready_def txn_BeginCall_def rpc_post_def txn_Begin_def client_BeginTxn_def Let_def)
  obtain ns where ns: "normalize (OrderItems ct) = Inr ns" "short_item ns (cw_wh w) = None" using r by (auto simp: ready_def)
  have "valid_request_id (ev_orderID ev) = None" "inv_receipts (cw_wh w) (ev_orderID ev) = None" using r by (simp_all add: ready_def)
  from reserve_op_succeeds [OF this(1) ns(1) this(2) ns(2), of "ev_fp ev" "call_now (ev_call ev HoldStock)" "ev_resID ev"]
  obtain rsv w2 where h: "wh_ReserveCall ev (ev_orderID ev) (orderItems (ct_Items ct)) w1 = (Inr rsv, w2)"
      "rr_ReservationID rsv = ev_resID ev" "cw_txn w2 = cw_txn w1" "cw_db w2 = cw_db w1" "cw_charges w2 = cw_charges w1"
    using calls [of HoldStock] b(4)
    by (auto simp: wh_ReserveCall_def rpc_post_def Let_def OrderItems_def orderItems_def)
  let ?w3 = "w2\<lparr>cw_charges := cw_charges w2 @ [(ev_orderID ev, TotalPrice ct)]\<rparr>"
  have a: "cards_AuthorizeCall ev cardNumber (TotalPrice ct) (ev_orderID ev) w2 = ((Approved, ''AUTH-'' @ ev_stamp ev, None), ?w3)"
    using r calls [of TakeMoney]
    by (simp add: ready_def cards_AuthorizeCall_def cca_Authorize_def rpc_post_def handleAuthorize_def status_err_def
        classify_def Let_def)
  have "run_txn J ev key cardNumber (ev_txnID ev) ?order w1 =
      (case commit_order J ev key (ev_txnID ev) (?order\<lparr>co_ReservationID := ev_resID ev,
                co_AuthorizationCode := ''AUTH-'' @ ev_stamp ev\<rparr>) ?w3 of
          (Inl err, w3) \<Rightarrow> (Inl err, unwind J ev key cartID (ev_resID ev) (ev_txnID ev) w3)
        | (Inr receipt, w3) \<Rightarrow> (Inr receipt, w3))"
    using h a by (simp add: run_txn_def Let_def order_of_def)
  moreover have "checkout_cart J ev key cardNumber cartID customerID w = run_txn J ev key cardNumber (ev_txnID ev) ?order w1"
    using r get b(1) by (simp add: checkout_cart_def ready_def IsEmpty_def Let_def order_of_def)
  ultimately show thesis using that [of ?w3] b h by simp
qed

lemma writeOrder_succeeds:
  assumes "enc_order J order \<noteq> None" and "call_err c = None"
  obtains db where "writeOrder J c order w = (None, w\<lparr>cw_db := db\<rparr>)"
proof -
  obtain raw where "enc_order J order = Some raw" using assms(1) by blast
  moreover obtain e db where "db_Put c (OrderKeyPrefix @ co_OrderID order) raw (cw_db w) = (Inr e, db)"
    using db_PutWithTTL_ok [OF assms(2), of 0 "OrderKeyPrefix @ co_OrderID order" raw "cw_db w"]
    by (auto simp: db_Put_def MinInt_def MaxInt_def)
  ultimately show thesis using that by (simp add: writeOrder_def)
qed

lemma commit_order_succeeds:
  assumes "enc_order J order \<noteq> None" and "call_err (ev_call ev WriteOrder) = None" "call_err (ev_call ev CommitTxn) = None"
    and "m_txns (cw_txn w) txnID \<noteq> None" "txnID \<noteq> ''''"
  shows "\<exists>w'. commit_order J ev key txnID order w = (Inr (order_receipt order), w')"
proof -
  obtain db where w1: "writeOrder J (ev_call ev WriteOrder) order w = (None, w\<lparr>cw_db := db\<rparr>)"
    using writeOrder_succeeds [OF assms(1,2)] .
  let ?w2 = "w\<lparr>cw_db := snd (cart_Clear J (ev_call ev ClearCart) (co_CustomerID order) db)\<rparr>"
  obtain w3 where "txn_ResolveCall (ev_call ev CommitTxn) txn_Commit txnID ?w2 = (None, w3)"
    using assms(3,4,5) by (auto simp: txn_ResolveCall_def rpc_post_def txn_Commit_def txn_resolve_def Let_def)
  with w1 show ?thesis by (simp add: commit_order_def Let_def order_receipt_def)
qed

lemma Checkout_enters:
  assumes calls: "call_err (ev_call ev LoadClaim) = None" "call_err (ev_call ev SaveClaim) = None"
    and req: "cr_CreditCard req \<noteq> ''''" "CustomerFor cartID = Inr customerID"
    and key: "request_key req \<noteq> '''' \<Longrightarrow> validateIdempotencyKey (request_key req) = None \<and>
       claim_load J (ev_call ev LoadClaim) (request_key req) (cw_db w) = Inr None \<and> codecs_ok J \<and>
       enc_claim J \<lparr>ir_Key = request_key req, ir_CartID = cartID, ir_State = claimInProgress,
                    ir_Receipt = None, ir_StartedAt = ev_now ev\<rparr> \<noteq> None"
    and r: "ready J ev cartID (cr_CreditCard req) customerID ct w"
  obtains db where "ready J ev cartID (cr_CreditCard req) customerID ct (w\<lparr>cw_db := db\<rparr>)"
    "Checkout J ev cartID req w = checkout_cart J ev (request_key req) (cr_CreditCard req) cartID customerID (w\<lparr>cw_db := db\<rparr>)"
proof (cases "request_key req = ''''")
  case True
  with req that [of "cw_db w"] r show ?thesis by (simp add: Checkout_def)
next
  case False
  let ?rec = "\<lparr>ir_Key = request_key req, ir_CartID = cartID, ir_State = claimInProgress,
                  ir_Receipt = None, ir_StartedAt = ev_now ev\<rparr>"
  note k = key [OF False]
  have "in_int64 inProgressTTL" by (simp add: inProgressTTL_def MinInt_def MaxInt_def)
  then obtain db where save: "claim_save J (ev_call ev SaveClaim) ?rec inProgressTTL (cw_db w) = (None, db)"
    using claim_save_ok [of J ?rec "ev_call ev SaveClaim" inProgressTTL "cw_db w"] k calls(2) by auto
  have "s_data db (IDFor customerID) = s_data (cw_db w) (IDFor customerID)"
    using claim_save_other [of "IDFor customerID" ?rec J "ev_call ev SaveClaim" inProgressTTL "cw_db w"] save
      key_spaces(3) [of "request_key req" customerID] by auto
  then have "ready J ev cartID (cr_CreditCard req) customerID ct (w\<lparr>cw_db := db\<rparr>)" using r by (simp add: ready_db)
  from that [OF this] k save req False show ?thesis by (simp add: Checkout_def Let_def idem_claim_def)
qed

lemma checkout_runs:
  assumes calls: "\<And>s. call_err (ev_call ev s) = None"
    and req: "cr_CreditCard req \<noteq> ''''" "CustomerFor cartID = Inr customerID"
    and key: "request_key req \<noteq> '''' \<Longrightarrow> validateIdempotencyKey (request_key req) = None \<and>
       claim_load J (ev_call ev LoadClaim) (request_key req) (cw_db w) = Inr None \<and> codecs_ok J \<and>
       enc_claim J \<lparr>ir_Key = request_key req, ir_CartID = cartID, ir_State = claimInProgress,
                    ir_Receipt = None, ir_StartedAt = ev_now ev\<rparr> \<noteq> None"
    and r: "ready J ev cartID (cr_CreditCard req) customerID ct w"
  shows "\<exists>w'. Checkout J ev cartID req w = (Inr (order_receipt (order_of ev cartID customerID ct)), w') \<and>
              cw_charges w' = cw_charges w @ [(ev_orderID ev, TotalPrice ct)]"
proof -
  have core: "\<exists>w'. checkout_cart J ev k (cr_CreditCard req) cartID customerID v =
      (Inr (order_receipt (order_of ev cartID customerID ct)), w') \<and>
      cw_charges w' = cw_charges v @ [(ev_orderID ev, TotalPrice ct)]"
    if v: "ready J ev cartID (cr_CreditCard req) customerID ct v" for k v
  proof -
    let ?order = "(order_of ev cartID customerID ct)\<lparr>co_ReservationID := ev_resID ev,
                co_AuthorizationCode := ''AUTH-'' @ ev_stamp ev\<rparr>"
    obtain w2 where w2: "m_txns (cw_txn w2) (ev_txnID ev) \<noteq> None"
      "cw_charges w2 = cw_charges v @ [(ev_orderID ev, TotalPrice ct)]"
      "checkout_cart J ev k (cr_CreditCard req) cartID customerID v =
         (case commit_order J ev k (ev_txnID ev) ?order w2 of
            (Inl err, w3) \<Rightarrow> (Inl err, unwind J ev k cartID (ev_resID ev) (ev_txnID ev) w3)
          | (Inr receipt, w3) \<Rightarrow> (Inr receipt, w3))"
      using reach_commit [OF v calls, of k] by blast
    have "enc_order J ?order \<noteq> None" "ev_txnID ev \<noteq> ''''" using v by (simp_all add: ready_def)
    from commit_order_succeeds [OF this(1) calls calls w2(1) this(2), of k] obtain w3 where
      "commit_order J ev k (ev_txnID ev) ?order w2 = (Inr (order_receipt ?order), w3)" by blast
    moreover from this have "cw_charges w3 = cw_charges w2"
      using commit_order_charges [of J ev k "ev_txnID ev" ?order w2] by simp
    ultimately show ?thesis using w2(2,3) by (simp add: order_receipt_def)
  qed
  obtain db where v: "ready J ev cartID (cr_CreditCard req) customerID ct (w\<lparr>cw_db := db\<rparr>)"
      "Checkout J ev cartID req w = checkout_cart J ev (request_key req) (cr_CreditCard req) cartID customerID (w\<lparr>cw_db := db\<rparr>)"
    using Checkout_enters [OF calls calls req key r] by blast
  from core [OF v(1), of "request_key req"] v(2) show ?thesis by simp
qed

text \<open>
  C14. A checkout with nothing in its way completes: when every call gets through, the request is
  well formed and its key unused, and the cart is ready to be bought, \<open>Checkout\<close> returns the
  receipt of the order, and the card has been charged its total once.
\<close>

theorem checkout_completes:
  assumes calls: "\<And>s. call_err (ev_call ev s) = None"
    and req: "cr_CreditCard req \<noteq> ''''" "CustomerFor cartID = Inr customerID"
    and key: "request_key req \<noteq> '''' \<Longrightarrow> validateIdempotencyKey (request_key req) = None \<and>
       claim_load J (ev_call ev LoadClaim) (request_key req) (cw_db w) = Inr None \<and> codecs_ok J \<and>
       enc_claim J \<lparr>ir_Key = request_key req, ir_CartID = cartID, ir_State = claimInProgress,
                    ir_Receipt = None, ir_StartedAt = ev_now ev\<rparr> \<noteq> None"
    and r: "ready J ev cartID (cr_CreditCard req) customerID ct w"
  shows "\<exists>w'. Checkout J ev cartID req w = (Inr (order_receipt (order_of ev cartID customerID ct)), w') \<and>
              cw_charges w' = cw_charges w @ [(ev_orderID ev, TotalPrice ct)]"
  by (rule checkout_runs [OF assms])

lemma shop_lines:
  "normalize (OrderItems shop_cart) = Inr (OrderItems shop_cart)"
  "short_item (OrderItems shop_cart) (New 100 0 :: orders_Item list Inventory) = None"
  by (simp_all add: Orders.normalize_def OrderItems_def item_Order_def shop_cart_def demo_line_def Let_def MaxInt_def
      MinInt_def wrap64_def short_item_def New_avail)

lemma shop_ready: "ready shop_codecs shop_env ''cart-alice'' ''4111111111111111'' ''alice'' shop_cart shop_world"
  unfolding ready_def
proof (intro conjI)
  show "\<exists>e. store_Get (call_now (ev_call shop_env GetCart)) (IDFor ''alice'') (cw_db shop_world) = Some e \<and>
          dec_cart shop_codecs (e_Value e) = Some shop_cart"
    by (simp add: store_Get_def shop_world_def IDFor_def cart_KeyPrefix_def Expired_def shop_codecs_def table_dec_def Let_def)
  show "valid_request_id (ev_orderID shop_env) = None"
    by (simp add: shop_env_def valid_request_id_def is_lower_def is_upper_def is_digit_def less_eq_char_def)
  show "ValidCardNumber ''4111111111111111''"
    by (simp add: ValidCardNumber_iff is_digit_def less_eq_char_def)
  show "\<exists>ns. normalize (OrderItems shop_cart) = Inr ns \<and> short_item ns (cw_wh shop_world) = None"
    using shop_lines by (simp add: shop_world_def)
  show "enc_order shop_codecs ((order_of shop_env ''cart-alice'' ''alice'' shop_cart)\<lparr>co_ReservationID := ev_resID shop_env,
        co_AuthorizationCode := ''AUTH-'' @ ev_stamp shop_env\<rparr>) \<noteq> None"
    by (simp add: shop_codecs_def table_enc_def order_of_def shop_env_def shop_order_def shop_cart_def Let_def)
qed (simp_all add: shop_env_def shop_world_def shop_cart_def New_def)


lemma shop_claim_unused: "claim_load shop_codecs (ev_call shop_env LoadClaim) ''k1'' (cw_db shop_world) = Inr None"
  by (simp add: claim_load_def shop_env_def ok_call_def db_Get_ok store_Get_def shop_world_def idempotencyPrefix_def)

lemma shop_key:
  "request_key shop_req = ''k1''" "cr_CreditCard shop_req = ''4111111111111111''"
  "CustomerFor ''cart-alice'' = Inr ''alice''" "validateIdempotencyKey ''k1'' = None"
  using CustomerFor_IDFor [of "''alice''"]
  by (simp_all add: request_key_def shop_req_def IDFor_def cart_KeyPrefix_def validateIdempotencyKey_def
      is_lower_def is_upper_def is_digit_def less_eq_char_def)

lemma shop_receipt: "order_receipt (order_of shop_env ''cart-alice'' ''alice'' shop_cart) = order_receipt shop_order"
  by (simp add: order_receipt_def order_of_def shop_env_def shop_order_def)

lemma shop_premises:
  "validateIdempotencyKey (request_key shop_req) = None \<and>
   claim_load shop_codecs (ev_call shop_env LoadClaim) (request_key shop_req) (cw_db shop_world) = Inr None \<and>
   codecs_ok shop_codecs \<and>
   enc_claim shop_codecs \<lparr>ir_Key = request_key shop_req, ir_CartID = ''cart-alice'', ir_State = claimInProgress,
                    ir_Receipt = None, ir_StartedAt = ev_now shop_env\<rparr> \<noteq> None"
  "ready shop_codecs shop_env ''cart-alice'' (cr_CreditCard shop_req) ''alice'' shop_cart shop_world"
  "cr_CreditCard shop_req \<noteq> []" "call_err (ev_call shop_env s) = None"
  using shop_claim_unused shop_codecs_ok shop_ready
  by (simp_all add: shop_key)
    (simp_all add: shop_codecs_def table_enc_def shop_open_claim_def shop_env_def ok_call_def Let_def)

theorem checkout_completes_witness:
  "\<exists>w'. Checkout shop_codecs shop_env ''cart-alice'' shop_req shop_world =
          (Inr (order_receipt (order_of shop_env ''cart-alice'' ''alice'' shop_cart)), w')"
  using checkout_completes [of shop_env shop_req "''cart-alice''" "''alice''" shop_codecs shop_world shop_cart]
    shop_premises shop_key(3) by blast

lemma shop_run:
  "\<exists>w'. Checkout shop_codecs shop_env ''cart-alice'' shop_req shop_world = (Inr (order_receipt shop_order), w') \<and>
        cw_charges w' = [(''ord-1'', TotalPrice shop_cart)]"
  using checkout_runs [of shop_env shop_req "''cart-alice''" "''alice''" shop_codecs shop_world shop_cart]
    shop_premises shop_key(3) by (simp add: shop_receipt) (simp add: shop_world_def shop_env_def)

lemma shop_fresh: "inv_receipts (cw_wh shop_world) (ev_orderID shop_env) = None"
  by (simp add: shop_world_def New_def)

theorem checkout_success_witness:
  "\<exists>w'. Checkout shop_codecs shop_env ''cart-alice'' shop_req shop_world = (Inr (order_receipt shop_order), w') \<and>
     (\<exists>ct. placed shop_codecs shop_env (order_of shop_env ''cart-alice'' ''alice'' ct) (order_receipt shop_order) shop_world w')"
proof -
  obtain w' where w': "Checkout shop_codecs shop_env ''cart-alice'' shop_req shop_world = (Inr (order_receipt shop_order), w')"
    using shop_run by blast
  from checkout_success [OF shop_codecs_ok shop_fresh w'] shop_claim_unused shop_key w' show ?thesis by auto
qed

theorem checkout_retry_replays_witness:
  "\<exists>w'. Checkout shop_codecs shop_env ''cart-alice'' shop_req shop_world = (Inr (order_receipt shop_order), w') \<and>
        Checkout shop_codecs shop_env ''cart-alice'' shop_req w' = (Inr (order_receipt shop_order), w')"
proof -
  obtain w' where w': "Checkout shop_codecs shop_env ''cart-alice'' shop_req shop_world = (Inr (order_receipt shop_order), w')"
      "cw_charges w' = [(''ord-1'', TotalPrice shop_cart)]"
    using shop_run by blast
  have "Checkout shop_codecs shop_env ''cart-alice'' shop_req w' = (Inr (order_receipt shop_order), w')"
    by (rule conjunct1 [OF checkout_retry_replays [OF shop_codecs_ok shop_fresh w'(1)]])
      (use w'(2) shop_premises in \<open>simp_all add: shop_key\<close>,
       simp_all add: shop_world_def shop_codecs_def table_enc_def shop_env_def Let_def completed_claim_def shop_open_claim_def)
  with w'(1) show ?thesis by blast
qed

end
