(* ===== verification/Cart_Failures.thy ===== *)
theory Cart_Failures
  imports Cart_Checkout
begin

text \<open>
  What a failed checkout leaves behind: the deferred unwind of \<^verbatim>\<open>src/internal/cart/checkout.go\<close>
  gives the stock back and closes the transaction, but a failure after the charge keeps the
  charge and the order.
\<close>

section \<open>Giving the stock back\<close>

lemma reserve_op_refused:
  assumes run: "reserve_op fp now newid rid items iv = (Inl err, iv')" and fresh: "inv_receipts iv rid = None"
  shows "stock_of iv' = stock_of iv"
proof -
  obtain e where R: "ReserveWithRequestID fp now newid (\<lambda>k i. id) rid items iv = (e, iv')" "\<And>r. e \<noteq> Some (Inr r)"
    using run by (auto simp: reserve_op_def handleReserve_def split: option.splits prod.splits sum.splits go_error.splits)
  show ?thesis
  proof (cases "valid_request_id rid = None \<and> is_ok (normalize items)")
    case False
    then show ?thesis using R by (auto simp: ReserveWithRequestID_def is_ok_iff split: option.splits sum.splits)
  next
    case True
    then obtain ns where ns: "normalize items = Inr ns" by (auto simp: is_ok_iff)
    obtain iv1 where op: "reserve_open fp rid ns iv = (Claims, iv1)" using fresh by (simp add: reserve_open_def)
    note o1 = reserve_open_other [OF op]
    obtain se iv2 where st: "reserveStock (\<lambda>k i. id) ns iv1 = (se, iv2)" by force
    obtain r iv3 where cl: "reserve_close now newid rid ns se iv2 = (r, iv3)" by force
    have "iv' = iv3" "e = Some r" using R(1) True ns op st cl by (auto simp: ReserveWithRequestID_def)
    moreover from this R(2) cl obtain x where x: "se = Some x" by (cases se) (auto simp: reserve_close_def Let_def)
    moreover have "inv_stock iv3 = inv_stock iv2" "inv_initial iv3 = inv_initial iv2"
      using cl x by (auto simp: reserve_close_def Let_def)
    moreover have "stock_of iv2 = stock_of iv1"
      using st x by (auto simp: reserveStock_quiet stock_decision_def split: option.splits)
    ultimately show ?thesis using same_stock [of iv3 iv2] same_stock [OF o1(1,3)] by simp
  qed
qed

lemma release_avail:
  assumes "inv_reservations iv resid = Some r" "r_State r = Reserved" "resid \<noteq> ''''" and "canonical (r_Items r)"
    and "\<And>p. 0 \<le> avail iv p" and "\<And>p. avail iv p + qty p (r_Items r) \<le> MaxInt"
  shows "avail (snd (handleRelease (Inr resid) iv)) p = avail iv p + qty p (r_Items r)"
proof -
  have "stock_of (set_state resid Released iv) = stock_of iv" by (rule same_stock) (simp_all add: set_state_def)
  then have "avail (restore (r_Items r) (set_state resid Released iv)) p = avail iv p + qty p (r_Items r)"
    using restore_avail [OF assms(4), of "set_state resid Released iv" p] assms(5,6) by simp
  moreover have "stock_of (iv'\<lparr>inv_released := n\<rparr>) = stock_of iv'" for n and iv' :: "'a Inventory" by (rule same_stock) simp_all
  ultimately show ?thesis using assms(1-3) by (simp add: handleRelease_def Release_def release_mark_def Let_def)
qed

text \<open>A hold that was taken and given back changes no quantity.\<close>

lemma reserve_release_avail:
  assumes ok: "reserve_op fp now newid rid items iv = (Inr rsv, iv')" and fresh: "inv_receipts iv rid = None"
    and rng: "\<And>p. 0 \<le> avail iv p \<and> avail iv p \<le> MaxInt" and "newid \<noteq> ''''"
  shows "rr_ReservationID rsv = newid \<and> avail (snd (handleRelease (Inr newid) iv')) p = avail iv p"
proof (rule reserve_op_ok [OF ok fresh])
  fix ns
  let ?r = "\<lparr>r_ID = newid, r_RequestID = rid, r_State = Reserved, r_Items = ns, r_CreatedAt = now, r_ExpiresAt = now + inv_ttl iv\<rparr>"
  assume ns: "normalize items = Inr ns" "short_item ns iv = None"
    and stock: "\<And>p. stock_of iv' p = stock_of (deduct ns (fold (\<lambda>it. counter (o_ProductID it)) ns iv)) p"
    and res: "inv_reservations iv' = (inv_reservations iv)(newid \<mapsto> ?r)" and rsv: "rr_ReservationID rsv = newid"
  have can: "canonical ns" using normalize_ok [OF ns(1)] by simp
  have le: "qty q ns \<le> avail iv q" for q using short_item_None [OF can ns(2), of q] rng [of q] by simp
  have av: "avail iv' q = avail iv q - qty q ns" for q
    using deduct_avail [OF can, of "fold (\<lambda>it. counter (o_ProductID it)) ns iv" q] rng le stock by simp
  have "avail (snd (handleRelease (Inr newid) iv')) p = avail iv' p + qty p (r_Items ?r)"
    by (rule release_avail) (use res assms(4) can av le rng in auto)
  with av rsv show ?thesis by simp
qed

section \<open>The unwind\<close>

lemma Abort_closes: "txid \<noteq> '''' \<Longrightarrow> m_txns (snd (txn_Abort txid m)) txid = None"
  by (simp add: txn_Abort_def txn_resolve_def Let_def split: option.split)

lemma unwind_closes:
  assumes "call_err (ev_call ev UndoTxn) = None" and "txnID \<noteq> ''''"
  shows "m_txns (cw_txn (unwind J ev key cartID resid txnID w)) txnID = None"
  using assms Abort_closes
  by (auto simp: unwind_def txn_ResolveCall_def rpc_post_def Let_def case_prod_unfold)

lemma unwind_wh:
  assumes "call_err (ev_call ev UndoHold) = None"
  shows "cw_wh (unwind J ev key cartID resid txnID w) =
           (if resid \<noteq> '''' then snd (handleRelease (Inr resid) (cw_wh w)) else cw_wh w)"
  using assms by (simp add: unwind_def wh_ReleaseCall_def rpc_post_def Let_def case_prod_unfold)

lemma commit_order_wh: "cw_wh (snd (commit_order J ev key txnID order w)) = cw_wh w"
proof -
  obtain e1 w1 where w1: "writeOrder J (ev_call ev WriteOrder) order w = (e1, w1)" by force
  let ?w2 = "w1\<lparr>cw_db := snd (cart_Clear J (ev_call ev ClearCart) (co_CustomerID order) (cw_db w1))\<rparr>"
  obtain e3 w3 where w3: "txn_ResolveCall (ev_call ev CommitTxn) txn_Commit txnID ?w2 = (e3, w3)" by force
  have "cw_wh w1 = cw_wh w" using writeOrder_other(2) [of J "ev_call ev WriteOrder" order w] w1 by simp
  moreover have "cw_wh w3 = cw_wh ?w2"
    using txn_ResolveCall_other(3) [of "ev_call ev CommitTxn" txn_Commit txnID ?w2] w3 by simp
  ultimately show ?thesis by (cases e1; cases e3) (simp_all add: commit_order_def w1 w3 Let_def)
qed

lemma run_txn_failed:
  assumes fail: "run_txn J ev key cardNumber txnID order w = (Inl err, w')"
    and calls: "call_err (ev_call ev HoldStock) = None" "call_err (ev_call ev UndoHold) = None" "call_err (ev_call ev UndoTxn) = None"
    and ids: "ev_resID ev \<noteq> ''''" "txnID \<noteq> ''''" "inv_receipts (cw_wh w) (co_OrderID order) = None"
    and rng: "\<And>p. 0 \<le> avail (cw_wh w) p \<and> avail (cw_wh w) p \<le> MaxInt"
  shows "avail (cw_wh w') p = avail (cw_wh w) p \<and> m_txns (cw_txn w') txnID = None"
proof -
  obtain r w1 where res: "wh_ReserveCall ev (co_OrderID order) (orderItems (co_Items order)) w = (r, w1)" by force
  obtain r0 iv where op: "reserve_op (ev_fp ev) (call_now (ev_call ev HoldStock)) (ev_resID ev) (co_OrderID order)
      (orderItems (co_Items order)) (cw_wh w) = (r0, iv)" by force
  have r: "r = answer r0" "cw_wh w1 = iv"
    using res calls(1) op by (auto simp: wh_ReserveCall_def rpc_post_def Let_def)
  show ?thesis
  proof (cases r0)
    case (Inl e)
    then obtain e' where "w' = unwind J ev key (co_CartID order) '''' txnID w1"
      using fail res r by (auto simp: run_txn_def Let_def split: if_splits)
    then show ?thesis
      using unwind_wh [OF calls(2)] unwind_closes [OF calls(3) ids(2)] reserve_op_refused [OF op [unfolded Inl] ids(3)] r(2) by simp
  next
    case (Inr rsv)
    note held = reserve_release_avail [OF op [unfolded Inr] ids(3) rng ids(1)]
    obtain d code ae w2 where au: "cards_AuthorizeCall ev cardNumber (co_TotalPrice order) (co_OrderID order) w1 = ((d, code, ae), w2)"
      by (metis surj_pair)
    have w2: "cw_wh w2 = iv"
      using cards_AuthorizeCall_other(3) [of ev cardNumber "co_TotalPrice order" "co_OrderID order" w1] au r(2) by simp
    let ?order = "order\<lparr>co_ReservationID := rr_ReservationID rsv, co_AuthorizationCode := code\<rparr>"
    obtain cr w3 where co: "commit_order J ev key txnID ?order w2 = (cr, w3)" by force
    have w3: "cw_wh w3 = iv" using commit_order_wh [of J ev key txnID ?order w2] co w2 by simp
    have "\<exists>v. cw_wh v = iv \<and> w' = unwind J ev key (co_CartID order) (ev_resID ev) txnID v"
      using fail res r Inr au co w2 w3 held
      by (cases d) (auto simp: run_txn_def Let_def split: sum.splits)
    then show ?thesis
      using unwind_wh [OF calls(2)] unwind_closes [OF calls(3) ids(2)] held ids(1) by auto
  qed
qed

lemma checkout_cart_failed:
  assumes fail: "checkout_cart J ev key cardNumber cartID customerID w = (Inl err, w')"
    and calls: "\<And>s. s \<in> {BeginTxn, HoldStock, UndoHold, UndoTxn} \<Longrightarrow> call_err (ev_call ev s) = None"
    and ids: "ev_resID ev \<noteq> ''''" "ev_txnID ev \<noteq> ''''" "inv_receipts (cw_wh w) (ev_orderID ev) = None"
      "m_txns (cw_txn w) (ev_txnID ev) = None"
    and rng: "\<And>p. 0 \<le> avail (cw_wh w) p \<and> avail (cw_wh w) p \<le> MaxInt"
  shows "avail (cw_wh w') p = avail (cw_wh w) p \<and> m_txns (cw_txn w') (ev_txnID ev) = None"
proof -
  obtain w1 where b: "txn_BeginCall ev w = (Inr (ev_txnID ev), w1)"
    using calls [of BeginTxn] ids(2)
    by (simp add: txn_BeginCall_def rpc_post_def txn_Begin_def client_BeginTxn_def Let_def)
  have "cw_wh w1 = cw_wh w" using txn_BeginCall_other(3) [of ev w] b by simp
  then have "avail (cw_wh w') p = avail (cw_wh w) p \<and> m_txns (cw_txn w') (ev_txnID ev) = None"
    if "run_txn J ev key cardNumber (ev_txnID ev) order w1 = (Inl err, w')" "co_OrderID order = ev_orderID ev" for order
    using run_txn_failed [OF that(1) calls calls calls ids(1,2), of p] that(2) ids(3) rng by simp
  with fail b ids(4) show ?thesis
    by (auto simp: checkout_cart_def Let_def split: sum.splits if_splits)
qed

lemma checkout_unwinds:
  assumes fail: "Checkout J ev cartID req w = (Inl err, w')"
    and calls: "\<And>s. s \<in> {BeginTxn, HoldStock, UndoHold, UndoTxn} \<Longrightarrow> call_err (ev_call ev s) = None"
    and ids: "ev_resID ev \<noteq> ''''" "ev_txnID ev \<noteq> ''''" "inv_receipts (cw_wh w) (ev_orderID ev) = None"
      "m_txns (cw_txn w) (ev_txnID ev) = None"
    and rng: "\<And>p. 0 \<le> avail (cw_wh w) p \<and> avail (cw_wh w) p \<le> MaxInt"
  shows "avail (cw_wh w') p = avail (cw_wh w) p \<and> m_txns (cw_txn w') (ev_txnID ev) = None"
proof -
  have "avail (cw_wh w') p = avail (cw_wh w) p \<and> m_txns (cw_txn w') (ev_txnID ev) = None"
    if "checkout_cart J ev key card cartID cust (w\<lparr>cw_db := db\<rparr>) = (Inl err, w')" for key card cust db
    using checkout_cart_failed [OF that calls ids(1,2)] ids(3,4) rng by simp
  from this [of _ _ _ "cw_db w"] this fail ids(4) show ?thesis
    by (auto simp: Checkout_def Let_def split: option.splits sum.splits if_splits prod.splits)
qed

text \<open>
  C13. A failed checkout holds nothing. However the checkout fails, when its request for the stock
  was answered and the calls that undo it get through, every product has as many units available
  as before and its transaction is no longer open.
\<close>

theorem checkout_failure_unwinds:
  assumes fail: "Checkout J ev cartID req w = (Inl err, w')"
    and calls: "\<And>s. s \<in> {BeginTxn, HoldStock, UndoHold, UndoTxn} \<Longrightarrow> call_err (ev_call ev s) = None"
    and ids: "ev_resID ev \<noteq> ''''" "ev_txnID ev \<noteq> ''''" "inv_receipts (cw_wh w) (ev_orderID ev) = None"
      "m_txns (cw_txn w) (ev_txnID ev) = None"
    and rng: "\<And>p. 0 \<le> avail (cw_wh w) p \<and> avail (cw_wh w) p \<le> MaxInt"
  shows "avail (cw_wh w') p = avail (cw_wh w) p \<and> m_txns (cw_txn w') (ev_txnID ev) = None"
  by (rule checkout_unwinds [OF assms])


section \<open>A failure after the charge\<close>

lemma commit_order_fails:
  assumes J: "codecs_ok J" and "enc_order J order \<noteq> None" and "call_err (ev_call ev WriteOrder) = None"
    and "call_err (ev_call ev CommitTxn) = Some e"
  shows "\<exists>err w'. commit_order J ev key txnID order w = (Inl err, w') \<and>
     (\<exists>x. s_data (cw_db w') (OrderKeyPrefix @ co_OrderID order) = Some x \<and> dec_order J (e_Value x) = Some order)"
proof -
  obtain db where w1: "writeOrder J (ev_call ev WriteOrder) order w = (None, w\<lparr>cw_db := db\<rparr>)"
    using writeOrder_succeeds [OF assms(2,3)] .
  let ?w2 = "w\<lparr>cw_db := snd (cart_Clear J (ev_call ev ClearCart) (co_CustomerID order) db)\<rparr>"
  obtain err w3 where w3: "txn_ResolveCall (ev_call ev CommitTxn) txn_Commit txnID ?w2 = (Some err, w3)"
    using assms(4) by (simp add: txn_ResolveCall_def rpc_post_def Let_def)
  have "cw_db w3 = cw_db ?w2"
    using txn_ResolveCall_other(2) [of "ev_call ev CommitTxn" txn_Commit txnID ?w2] w3 by simp
  then have "s_data (cw_db w3) (OrderKeyPrefix @ co_OrderID order) = s_data db (OrderKeyPrefix @ co_OrderID order)"
    by (simp add: cart_Clear_other key_spaces)
  with writeOrder_ok [OF J w1] w1 w3 show ?thesis by (simp add: commit_order_def Let_def)
qed

lemma unwind_keeps_order:
  "s_data (cw_db (unwind J ev key cartID resid txnID w)) (OrderKeyPrefix @ oid) = s_data (cw_db w) (OrderKeyPrefix @ oid)"
  by (simp add: unwind_def releaseClaim_def idem_release_def claim_save_other key_spaces Let_def)

lemma lost_commit_charged:
  assumes J: "codecs_ok J"
    and calls: "\<And>s. s \<noteq> CommitTxn \<Longrightarrow> call_err (ev_call ev s) = None" and lost: "call_err (ev_call ev CommitTxn) = Some e"
    and req: "cr_CreditCard req \<noteq> ''''" "CustomerFor cartID = Inr customerID"
    and key: "request_key req \<noteq> '''' \<Longrightarrow> validateIdempotencyKey (request_key req) = None \<and>
       claim_load J (ev_call ev LoadClaim) (request_key req) (cw_db w) = Inr None \<and> codecs_ok J \<and>
       enc_claim J \<lparr>ir_Key = request_key req, ir_CartID = cartID, ir_State = claimInProgress,
                    ir_Receipt = None, ir_StartedAt = ev_now ev\<rparr> \<noteq> None"
    and r: "ready J ev cartID (cr_CreditCard req) customerID ct w"
  shows "\<exists>err w' x order w3. Checkout J ev cartID req w = (Inl err, w') \<and>
     w' = unwind J ev (request_key req) cartID (ev_resID ev) (ev_txnID ev) w3 \<and>
     cw_charges w' = cw_charges w @ [(ev_orderID ev, TotalPrice ct)] \<and>
     s_data (cw_db w') (OrderKeyPrefix @ ev_orderID ev) = Some x \<and> dec_order J (e_Value x) = Some order \<and>
     co_OrderID order = ev_orderID ev \<and> co_Status order = ''confirmed''"
proof -
  let ?order = "(order_of ev cartID customerID ct)\<lparr>co_ReservationID := ev_resID ev, co_AuthorizationCode := ''AUTH-'' @ ev_stamp ev\<rparr>"
  obtain db where v: "ready J ev cartID (cr_CreditCard req) customerID ct (w\<lparr>cw_db := db\<rparr>)"
      "Checkout J ev cartID req w = checkout_cart J ev (request_key req) (cr_CreditCard req) cartID customerID (w\<lparr>cw_db := db\<rparr>)"
    using Checkout_enters [OF calls calls req key r] by blast
  have "call_err (ev_call ev s) = None" if "s \<in> {GetCart, BeginTxn, HoldStock, TakeMoney, WriteOrder}" for s
    using that calls [of s] by auto
  from reach_commit [OF v(1) this, of "request_key req"] obtain w2 where
    w2: "cw_charges w2 = cw_charges w @ [(ev_orderID ev, TotalPrice ct)]"
      "checkout_cart J ev (request_key req) (cr_CreditCard req) cartID customerID (w\<lparr>cw_db := db\<rparr>) =
         (case commit_order J ev (request_key req) (ev_txnID ev) ?order w2 of
            (Inl err, w3) \<Rightarrow> (Inl err, unwind J ev (request_key req) cartID (ev_resID ev) (ev_txnID ev) w3)
          | (Inr receipt, w3) \<Rightarrow> (Inr receipt, w3))" by auto
  have "enc_order J ?order \<noteq> None" using r by (simp add: ready_def)
  from commit_order_fails [OF J this _ lost, of "request_key req" "ev_txnID ev" w2] calls [of WriteOrder]
  obtain err w3 x where co: "commit_order J ev (request_key req) (ev_txnID ev) ?order w2 = (Inl err, w3)"
      "s_data (cw_db w3) (OrderKeyPrefix @ co_OrderID ?order) = Some x" "dec_order J (e_Value x) = Some ?order" by auto
  have "cw_charges w3 = cw_charges w2" using commit_order_charges [of J ev "request_key req" "ev_txnID ev" ?order w2] by (simp only: co(1) snd_conv)
  with co w2 v(2) show ?thesis
    by (intro exI [of _ err] exI [of _ "unwind J ev (request_key req) cartID (ev_resID ev) (ev_txnID ev) w3"] exI [of _ x] exI [of _ ?order] exI [of _ w3])
      (simp add: unwind_keeps_order order_of_def)
qed


text \<open>What \<open>release\<close> stores under a key, and when a request can take the key.\<close>

definition released_claim :: "'d checkout_env \<Rightarrow> string \<Rightarrow> string \<Rightarrow> idempotencyRecord" where
  "released_claim ev key cartID = \<lparr>ir_Key = key, ir_CartID = cartID, ir_State = claimInProgress,
     ir_Receipt = None, ir_StartedAt = ev_now ev - 2 * inProgressTTL\<rparr>"

definition key_is_free :: "codecs \<Rightarrow> int \<Rightarrow> string \<Rightarrow> string \<Rightarrow> Store \<Rightarrow> bool" where
  "key_is_free J since key cartID db \<longleftrightarrow>
     (\<forall>cl cs now. call_err cl = None \<and> call_err cs = None \<and> since \<le> now \<and>
        enc_claim J \<lparr>ir_Key = key, ir_CartID = cartID, ir_State = claimInProgress, ir_Receipt = None, ir_StartedAt = now\<rparr> \<noteq> None \<longrightarrow>
        (\<exists>db'. idem_claim J cl cs now key cartID db = (Inr None, db')))"

lemma unwind_frees_key:
  assumes J: "codecs_ok J" and "key \<noteq> ''''" "enc_claim J (released_claim ev key cartID) \<noteq> None" "call_err (ev_call ev UndoClaim) = None"
  shows "key_is_free J (ev_now ev) key cartID (cw_db (unwind J ev key cartID resid txnID w))"
  using assms idem_release_frees [OF J _ assms(4)]
  by (auto simp: key_is_free_def unwind_def releaseClaim_def released_claim_def Let_def)

text \<open>
  C40. A failed checkout may have charged the card. When everything works except that the answer to
  the commit of the transaction is lost, \<open>Checkout\<close> reports a failure, every product has as many units
  available as before, the transaction is closed and the key can be claimed by the next request for the
  cart, just as after a failure that cost nothing; but the card has been charged the total and the order
  is stored as confirmed.
\<close>

theorem failed_checkout_keeps_charge:
  assumes J: "codecs_ok J"
    and calls: "\<And>s. s \<noteq> CommitTxn \<Longrightarrow> call_err (ev_call ev s) = None" and lost: "call_err (ev_call ev CommitTxn) = Some e"
    and req: "cr_CreditCard req \<noteq> ''''" "CustomerFor cartID = Inr customerID"
    and key: "request_key req \<noteq> '''' \<Longrightarrow> validateIdempotencyKey (request_key req) = None \<and>
       claim_load J (ev_call ev LoadClaim) (request_key req) (cw_db w) = Inr None \<and> codecs_ok J \<and>
       enc_claim J \<lparr>ir_Key = request_key req, ir_CartID = cartID, ir_State = claimInProgress,
                    ir_Receipt = None, ir_StartedAt = ev_now ev\<rparr> \<noteq> None"
    and release: "enc_claim J (released_claim ev (request_key req) cartID) \<noteq> None"
    and r: "ready J ev cartID (cr_CreditCard req) customerID ct w"
    and ids: "ev_resID ev \<noteq> ''''" "m_txns (cw_txn w) (ev_txnID ev) = None"
    and rng: "\<And>p. 0 \<le> avail (cw_wh w) p \<and> avail (cw_wh w) p \<le> MaxInt"
  shows "\<exists>err w' x order. Checkout J ev cartID req w = (Inl err, w') \<and>
     (\<forall>p. avail (cw_wh w') p = avail (cw_wh w) p) \<and> m_txns (cw_txn w') (ev_txnID ev) = None \<and>
     (request_key req \<noteq> '''' \<longrightarrow> key_is_free J (ev_now ev) (request_key req) cartID (cw_db w')) \<and>
     cw_charges w' = cw_charges w @ [(ev_orderID ev, TotalPrice ct)] \<and>
     s_data (cw_db w') (OrderKeyPrefix @ ev_orderID ev) = Some x \<and> dec_order J (e_Value x) = Some order \<and>
     co_OrderID order = ev_orderID ev \<and> co_Status order = ''confirmed''"
proof -
  from lost_commit_charged [OF J calls lost req key r] obtain err w' x order w3 where
    run: "Checkout J ev cartID req w = (Inl err, w')" "w' = unwind J ev (request_key req) cartID (ev_resID ev) (ev_txnID ev) w3"
    and kept: "cw_charges w' = cw_charges w @ [(ev_orderID ev, TotalPrice ct)]" "s_data (cw_db w') (OrderKeyPrefix @ ev_orderID ev) = Some x"
      "dec_order J (e_Value x) = Some order" "co_OrderID order = ev_orderID ev" "co_Status order = ''confirmed''" by blast
  have "call_err (ev_call ev s) = None" if "s \<in> {BeginTxn, HoldStock, UndoHold, UndoTxn}" for s using that calls [of s] by auto
  moreover have "ev_txnID ev \<noteq> ''''" "inv_receipts (cw_wh w) (ev_orderID ev) = None" using r by (simp_all add: ready_def)
  ultimately have "avail (cw_wh w') p = avail (cw_wh w) p \<and> m_txns (cw_txn w') (ev_txnID ev) = None" for p
    using checkout_unwinds [OF run(1) _ ids(1) _ _ ids(2) rng] by blast
  moreover have "key_is_free J (ev_now ev) (request_key req) cartID (cw_db w')" if "request_key req \<noteq> ''''"
    unfolding run(2) by (rule unwind_frees_key [OF J that release calls]) simp
  ultimately show ?thesis using run(1) kept by blast
qed

section \<open>A concrete failure\<close>

definition lost_commit :: "orders_Item list checkout_env" where
  "lost_commit = shop_env\<lparr>ev_call := (ev_call shop_env)(CommitTxn :=
     \<lparr>call_now = 0, call_times = 1, call_err = Some (Errorf StatusBadGateway ''calling %s'')\<rparr>)\<rparr>"

lemma ready_commit_call:
  "ready J (ev\<lparr>ev_call := (ev_call ev)(CommitTxn := c)\<rparr>) cartID cardNumber customerID ct w = ready J ev cartID cardNumber customerID ct w"
  by (simp add: ready_def order_of_def)

lemma lost_commit_premises:
  "ready shop_codecs lost_commit ''cart-alice'' (cr_CreditCard shop_req) ''alice'' shop_cart shop_world"
  "s \<noteq> CommitTxn \<Longrightarrow> call_err (ev_call lost_commit s) = None"
  "call_err (ev_call lost_commit CommitTxn) = Some (Errorf StatusBadGateway ''calling %s'')"
  "ev_call lost_commit LoadClaim = ev_call shop_env LoadClaim" "ev_now lost_commit = ev_now shop_env"
  "ev_orderID lost_commit = ev_orderID shop_env" "ev_resID lost_commit = ev_resID shop_env" "ev_txnID lost_commit = ev_txnID shop_env"
proof -
  show "ready shop_codecs lost_commit ''cart-alice'' (cr_CreditCard shop_req) ''alice'' shop_cart shop_world"
    using shop_premises(2) by (simp add: lost_commit_def ready_commit_call)
  show "s \<noteq> CommitTxn \<Longrightarrow> call_err (ev_call lost_commit s) = None" using shop_premises(4) by (simp add: lost_commit_def)
qed (simp_all add: lost_commit_def)

lemma lost_commit_ids:
  "ev_resID lost_commit \<noteq> ''''" "ev_txnID lost_commit \<noteq> ''''"
  "inv_receipts (cw_wh shop_world) (ev_orderID lost_commit) = None" "m_txns (cw_txn shop_world) (ev_txnID lost_commit) = None"
  "avail (cw_wh shop_world) p = 100"
  by (simp_all add: lost_commit_premises shop_fresh) (simp_all add: shop_env_def shop_world_def New_avail NewTxnManager_def)

lemma shop_release: "enc_claim shop_codecs (released_claim lost_commit ''k1'' ''cart-alice'') \<noteq> None"
  by (simp add: released_claim_def lost_commit_premises shop_codecs_def table_enc_def shop_open_claim_def completed_claim_def
      inProgressTTL_def Let_def) (simp add: shop_env_def)

theorem failed_checkout_keeps_charge_witness:
  "\<exists>err w'. Checkout shop_codecs lost_commit ''cart-alice'' shop_req shop_world = (Inl err, w') \<and>
     avail (cw_wh w') ''mug'' = 100 \<and> key_is_free shop_codecs 0 ''k1'' ''cart-alice'' (cw_db w') \<and>
     cw_charges w' = cw_charges shop_world @ [(ev_orderID lost_commit, TotalPrice shop_cart)]"
proof -
  have now: "ev_now lost_commit = 0" by (simp add: lost_commit_premises) (simp add: shop_env_def)
  show ?thesis
    using failed_checkout_keeps_charge [OF shop_codecs_ok lost_commit_premises(2,3) shop_premises(3) shop_key(3) _ _ lost_commit_premises(1)
        lost_commit_ids(1,4)] shop_premises(1) shop_release lost_commit_ids(5) lost_commit_premises(4,5) now
    by (fastforce simp: shop_key(1) MaxInt_def)
qed

theorem checkout_failure_unwinds_witness:
  "\<exists>err w'. Checkout shop_codecs lost_commit ''cart-alice'' shop_req shop_world = (Inl err, w') \<and>
     (\<forall>p. avail (cw_wh w') p = 100) \<and> m_txns (cw_txn w') (ev_txnID lost_commit) = None"
proof -
  obtain err w' where run: "Checkout shop_codecs lost_commit ''cart-alice'' shop_req shop_world = (Inl err, w')"
    using lost_commit_charged [OF shop_codecs_ok lost_commit_premises(2,3) shop_premises(3) shop_key(3) _ lost_commit_premises(1)]
      shop_premises(1) lost_commit_premises(4,5) by auto
  have calls: "call_err (ev_call lost_commit s) = None" if "s \<in> {BeginTxn, HoldStock, UndoHold, UndoTxn}" for s
    using that lost_commit_premises(2) [of s] by auto
  note ids = lost_commit_ids
  have "avail (cw_wh w') p = avail (cw_wh shop_world) p \<and> m_txns (cw_txn w') (ev_txnID lost_commit) = None" for p
    by (rule checkout_failure_unwinds [OF run calls ids(1-4)]) (use ids(5) in \<open>simp_all add: MaxInt_def\<close>)
  with run ids(5) show ?thesis by simp
qed

end
