(* ===== verification/Cart_Handlers.thy ===== *)
theory Cart_Handlers
  imports Cart_Service
begin

text \<open>
  The handlers of \<^verbatim>\<open>src/internal/cart/server.go\<close> that read and change a cart, and what adding an
  item does: to the cart, to the store, and at the edge of \<open>int64\<close>.
\<close>

definition cart_handleGet :: "codecs \<Rightarrow> call \<Rightarrow> string \<Rightarrow> string \<Rightarrow> Store \<Rightarrow> (int \<times> cartView) res" where
  "cart_handleGet J c caller cartID db =
     (case cart_authorize caller cartID of
        Inl err \<Rightarrow> Inl err
      | Inr customerID \<Rightarrow>
          (case cart_Get J c customerID db of
             Inl err \<Rightarrow> Inl err
           | Inr None \<Rightarrow> Inl (Errorf StatusNotFound ''no cart for customer %s'')
           | Inr (Some ct) \<Rightarrow> Inr (StatusOK, viewOf ct)))"

text \<open>\<open>body\<close> is the decoded request: product and quantity.\<close>

definition cart_handleAddItem :: "codecs \<Rightarrow> call \<Rightarrow> call \<Rightarrow> int \<Rightarrow> (string \<Rightarrow> Product res) \<Rightarrow> (string \<Rightarrow> int res) \<Rightarrow> string \<Rightarrow> string
    \<Rightarrow> (string \<times> int) res \<Rightarrow> Store \<Rightarrow> (int \<times> cartView) res \<times> Store" where
  "cart_handleAddItem J cget cput now catalogue stock caller cartID body db =
     (case cart_authorize caller cartID of
        Inl err \<Rightarrow> (Inl err, db)
      | Inr customerID \<Rightarrow>
          (case body of
             Inl err \<Rightarrow> (Inl err, db)
           | Inr (productID, quantity) \<Rightarrow>
               (case AddItem J cget cput now (catalogue productID) (stock productID) customerID productID quantity db of
                  (Inl err, db') \<Rightarrow> (Inl err, db')
                | (Inr ct, db') \<Rightarrow> (Inr (StatusOK, viewOf ct), db'))))"

section \<open>Adding an item\<close>

text \<open>The cart an operation works on: the stored one, or a new one.\<close>

definition cart_before :: "int \<Rightarrow> string \<Rightarrow> Cart option \<Rightarrow> Cart" where
  "cart_before now customerID found = (case found of None \<Rightarrow> NewCart now customerID | Some ct \<Rightarrow> ct)"

lemma find_qty:
  assumes "distinct (map ci_ProductID is)"
  shows "(case List.find (\<lambda>i. ci_ProductID i = p) is of None \<Rightarrow> 0 | Some i \<Rightarrow> ci_Quantity i) = qty p (map item_Order is)"
  using assms
proof (induction "is")
  case (Cons i "is")
  then show ?case using qty_absent [of p "map item_Order is"] by (auto simp: image_image)
qed simp

lemma wanted_qty:
  assumes "cart_ok ct" and "0 < quantity" "cart_qty p ct + quantity \<le> MaxInt"
  shows "wanted p quantity ct = cart_qty p ct + quantity"
proof -
  have q: "cart_qty p ct = (case List.find (\<lambda>i. ci_ProductID i = p) (ct_Items ct) of None \<Rightarrow> 0 | Some i \<Rightarrow> ci_Quantity i)"
    using find_qty [of "ct_Items ct" p] assms(1) by (simp add: cart_ok_def cart_qty_def OrderItems_def)
  have "0 \<le> cart_qty p ct" unfolding cart_qty_def OrderItems_def
    by (rule qty_nonneg) (use assms(1) in \<open>auto simp: cart_ok_def\<close>)
  with assms(2,3) q show ?thesis by (auto simp: wanted_def MinInt_def MaxInt_def split: option.splits)
qed

lemma AddItem_cases:
  assumes "AddItem J cget cput now catalogue units customerID productID quantity db = (Inr ct', db')"
  obtains p available found where "catalogue = Inr p" "units = Inr available" "0 < quantity"
    "cart_Get J cget customerID db = Inr found"
    "wanted productID quantity (cart_before now customerID found) \<le> available"
    "ct' = AddOrMerge now \<lparr>ci_ProductID = p_ProductID p, ci_Name = p_Name p, ci_Quantity = quantity,
              ci_UnitWeight = p_Weight p, ci_UnitPrice = p_Price p\<rparr> (cart_before now customerID found)"
    "cart_Save J cput ct' db = (None, db')"
  using assms
  by (auto simp: AddItem_def cart_before_def Let_def split: if_splits sum.splits option.splits prod.splits)

text \<open>
  Adding an item to a cart adds it, once, and never more than there is. When \<open>AddItem\<close>
  succeeds on a well-formed cart whose units of the product stay within \<open>int64\<close>, the cart it
  returns is well formed, has exactly the requested units more of that product and the same of
  every other, holds no more of it than the warehouse said it has, and is what the next read of
  the cart returns.
\<close>

lemma AddItem_adds:
  assumes J: "codecs_ok J" and cust: "customerID \<noteq> ''''"
    and ok: "AddItem J cget cput now (Inr p) (Inr available) customerID productID quantity db = (Inr ct', db')"
    and found: "cart_Get J cget customerID db = Inr found" and pid: "p_ProductID p = productID"
    and wf: "cart_ok (cart_before now customerID found)" "ct_CartID (cart_before now customerID found) = IDFor customerID"
      "cart_qty productID (cart_before now customerID found) + quantity \<le> MaxInt"
    and read: "call_err cread = None"
  shows "cart_ok ct' \<and>
         (\<forall>q. cart_qty q ct' = cart_qty q (cart_before now customerID found) + (if q = productID then quantity else 0)) \<and>
         cart_qty productID ct' \<le> available \<and> cart_Get J cread customerID db' = Inr (Some ct')"
proof -
  let ?ct = "cart_before now customerID found"
  let ?item = "\<lparr>ci_ProductID = p_ProductID p, ci_Name = p_Name p, ci_Quantity = quantity,
              ci_UnitWeight = p_Weight p, ci_UnitPrice = p_Price p\<rparr>"
  have a: "0 < quantity" "wanted productID quantity ?ct \<le> available" "ct' = AddOrMerge now ?item ?ct"
      "cart_Save J cput ct' db = (None, db')"
    using AddItem_cases [OF ok] found by auto
  have m: "cart_ok ct' \<and> (\<forall>q. cart_qty q ct' = cart_qty q ?ct + (if q = productID then quantity else 0)) \<and> ct_CartID ct' = ct_CartID ?ct"
    using AddOrMerge_adds [OF wf(1), of ?item now] a(1,3) wf(3) pid by simp
  obtain raw e where raw: "enc_cart J ct' = Some raw" and put: "db_Put cput (IDFor customerID) raw db = (Inr e, db')"
    using a(4) m wf(2) by (auto simp: cart_Save_def split: option.splits prod.splits sum.splits)
  obtain x where x: "s_data db' (IDFor customerID) = Some x" "e_Value x = raw" "e_ExpiresAt x = 0"
    using db_Put_effect(2) [OF put] by blast
  have "dec_cart J raw = Some ct'" using J raw codec_okD [of "enc_cart J" "dec_cart J"] by (simp add: codecs_ok_def)
  with x read have "cart_Get J cread customerID db' = Inr (Some ct')"
    by (simp add: cart_Get_def db_Get_ok store_Get_def Expired_def)
  moreover have "cart_qty productID ct' \<le> available"
    using m a(2) wanted_qty [OF wf(1) a(1) wf(3)] by simp
  ultimately show ?thesis using m by blast
qed

section \<open>Concrete carts\<close>

definition mug :: Product where
  "mug = \<lparr>p_ProductID = ''p1'', p_Name = ''Mug'', p_Weight = Fin 1, p_Price = Fin 12\<rparr>"

definition mugs :: "int \<Rightarrow> cart_Item" where
  "mugs n = \<lparr>ci_ProductID = ''p1'', ci_Name = ''Mug'', ci_Quantity = n, ci_UnitWeight = Fin 1, ci_UnitPrice = Fin 12\<rparr>"

definition one_mug :: Cart where
  "one_mug = AddOrMerge 0 (mugs 1) (NewCart 0 ''alice'')"

definition cart_table :: "(Cart \<times> string) list" where
  "cart_table = [(one_mug, ''a''), (AddOrMerge 0 (mugs MaxInt) one_mug, ''b'')]"

definition mug_codecs :: codecs where
  "mug_codecs = \<lparr>enc_cart = table_enc cart_table, dec_cart = table_dec cart_table, enc_claim = table_enc [], dec_claim = table_dec [],
     enc_order = table_enc [], dec_order = table_dec []\<rparr>"

lemma one_mug_simp: "one_mug = (NewCart 0 ''alice'')\<lparr>ct_Items := [mugs 1], ct_UpdatedAt := 0\<rparr>"
  by (simp add: one_mug_def AddOrMerge_def NewCart_def)

lemma too_many_mugs: "AddOrMerge 0 (mugs MaxInt) one_mug = one_mug\<lparr>ct_Items := [mugs MinInt]\<rparr>"
  by (simp add: one_mug_simp AddOrMerge_def NewCart_def mugs_def wrap64_def MaxInt_def MinInt_def)

lemma mug_codecs_ok: "codecs_ok mug_codecs"
proof -
  have "AddOrMerge 0 (mugs MaxInt) one_mug \<noteq> one_mug"
    unfolding too_many_mugs by (simp add: one_mug_simp mugs_def MinInt_def NewCart_def)
  then have "codec_ok (table_enc cart_table) (table_dec cart_table)" "codec_ok (table_enc []) (table_dec [])"
    by (auto intro!: table_codec_ok simp: cart_table_def)
  then show ?thesis by (simp add: codecs_ok_def mug_codecs_def table_codec_ok)
qed

definition mug_db :: Store where
  "mug_db = snd (db_Put (ok_call 0) (IDFor ''alice'') ''a'' (NewStore ''n''))"

lemma mug_put: "\<exists>x db'. db_Put (ok_call 0) k raw db = (Inr x, db')"
  by (simp add: db_Put_def db_PutWithTTL_def rpc_put_def ok_call_def case_prod_unfold Let_def)

lemma mug_stored: "cart_Get mug_codecs (ok_call 0) ''alice'' mug_db = Inr (Some one_mug)"
proof -
  obtain x db' where put: "db_Put (ok_call 0) (IDFor ''alice'') ''a'' (NewStore ''n'') = (Inr x, db')" using mug_put by blast
  obtain e where "s_data db' (IDFor ''alice'') = Some e" "e_Value e = ''a''" "e_ExpiresAt e = 0" using db_Put_effect(2) [OF put] by blast
  then show ?thesis
    using put by (simp add: cart_Get_def mug_db_def db_Get_ok ok_call_def store_Get_def Expired_def mug_codecs_def table_dec_def cart_table_def)
qed

lemma no_cart: "cart_Get mug_codecs (ok_call 0) ''alice'' (NewStore ''n'') = Inr None"
  by (simp add: cart_Get_def db_Get_ok ok_call_def store_Get_def NewStore_def)

lemma mug_save:
  assumes "enc_cart mug_codecs ct = Some raw"
  shows "\<exists>db'. cart_Save mug_codecs (ok_call 0) ct db = (None, db')"
  using assms mug_put [of "ct_CartID ct" raw db] by (auto simp: cart_Save_def)

lemma AddItem_adds_witness:
  "\<exists>db'. AddItem mug_codecs (ok_call 0) (ok_call 0) 0 (Inr mug) (Inr 100) ''alice'' ''p1'' 1 (NewStore ''n'') = (Inr one_mug, db') \<and>
     cart_qty ''p1'' one_mug \<le> 100 \<and> cart_Get mug_codecs (ok_call 0) ''alice'' db' = Inr (Some one_mug)"
proof -
  obtain db' where "cart_Save mug_codecs (ok_call 0) one_mug (NewStore ''n'') = (None, db')"
    using mug_save [of one_mug "''a''"] by (auto simp: mug_codecs_def cart_table_def table_enc_def)
  then have run: "AddItem mug_codecs (ok_call 0) (ok_call 0) 0 (Inr mug) (Inr 100) ''alice'' ''p1'' 1 (NewStore ''n'') = (Inr one_mug, db')"
    by (simp add: AddItem_def no_cart wanted_def NewCart_def [of 0 "''alice''"] mug_def mugs_def [symmetric] Let_def)
      (simp add: one_mug_def NewCart_def)
  have before: "cart_before 0 ''alice'' None = NewCart 0 ''alice''" by (simp add: cart_before_def)
  have "cart_ok (NewCart 0 ''alice'')" "ct_CartID (NewCart 0 ''alice'') = IDFor ''alice''" "cart_qty ''p1'' (NewCart 0 ''alice'') + 1 \<le> MaxInt"
    "p_ProductID mug = ''p1''" "call_err (ok_call 0) = None" "''alice'' \<noteq> ''''"
    by (simp_all add: NewCart_def cart_ok_def cart_qty_def OrderItems_def MaxInt_def mug_def ok_call_def)
  from AddItem_adds [OF mug_codecs_ok this(6) run no_cart this(4), unfolded before, OF this(1-3) this(5)] run show ?thesis by blast
qed

text \<open>
  The check of availability can overflow. With one unit in the cart and a hundred in the
  warehouse, adding the largest \<open>int\<close> of units is accepted: the sum the check compares has wrapped
  to a negative number, and the stored line has a negative quantity.
\<close>

lemma AddItem_overflow:
  "\<exists>ct' db'. AddItem mug_codecs (ok_call 0) (ok_call 0) 0 (Inr mug) (Inr 100) ''alice'' ''p1'' MaxInt mug_db = (Inr ct', db') \<and>
     cart_qty ''p1'' ct' = MinInt"
proof -
  let ?ct = "AddOrMerge 0 (mugs MaxInt) one_mug"
  have "?ct \<noteq> one_mug" unfolding too_many_mugs by (simp add: one_mug_simp mugs_def MinInt_def NewCart_def)
  then obtain db' where save: "cart_Save mug_codecs (ok_call 0) ?ct mug_db = (None, db')"
    using mug_save [of ?ct "''b''"] by (auto simp: mug_codecs_def cart_table_def table_enc_def)
  have "wanted ''p1'' MaxInt one_mug = MinInt"
    by (simp add: wanted_def one_mug_simp mugs_def wrap64_def MaxInt_def MinInt_def)
  moreover have "\<not> MaxInt \<le> 0" "\<not> (100 < MinInt)" by (simp_all add: MaxInt_def MinInt_def)
  ultimately have "AddItem mug_codecs (ok_call 0) (ok_call 0) 0 (Inr mug) (Inr 100) ''alice'' ''p1'' MaxInt mug_db = (Inr ?ct, db')"
    using save by (simp add: AddItem_def mug_stored mug_def mugs_def [symmetric] Let_def)
  moreover have "cart_qty ''p1'' ?ct = MinInt" unfolding too_many_mugs by (simp add: cart_qty_def OrderItems_def mugs_def)
  ultimately show ?thesis by blast
qed


end
