(* ===== verification/Auth.thy ===== *)
theory Auth
  imports Httpx_Errors Go_Strings
begin

text \<open>
  \<^verbatim>\<open>src/internal/auth/auth.go\<close>: issuing and verifying access tokens. The JWT library is a record of
  two functions, signing and parsing, and \<open>jwt_ok\<close> is what its documentation promises: a token
  parses only when its method is among the valid ones, the key function gives its key, the
  signature verifies, the issuer is the expected one and the token has not expired. Times are
  nanoseconds; the dates inside a token have the library's precision of one second.
\<close>

record Claims =
  cl_Subject :: string
  cl_Issuer :: string
  cl_IssuedAt :: int
  cl_NotBefore :: int
  cl_ExpiresAt :: "int option"
  cl_ID :: string
  cl_Email :: string
  cl_Roles :: "string list"

definition claims_CustomerID :: "Claims \<Rightarrow> string" where
  "claims_CustomerID c = cl_Subject c"

definition HasRole :: "string \<Rightarrow> Claims \<Rightarrow> bool" where
  "HasRole role c \<longleftrightarrow> List.find (\<lambda>held. held = role) (cl_Roles c) \<noteq> None"

definition ErrUnauthenticated :: go_error where
  "ErrUnauthenticated = Sentinel ''auth: not authenticated''"

definition MinSecretLength :: nat where
  "MinSecretLength = 32"

text \<open>\<open>jwt_Sign secret claims\<close> with HS256; \<open>jwt_Parse keyfunc methods issuer expRequired now token\<close>,
  where the key function maps the token's method to a key; \<open>jwt_Valid\<close> says that a token is signed
  with a method and a key and carries the claims.\<close>

record jwt =
  jwt_Sign :: "string \<Rightarrow> Claims \<Rightarrow> string option"
  jwt_Parse :: "(string \<Rightarrow> string res) \<Rightarrow> string list \<Rightarrow> string \<Rightarrow> bool \<Rightarrow> int \<Rightarrow> string \<Rightarrow> Claims option"
  jwt_Valid :: "string \<Rightarrow> string \<Rightarrow> string \<Rightarrow> Claims \<Rightarrow> bool"

text \<open>An empty issuer means that the issuer is not checked.\<close>

definition jwt_checks :: "jwt \<Rightarrow> bool" where
  "jwt_checks L \<longleftrightarrow>
     (\<forall>kf ms iss req now tok c. jwt_Parse L kf ms iss req now tok = Some c \<longrightarrow>
        (\<exists>alg key. alg \<in> set ms \<and> kf alg = Inr key \<and> jwt_Valid L alg key tok c) \<and>
        (iss \<noteq> '''' \<longrightarrow> cl_Issuer c = iss) \<and> (req \<longrightarrow> cl_ExpiresAt c \<noteq> None) \<and>
        (\<forall>x. cl_ExpiresAt c = Some x \<longrightarrow> now < x))"

definition jwt_accepts :: "jwt \<Rightarrow> bool" where
  "jwt_accepts L \<longleftrightarrow>
     (\<forall>kf ms iss req now key c tok x. jwt_Sign L key c = Some tok \<and> ''HS256'' \<in> set ms \<and> kf ''HS256'' = Inr key \<and>
        cl_Issuer c = iss \<and> cl_ExpiresAt c = Some x \<and> now < x \<and> cl_NotBefore c \<le> now \<longrightarrow>
        jwt_Parse L kf ms iss req now tok = Some c)"

definition jwt_signs :: "jwt \<Rightarrow> bool" where
  "jwt_signs L \<longleftrightarrow> (\<forall>key c tok. jwt_Sign L key c = Some tok \<longrightarrow> jwt_Valid L ''HS256'' key tok c)"

text \<open>A token carries one set of claims.\<close>

definition jwt_payload :: "jwt \<Rightarrow> bool" where
  "jwt_payload L \<longleftrightarrow> (\<forall>alg key alg' key' tok c c'. jwt_Valid L alg key tok c \<and> jwt_Valid L alg' key' tok c' \<longrightarrow> c = c')"

definition jwt_ok :: "jwt \<Rightarrow> bool" where
  "jwt_ok L \<longleftrightarrow> jwt_checks L \<and> jwt_accepts L \<and> jwt_signs L \<and> jwt_payload L"

lemma jwt_one_payload: "jwt_ok L \<Longrightarrow> jwt_Valid L alg key tok c \<Longrightarrow> jwt_Valid L alg' key' tok c' \<Longrightarrow> c = c'"
  unfolding jwt_ok_def jwt_payload_def by blast

lemma jwt_signed: "jwt_ok L \<Longrightarrow> jwt_Sign L key c = Some tok \<Longrightarrow> jwt_Valid L ''HS256'' key tok c"
  unfolding jwt_ok_def jwt_signs_def by blast

lemma jwt_parses:
  assumes "jwt_ok L" and "jwt_Sign L key c = Some tok" "''HS256'' \<in> set ms" "kf ''HS256'' = Inr key"
    and "cl_Issuer c = iss" "cl_ExpiresAt c = Some x" "now < x" "cl_NotBefore c \<le> now"
  shows "jwt_Parse L kf ms iss req now tok = Some c"
  using assms unfolding jwt_ok_def jwt_accepts_def by blast

section \<open>Signing\<close>

record Signer =
  sg_secret :: string
  sg_issuer :: string
  sg_ttl :: int

definition NewSigner :: "string \<Rightarrow> string \<Rightarrow> int \<Rightarrow> Signer res" where
  "NewSigner secret issuer ttl =
     (if length secret < MinSecretLength
      then Inl (Wrapped ''auth: signing secret must be at least %d bytes, got %d'' [])
      else Inr \<lparr>sg_secret = secret, sg_issuer = issuer, sg_ttl = (if ttl \<le> 0 then 900000000000 else ttl)\<rparr>)"

definition NewNumericDate :: "int \<Rightarrow> int" where
  "NewNumericDate t = t div 1000000000 * 1000000000"

definition signer_Issue :: "jwt \<Rightarrow> Signer \<Rightarrow> int \<Rightarrow> string \<Rightarrow> string \<Rightarrow> string list \<Rightarrow> string \<Rightarrow> (string \<times> Claims) res" where
  "signer_Issue L s now customerID email roles sessionID =
     (let claims = \<lparr>cl_Subject = customerID, cl_Issuer = sg_issuer s, cl_IssuedAt = NewNumericDate now,
                    cl_NotBefore = NewNumericDate now, cl_ExpiresAt = Some (NewNumericDate (now + sg_ttl s)),
                    cl_ID = sessionID, cl_Email = email, cl_Roles = roles\<rparr>
      in case jwt_Sign L (sg_secret s) claims of
           None \<Rightarrow> Inl (Wrapped ''auth: signing token: %w'' [])
         | Some tok \<Rightarrow> Inr (tok, claims))"

section \<open>Verifying\<close>

text \<open>The denylist lookup is the answer it gives for a session, absent when none is attached.\<close>

record Verifier =
  vf_secret :: string
  vf_issuer :: string
  vf_revoked :: "(string \<Rightarrow> bool res) option"

definition NewVerifier :: "string \<Rightarrow> string \<Rightarrow> Verifier res" where
  "NewVerifier secret issuer =
     (if length secret < MinSecretLength
      then Inl (Wrapped ''auth: signing secret must be at least %d bytes, got %d'' [])
      else Inr \<lparr>vf_secret = secret, vf_issuer = issuer, vf_revoked = None\<rparr>)"

definition WithRevocationCheck :: "(string \<Rightarrow> bool res) \<Rightarrow> Verifier \<Rightarrow> Verifier" where
  "WithRevocationCheck check v = v\<lparr>vf_revoked := Some check\<rparr>"

text \<open>The key function: only HMAC methods get the secret.\<close>

definition verify_key :: "string \<Rightarrow> string \<Rightarrow> string res" where
  "verify_key secret alg =
     (if alg = ''HS256'' \<or> alg = ''HS384'' \<or> alg = ''HS512'' then Inr secret
      else Inl (Wrapped ''auth: unexpected signing method %v'' []))"

definition Verify :: "jwt \<Rightarrow> Verifier \<Rightarrow> int \<Rightarrow> string \<Rightarrow> Claims res" where
  "Verify L v now token =
     (case jwt_Parse L (verify_key (vf_secret v)) [''HS256''] (vf_issuer v) True now token of
        None \<Rightarrow> Inl ErrUnauthenticated
      | Some claims \<Rightarrow>
          (if cl_Subject claims = '''' then Inl ErrUnauthenticated
           else (case vf_revoked v of
                   None \<Rightarrow> Inr claims
                 | Some check \<Rightarrow>
                     (if cl_ID claims = '''' then Inr claims
                      else (case check (cl_ID claims) of
                              Inl err \<Rightarrow> Inr claims
                            | Inr revoked \<Rightarrow> if revoked then Inl ErrUnauthenticated else Inr claims)))))"

text \<open>\<open>BearerToken\<close> on the value of the Authorization header; none of the letters of the scheme
  folds to anything but its other case.\<close>

definition ascii_lower :: "char \<Rightarrow> char" where
  "ascii_lower c = (if is_upper c then char_of (of_char c + 32 :: nat) else c)"

definition BearerToken :: "string \<Rightarrow> string option" where
  "BearerToken header =
     (if header = '''' then None
      else if length header \<le> 7 \<or> map ascii_lower (take 7 header) \<noteq> ''bearer '' then None
      else Some (TrimSpace (drop 7 header)))"

definition Unauthorized :: "string \<Rightarrow> go_error" where
  "Unauthorized msg = Errorf StatusUnauthorized (if msg = '''' then ''authentication required'' else msg)"

section \<open>What a verified token says\<close>

lemma Verify_ok:
  assumes "jwt_ok L" and "Verify L v now token = Inr claims"
  shows "jwt_Valid L ''HS256'' (vf_secret v) token claims" and "vf_issuer v = '''' \<or> cl_Issuer claims = vf_issuer v"
    and "cl_Subject claims \<noteq> ''''" and "\<exists>x. cl_ExpiresAt claims = Some x \<and> now < x"
    and "vf_revoked v = Some check \<Longrightarrow> cl_ID claims \<noteq> '''' \<Longrightarrow> check (cl_ID claims) \<noteq> Inr True"
proof -
  have p: "jwt_Parse L (verify_key (vf_secret v)) [''HS256''] (vf_issuer v) True now token = Some claims"
    using assms(2) by (auto simp: Verify_def split: option.splits if_splits sum.splits)
  have "(\<exists>alg key. alg \<in> set [''HS256''] \<and> verify_key (vf_secret v) alg = Inr key \<and> jwt_Valid L alg key token claims) \<and>
        (vf_issuer v \<noteq> '''' \<longrightarrow> cl_Issuer claims = vf_issuer v) \<and> cl_ExpiresAt claims \<noteq> None \<and> (\<forall>x. cl_ExpiresAt claims = Some x \<longrightarrow> now < x)"
    using assms(1) p unfolding jwt_ok_def jwt_checks_def by blast
  then show "jwt_Valid L ''HS256'' (vf_secret v) token claims" "vf_issuer v = '''' \<or> cl_Issuer claims = vf_issuer v"
      "\<exists>x. cl_ExpiresAt claims = Some x \<and> now < x"
    by (auto simp: verify_key_def)
  show "cl_Subject claims \<noteq> ''''" using assms(2) by (auto simp: Verify_def split: option.splits if_splits sum.splits)
  show "vf_revoked v = Some check \<Longrightarrow> cl_ID claims \<noteq> '''' \<Longrightarrow> check (cl_ID claims) \<noteq> Inr True"
    using assms(2) p by (auto simp: Verify_def split: if_splits sum.splits)
qed

lemma Issue_Verify:
  assumes "jwt_ok L" and "signer_Issue L s t0 customerID email roles sessionID = Inr (token, claims)"
    and "sg_secret s = vf_secret v" "sg_issuer s = vf_issuer v" and "customerID \<noteq> ''''"
    and "t0 \<le> now" and "now < NewNumericDate (t0 + sg_ttl s)"
    and "vf_revoked v = None \<or> sessionID = '''' \<or> (\<exists>check. vf_revoked v = Some check \<and> check sessionID \<noteq> Inr True)"
  shows "Verify L v now token = Inr claims \<and> cl_Subject claims = customerID"
proof -
  have c: "cl_Subject claims = customerID" "cl_ID claims = sessionID" "cl_Issuer claims = sg_issuer s"
      "cl_ExpiresAt claims = Some (NewNumericDate (t0 + sg_ttl s))" "cl_NotBefore claims = NewNumericDate t0"
      "jwt_Sign L (sg_secret s) claims = Some token"
    using assms(2) by (auto simp: signer_Issue_def Let_def split: option.splits)
  have "NewNumericDate t0 \<le> now"
    using assms(6) div_mult_mod_eq [of t0 1000000000] pos_mod_sign [of 1000000000 t0] by (simp add: NewNumericDate_def)
  then have "jwt_Parse L (verify_key (vf_secret v)) [''HS256''] (vf_issuer v) True now token = Some claims"
    using assms(3,4,7) c by (intro jwt_parses [OF assms(1) c(6)]) (simp_all add: verify_key_def)
  with assms(5,8) c show ?thesis by (auto simp: Verify_def split: option.splits sum.splits)
qed

end
