(* ===== verification/Order_Service.thy ===== *)
theory Order_Service
  imports Events Kv_Client Auth
begin

text \<open>
  \<^verbatim>\<open>src/internal/order/order.go\<close> and \<^verbatim>\<open>src/internal/order/server.go\<close>: the order records built from
  the events of the cart service and of the warehouse, and what a customer can do with them.
  Records are JSON values in the order database under \<open>order:<customer>:<order>\<close>. A
  \<open>time.Time\<close> that was never set is \<open>zero_time\<close>.
\<close>

definition zero_time :: int where "zero_time = - 62135596800000000000"

definition StatusPlaced :: string where "StatusPlaced = ''placed''"
definition StatusShipped :: string where "StatusShipped = ''shipped''"
definition StatusCancelled :: string where "StatusCancelled = ''cancelled''"

record Order =
  o_OrderID :: string
  o_CustomerID :: string
  o_CartID :: string
  o_Status :: string
  o_Items :: "orders_Item list"
  o_TotalPrice :: float64
  o_TotalWeight :: float64
  o_PlacedAt :: int
  o_ShippedAt :: "int option"
  o_CancelledAt :: "int option"
  o_CancelReason :: string
  o_UpdatedAt :: int
  o_AwaitingDetails :: bool

definition zero_Order :: Order where
  "zero_Order = \<lparr>o_OrderID = '''', o_CustomerID = '''', o_CartID = '''', o_Status = '''', o_Items = [],
     o_TotalPrice = Fin 0, o_TotalWeight = Fin 0, o_PlacedAt = zero_time, o_ShippedAt = None,
     o_CancelledAt = None, o_CancelReason = '''', o_UpdatedAt = zero_time, o_AwaitingDetails = False\<rparr>"

definition Cancellable :: "Order \<Rightarrow> bool" where
  "Cancellable r \<longleftrightarrow> o_Status r = StatusPlaced"

definition HasDetails :: "Order \<Rightarrow> bool" where
  "HasDetails r \<longleftrightarrow> o_PlacedAt r \<noteq> zero_time"

definition KeyPrefix :: string where "KeyPrefix = ''order:''"

definition order_Key :: "string \<Rightarrow> string \<Rightarrow> string" where
  "order_Key customerID orderID = KeyPrefix @ customerID @ '':'' @ orderID"

definition CustomerPrefix :: "string \<Rightarrow> string" where
  "CustomerPrefix customerID = KeyPrefix @ customerID @ '':''"

text \<open>The JSON of this service: stored records, the payloads it receives and the one it sends.\<close>

record order_codecs =
  enc_record :: "Order \<Rightarrow> string option"
  dec_record :: "string \<Rightarrow> Order option"
  dec_placed :: "string \<Rightarrow> OrderPlacedData option"
  dec_shipped :: "string \<Rightarrow> OrderShippedData option"
  enc_cancelled :: "OrderCancelledData \<Rightarrow> string option"
  enc_envelope :: "Envelope \<Rightarrow> string option"

section \<open>Operations\<close>

definition order_load :: "order_codecs \<Rightarrow> call \<Rightarrow> string \<Rightarrow> string \<Rightarrow> Store \<Rightarrow> Order option res" where
  "order_load J c customerID orderID db =
     (case db_Get c (order_Key customerID orderID) db of
        Inl err \<Rightarrow> Inl (Wrap StatusServiceUnavailable err ''order database unavailable'')
      | Inr None \<Rightarrow> Inr None
      | Inr (Some e) \<Rightarrow>
          (case dec_record J (e_Value e) of
             None \<Rightarrow> Inl (Wrap StatusInternalServerError (Sentinel ''json'') ''order record is unreadable'')
           | Some r \<Rightarrow> Inr (Some r)))"

definition order_save :: "order_codecs \<Rightarrow> call \<Rightarrow> Order \<Rightarrow> Store \<Rightarrow> go_error option \<times> Store" where
  "order_save J c r0 db =
     (let r = r0\<lparr>o_AwaitingDetails := \<not> HasDetails r0\<rparr> in
      case enc_record J r of
        None \<Rightarrow> (Some (Wrap StatusInternalServerError (Sentinel ''json'') ''encoding order %s''), db)
      | Some raw \<Rightarrow>
          (case db_Put c (order_Key (o_CustomerID r) (o_OrderID r)) raw db of
             (Inl err, db') \<Rightarrow> (Some (Wrap StatusServiceUnavailable err ''order database unavailable''), db')
           | (Inr e, db') \<Rightarrow> (None, db')))"

definition HandlePlaced :: "order_codecs \<Rightarrow> call \<Rightarrow> call \<Rightarrow> int \<Rightarrow> Store handler" where
  "HandlePlaced J cget cput now envelope db =
     (case Decode (dec_placed J) envelope of
        Inl err \<Rightarrow> (Some err, db)
      | Inr data \<Rightarrow>
          if pd_OrderID data = '''' \<or> pd_CustomerID data = ''''
          then (Some (Sentinel ''order.placed event is missing an order or customer id''), db)
          else (case order_load J cget (pd_CustomerID data) (pd_OrderID data) db of
                  Inl err \<Rightarrow> (Some err, db)
                | Inr known \<Rightarrow>
                    if (case known of None \<Rightarrow> False | Some r \<Rightarrow> HasDetails r) then (None, db)
                    else (let r = (case known of
                                     None \<Rightarrow> zero_Order\<lparr>o_OrderID := pd_OrderID data, o_CustomerID := pd_CustomerID data,
                                                       o_Status := StatusPlaced\<rparr>
                                   | Some r \<Rightarrow> r)
                          in order_save J cput
                               (r\<lparr>o_CartID := pd_CartID data, o_Items := pd_Items data,
                                  o_TotalPrice := pd_TotalPrice data, o_TotalWeight := pd_TotalWeight data,
                                  o_PlacedAt := pd_PlacedAt data, o_UpdatedAt := now\<rparr>) db)))"

definition HandleShipped :: "order_codecs \<Rightarrow> call \<Rightarrow> call \<Rightarrow> int \<Rightarrow> Store handler" where
  "HandleShipped J cget cput now envelope db =
     (case Decode (dec_shipped J) envelope of
        Inl err \<Rightarrow> (Some err, db)
      | Inr data \<Rightarrow>
          if sd_OrderID data = '''' \<or> sd_CustomerID data = ''''
          then (Some (Sentinel ''order.shipped event is missing an order or customer id''), db)
          else (case order_load J cget (sd_CustomerID data) (sd_OrderID data) db of
                  Inl err \<Rightarrow> (Some err, db)
                | Inr known \<Rightarrow>
                    (let r = (case known of
                                None \<Rightarrow> zero_Order\<lparr>o_OrderID := sd_OrderID data, o_CustomerID := sd_CustomerID data,
                                                  o_Items := sd_Items data\<rparr>
                              | Some r \<Rightarrow> r)
                     in if o_Status r = StatusShipped then (None, db)
                        else order_save J cput
                               (r\<lparr>o_Status := StatusShipped, o_ShippedAt := Some (sd_ShippedAt data),
                                  o_UpdatedAt := now\<rparr>) db)))"

definition order_Get :: "order_codecs \<Rightarrow> call \<Rightarrow> string \<Rightarrow> string \<Rightarrow> Store \<Rightarrow> Order res" where
  "order_Get J c customerID orderID db =
     (if customerID = '''' \<or> orderID = '''' then Inl (Errorf StatusBadRequest ''customerId and orderId are required'')
      else (case order_load J c customerID orderID db of
              Inl err \<Rightarrow> Inl err
            | Inr None \<Rightarrow> Inl (Errorf StatusNotFound ''order %s not found'')
            | Inr (Some r) \<Rightarrow> Inr r))"

definition order_List :: "order_codecs \<Rightarrow> call \<Rightarrow> string list \<Rightarrow> string \<Rightarrow> int \<Rightarrow> Store \<Rightarrow> Order list res" where
  "order_List J c ord customerID limit0 db =
     (if customerID = '''' then Inl (Errorf StatusBadRequest ''customerId is required'')
      else (let limit = (if limit0 \<le> 0 \<or> limit0 > 200 then 50 else limit0) in
            case db_Scan c ord (CustomerPrefix customerID) limit db of
              Inl err \<Rightarrow> Inl (Wrap StatusServiceUnavailable err ''order database unavailable'')
            | Inr entries \<Rightarrow> Inr (rev (List.map_filter (\<lambda>e. dec_record J (e_Value e)) entries))))"

text \<open>\<open>Cancel\<close>: \<open>pub\<close> is the outcome of the broker, \<open>evid\<close> and \<open>corr\<close> the identifiers of the event.\<close>

definition order_Cancel :: "order_codecs \<Rightarrow> call \<Rightarrow> call \<Rightarrow> int \<Rightarrow> bool \<Rightarrow> go_error option \<Rightarrow> string \<Rightarrow> string
    \<Rightarrow> string \<Rightarrow> string \<Rightarrow> string \<Rightarrow> Store \<times> (string \<times> string) list
    \<Rightarrow> Order res \<times> Store \<times> (string \<times> string) list" where
  "order_Cancel J cget cput now have_pub pub evid corr customerID orderID reason s =
     (case s of (db, bus) \<Rightarrow>
        case order_Get J cget customerID orderID db of
          Inl err \<Rightarrow> (Inl err, db, bus)
        | Inr r \<Rightarrow>
            if o_Status r = StatusCancelled then (Inr r, db, bus)
            else if \<not> Cancellable r
            then (Inl (Errorf StatusConflict ''order %s has already %s and can no longer be cancelled''), db, bus)
            else (let r' = r\<lparr>o_Status := StatusCancelled, o_CancelledAt := Some now,
                              o_CancelReason := TrimSpace reason, o_UpdatedAt := now\<rparr>
                  in case order_save J cput r' db of
                       (Some err, db') \<Rightarrow> (Inl err, db', bus)
                     | (None, db') \<Rightarrow>
                         (Inr (r'\<lparr>o_AwaitingDetails := \<not> HasDetails r'\<rparr>), db',
                          snd (Emit have_pub (enc_envelope J) pub
                                 (events_New (enc_cancelled J) evid now corr OrderCancelled (o_OrderID r') (o_CustomerID r')
                                    \<lparr>cd_OrderID = o_OrderID r', cd_CustomerID = o_CustomerID r',
                                     cd_Reason = o_CancelReason r', cd_CancelledAt = now\<rparr>) bus))))"

section \<open>HTTP surface\<close>

definition customerOf :: "string \<Rightarrow> string res" where
  "customerOf header =
     (if header = '''' then Inl (Unauthorized ''this endpoint requires an authenticated customer'')
      else Inr header)"

text \<open>The error of \<open>Atoi\<close> is ignored: the value it leaves is 0, or for a number out of range one
  beyond every limit, and \<open>List\<close> treats both alike.\<close>

definition order_handleList :: "order_codecs \<Rightarrow> call \<Rightarrow> string list \<Rightarrow> string \<Rightarrow> string \<Rightarrow> Store
    \<Rightarrow> (int \<times> string \<times> nat \<times> Order list) res" where
  "order_handleList J c ord header limitq db =
     (case customerOf header of
        Inl err \<Rightarrow> Inl err
      | Inr customerID \<Rightarrow>
          (case order_List J c ord customerID (case Atoi limitq of None \<Rightarrow> 0 | Some n \<Rightarrow> n) db of
             Inl err \<Rightarrow> Inl err
           | Inr rs \<Rightarrow> Inr (StatusOK, customerID, length rs, rs)))"

definition order_handleGet :: "order_codecs \<Rightarrow> call \<Rightarrow> string \<Rightarrow> string \<Rightarrow> Store \<Rightarrow> (int \<times> Order) res" where
  "order_handleGet J c header orderID db =
     (case customerOf header of
        Inl err \<Rightarrow> Inl err
      | Inr customerID \<Rightarrow>
          (case order_Get J c customerID orderID db of Inl err \<Rightarrow> Inl err | Inr r \<Rightarrow> Inr (StatusOK, r)))"

text \<open>\<open>body\<close> is \<open>None\<close> when the request has no body, otherwise the decoded reason.\<close>

definition order_handleCancel :: "order_codecs \<Rightarrow> call \<Rightarrow> call \<Rightarrow> int \<Rightarrow> bool \<Rightarrow> go_error option \<Rightarrow> string \<Rightarrow> string
    \<Rightarrow> string \<Rightarrow> string \<Rightarrow> string res option \<Rightarrow> Store \<times> (string \<times> string) list
    \<Rightarrow> (int \<times> Order) res \<times> Store \<times> (string \<times> string) list" where
  "order_handleCancel J cget cput now have_pub pub evid corr header orderID body s =
     (case customerOf header of
        Inl err \<Rightarrow> (Inl err, s)
      | Inr customerID \<Rightarrow>
          (case (case body of None \<Rightarrow> Inr '''' | Some b \<Rightarrow> b) of
             Inl err \<Rightarrow> (Inl err, s)
           | Inr reason \<Rightarrow>
               (case order_Cancel J cget cput now have_pub pub evid corr customerID orderID reason s of
                  (Inl err, s') \<Rightarrow> (Inl err, s')
                | (Inr r, s') \<Rightarrow> (Inr (StatusOK, r), s'))))"

definition Subscriptions :: "order_codecs \<Rightarrow> call \<Rightarrow> call \<Rightarrow> int \<Rightarrow> (string \<times> Store handler) list" where
  "Subscriptions J cget cput now =
     [(OrderPlaced, HandlePlaced J cget cput now), (OrderShipped, HandleShipped J cget cput now)]"

section \<open>The record behind a key\<close>

text \<open>Records never expire and are filed under the ids they carry.\<close>

definition stored :: "order_codecs \<Rightarrow> Store \<Rightarrow> string \<Rightarrow> Order option" where
  "stored J db k = (case s_data db k of None \<Rightarrow> None | Some e \<Rightarrow> dec_record J (e_Value e))"

definition row_ok :: "order_codecs \<Rightarrow> Store \<Rightarrow> string \<Rightarrow> string \<Rightarrow> bool" where
  "row_ok J db customerID orderID \<longleftrightarrow>
     (\<forall>e. s_data db (order_Key customerID orderID) = Some e \<longrightarrow>
        e_ExpiresAt e = 0 \<and>
        (\<exists>r. dec_record J (e_Value e) = Some r \<and> o_CustomerID r = customerID \<and> o_OrderID r = orderID))"

lemma row_ok_none: "s_data db (order_Key c i) = None \<Longrightarrow> row_ok J db c i"
  by (simp add: row_ok_def)

lemma order_load_row:
  assumes "row_ok J db c i" and "call_err cl = None"
  shows "order_load J cl c i db = Inr (stored J db (order_Key c i))"
  using assms
  by (auto simp: order_load_def db_Get_ok store_Get_def stored_def Expired_def row_ok_def split: option.split)

lemma order_load_ok:
  assumes "order_load J cl c i db = Inr known" and "row_ok J db c i" and "transport_err (call_err cl)"
  shows "known = stored J db (order_Key c i)"
proof (cases "call_err cl")
  case None
  with assms order_load_row [OF assms(2)] show ?thesis by simp
next
  case (Some err)
  then have "\<not> IsStatus err StatusNotFound"
    using assms(3) IsStatus_StatusOf [of err StatusNotFound] by (auto simp: transport_err_def)
  with Some assms(1) show ?thesis
    by (simp add: order_load_def db_Get_def rpc_get_def client_Get_def)
qed

definition finish :: "Order \<Rightarrow> Order" where
  "finish r = r\<lparr>o_AwaitingDetails := \<not> HasDetails r\<rparr>"

lemma order_save_effect:
  assumes J: "codec_ok (enc_record J) (dec_record J)"
    and row: "row_ok J db c i" and ids: "o_CustomerID r = c" "o_OrderID r = i"
    and save: "order_save J cl r db = (err, db')"
  shows "row_ok J db' c i"
    and "stored J db' (order_Key c i) = stored J db (order_Key c i) \<or> stored J db' (order_Key c i) = Some (finish r)"
    and "err = None \<Longrightarrow> stored J db' (order_Key c i) = Some (finish r)"
    and "k \<noteq> order_Key c i \<Longrightarrow> s_data db' k = s_data db k"
proof -
  let ?k = "order_Key c i"
  have "row_ok J db' c i \<and>
        (stored J db' ?k = stored J db ?k \<or> stored J db' ?k = Some (finish r)) \<and>
        (err = None \<longrightarrow> stored J db' ?k = Some (finish r)) \<and> (k \<noteq> ?k \<longrightarrow> s_data db' k = s_data db k)"
  proof (cases "enc_record J (finish r)")
    case None
    with save row show ?thesis by (auto simp: order_save_def finish_def Let_def)
  next
    case (Some raw)
    then have dec: "dec_record J raw = Some (finish r)" using codec_okD [OF J] by blast
    obtain res where put: "db_Put cl ?k raw db = (res, db')" and err: "err = None \<longleftrightarrow> is_ok res"
      using save Some ids by (auto simp: order_save_def finish_def Let_def split: prod.splits sum.splits)
    note eff = db_Put_effect [OF put]
    have new: "row_ok J db' c i \<and> stored J db' ?k = Some (finish r)"
      if "\<exists>e. s_data db' ?k = Some e \<and> e_Value e = raw \<and> e_ExpiresAt e = 0"
      using that dec ids by (auto simp: row_ok_def stored_def finish_def)
    have old: "row_ok J db' c i \<and> stored J db' ?k = stored J db ?k" if "s_data db' ?k = s_data db ?k"
      using that row by (simp add: row_ok_def stored_def)
    show ?thesis using eff(1) eff(2) eff(3) err new old by (cases res) (auto simp: is_ok_iff)
  qed
  then show "row_ok J db' c i"
    "stored J db' ?k = stored J db ?k \<or> stored J db' ?k = Some (finish r)"
    "err = None \<Longrightarrow> stored J db' ?k = Some (finish r)"
    "k \<noteq> ?k \<Longrightarrow> s_data db' k = s_data db k" by auto
qed


section \<open>What an event does to a record\<close>

definition record_placed :: "OrderPlacedData \<Rightarrow> int \<Rightarrow> Order option \<Rightarrow> Order" where
  "record_placed p now known =
     (let r = (case known of
                 None \<Rightarrow> zero_Order\<lparr>o_OrderID := pd_OrderID p, o_CustomerID := pd_CustomerID p, o_Status := StatusPlaced\<rparr>
               | Some r \<Rightarrow> r)
      in if known \<noteq> None \<and> HasDetails r then r
         else finish (r\<lparr>o_CartID := pd_CartID p, o_Items := pd_Items p, o_TotalPrice := pd_TotalPrice p,
                        o_TotalWeight := pd_TotalWeight p, o_PlacedAt := pd_PlacedAt p, o_UpdatedAt := now\<rparr>))"

definition record_shipped :: "OrderShippedData \<Rightarrow> int \<Rightarrow> Order option \<Rightarrow> Order" where
  "record_shipped s now known =
     (let r = (case known of
                 None \<Rightarrow> zero_Order\<lparr>o_OrderID := sd_OrderID s, o_CustomerID := sd_CustomerID s, o_Items := sd_Items s\<rparr>
               | Some r \<Rightarrow> r)
      in if o_Status r = StatusShipped then r
         else finish (r\<lparr>o_Status := StatusShipped, o_ShippedAt := Some (sd_ShippedAt s), o_UpdatedAt := now\<rparr>))"

text \<open>The effect of one handled event on the row \<open>(c, i)\<close>: nothing or the transition \<open>f\<close>, and
  the transition for certain when the handler acknowledged the event.\<close>

definition row_effect :: "order_codecs \<Rightarrow> string \<Rightarrow> string \<Rightarrow> (Order option \<Rightarrow> Order) \<Rightarrow> Store \<Rightarrow> go_error option \<Rightarrow> Store \<Rightarrow> bool" where
  "row_effect J c i f db err db' \<longleftrightarrow>
     row_ok J db' c i \<and>
     (stored J db' (order_Key c i) = stored J db (order_Key c i) \<or>
      stored J db' (order_Key c i) = Some (f (stored J db (order_Key c i)))) \<and>
     (err = None \<longrightarrow> stored J db' (order_Key c i) = Some (f (stored J db (order_Key c i)))) \<and>
     (\<forall>k. k \<noteq> order_Key c i \<longrightarrow> s_data db' k = s_data db k)"

lemma stored_ids: "row_ok J db c i \<Longrightarrow> stored J db (order_Key c i) = Some r \<Longrightarrow> o_CustomerID r = c \<and> o_OrderID r = i"
  by (auto simp: row_ok_def stored_def split: option.splits)

lemma row_effect_save:
  assumes "codec_ok (enc_record J) (dec_record J)" "row_ok J db c i"
    and "o_CustomerID r = c" "o_OrderID r = i" "order_save J cl r db = (err, db')"
    and "f (stored J db (order_Key c i)) = finish r"
  shows "row_effect J c i f db err db'"
  using order_save_effect [OF assms(1-5)] assms(6) by (auto simp: row_effect_def)

lemma row_effect_skip:
  assumes "row_ok J db c i" and "err = None \<Longrightarrow> stored J db (order_Key c i) = Some (f (stored J db (order_Key c i)))"
  shows "row_effect J c i f db err db"
  using assms by (auto simp: row_effect_def)

lemma HandlePlaced_effect:
  assumes J: "codec_ok (enc_record J) (dec_record J)"
    and ev: "Decode (dec_placed J) e = Inr p" "pd_CustomerID p = c" "pd_OrderID p = i"
    and row: "row_ok J db c i" and net: "transport_err (call_err cget)"
    and h: "HandlePlaced J cget cput now e db = (err, db')"
  shows "row_effect J c i (record_placed p now) db err db'"
proof (cases "c = '''' \<or> i = '''' \<or> \<not> is_ok (order_load J cget c i db)")
  case True
  then obtain x where "err = Some x" "db' = db"
    using h ev by (cases "order_load J cget c i db") (auto simp: HandlePlaced_def split: if_splits)
  with row show ?thesis by (auto intro: row_effect_skip)
next
  case False
  then obtain known where ld: "order_load J cget c i db = Inr known" by (auto simp: is_ok_iff)
  have known: "known = stored J db (order_Key c i)" by (rule order_load_ok [OF ld row net])
  show ?thesis
  proof (cases "\<exists>r. known = Some r \<and> HasDetails r")
    case True
    then show ?thesis
      using h ev ld False known row by (auto simp: HandlePlaced_def record_placed_def intro!: row_effect_skip)
  next
    case other: False
    let ?r = "case known of None \<Rightarrow> zero_Order\<lparr>o_OrderID := i, o_CustomerID := c, o_Status := StatusPlaced\<rparr> | Some r \<Rightarrow> r"
    have "o_CustomerID ?r = c \<and> o_OrderID ?r = i"
      using stored_ids [OF row] known by (auto simp: zero_Order_def split: option.split)
    moreover have "order_save J cput (?r\<lparr>o_CartID := pd_CartID p, o_Items := pd_Items p, o_TotalPrice := pd_TotalPrice p,
        o_TotalWeight := pd_TotalWeight p, o_PlacedAt := pd_PlacedAt p, o_UpdatedAt := now\<rparr>) db = (err, db')"
      using h ev ld False other by (auto simp: HandlePlaced_def Let_def split: option.splits)
    ultimately show ?thesis
      using other known ev
      by (intro row_effect_save [OF J row]) (auto simp: record_placed_def Let_def split: option.splits)
  qed
qed

lemma HandleShipped_effect:
  assumes J: "codec_ok (enc_record J) (dec_record J)"
    and ev: "Decode (dec_shipped J) e = Inr s" "sd_CustomerID s = c" "sd_OrderID s = i"
    and row: "row_ok J db c i" and net: "transport_err (call_err cget)"
    and h: "HandleShipped J cget cput now e db = (err, db')"
  shows "row_effect J c i (record_shipped s now) db err db'"
proof (cases "c = '''' \<or> i = '''' \<or> \<not> is_ok (order_load J cget c i db)")
  case True
  then obtain x where "err = Some x" "db' = db"
    using h ev by (cases "order_load J cget c i db") (auto simp: HandleShipped_def split: if_splits)
  with row show ?thesis by (auto intro: row_effect_skip)
next
  case False
  then obtain known where ld: "order_load J cget c i db = Inr known" by (auto simp: is_ok_iff)
  have known: "known = stored J db (order_Key c i)" by (rule order_load_ok [OF ld row net])
  show ?thesis
  proof (cases "\<exists>r. known = Some r \<and> o_Status r = StatusShipped")
    case True
    then show ?thesis
      using h ev ld False known row
      by (auto simp: HandleShipped_def record_shipped_def Let_def intro!: row_effect_skip)
  next
    case other: False
    let ?r = "case known of None \<Rightarrow> zero_Order\<lparr>o_OrderID := i, o_CustomerID := c, o_Items := sd_Items s\<rparr> | Some r \<Rightarrow> r"
    have "o_CustomerID ?r = c \<and> o_OrderID ?r = i"
      using stored_ids [OF row] known by (auto simp: zero_Order_def split: option.split)
    moreover have "o_Status ?r \<noteq> StatusShipped"
      using other by (auto simp: zero_Order_def StatusShipped_def split: option.splits)
    moreover from this have "order_save J cput (?r\<lparr>o_Status := StatusShipped, o_ShippedAt := Some (sd_ShippedAt s),
        o_UpdatedAt := now\<rparr>) db = (err, db')"
      using h ev ld False by (auto simp: HandleShipped_def Let_def)
    ultimately show ?thesis
      using known ev by (intro row_effect_save [OF J row]) (auto simp: record_shipped_def Let_def)
  qed
qed


section \<open>Deliveries in any order\<close>

text \<open>A delivery of the broker: the envelope, what the network does to the two database calls of
  the handler, and the clock. The handlers are reached through the router of the service.\<close>

record delivery =
  dl_env :: Envelope
  dl_get :: call
  dl_put :: call
  dl_now :: int

definition deliver_event :: "order_codecs \<Rightarrow> delivery \<Rightarrow> Store \<Rightarrow> go_error option \<times> Store" where
  "deliver_event J d db = router_Handle (Subscriptions J (dl_get d) (dl_put d) (dl_now d)) (dl_env d) db"

fun deliver_events :: "order_codecs \<Rightarrow> delivery list \<Rightarrow> Store \<Rightarrow> (string \<times> go_error option) list \<times> Store" where
  "deliver_events J [] db = ([], db)"
| "deliver_events J (d # ds) db =
     (let (err, db1) = deliver_event J d db; (res, db2) = deliver_events J ds db1
      in ((v_Type (dl_env d), err) # res, db2))"

text \<open>The record once the placement (\<open>P\<close>) and the shipment (\<open>S\<close>) have been applied, whatever
  their order.\<close>

definition order_state :: "OrderPlacedData \<Rightarrow> OrderShippedData \<Rightarrow> bool \<Rightarrow> bool \<Rightarrow> int \<Rightarrow> Order option" where
  "order_state p s P S t =
     (if \<not> P \<and> \<not> S then None
      else Some \<lparr>o_OrderID = pd_OrderID p, o_CustomerID = pd_CustomerID p,
                 o_CartID = (if P then pd_CartID p else ''''),
                 o_Status = (if S then StatusShipped else StatusPlaced),
                 o_Items = (if P then pd_Items p else sd_Items s),
                 o_TotalPrice = (if P then pd_TotalPrice p else Fin 0),
                 o_TotalWeight = (if P then pd_TotalWeight p else Fin 0),
                 o_PlacedAt = (if P then pd_PlacedAt p else zero_time),
                 o_ShippedAt = (if S then Some (sd_ShippedAt s) else None),
                 o_CancelledAt = None, o_CancelReason = '''', o_UpdatedAt = t,
                 o_AwaitingDetails = (\<not> P)\<rparr>)"

definition same_order :: "OrderPlacedData \<Rightarrow> OrderShippedData \<Rightarrow> bool" where
  "same_order p s \<longleftrightarrow> pd_OrderID p = sd_OrderID s \<and> pd_CustomerID p = sd_CustomerID s \<and> pd_PlacedAt p \<noteq> zero_time"

lemma status_distinct [simp]: "StatusPlaced \<noteq> StatusShipped" "StatusShipped \<noteq> StatusPlaced"
  "StatusCancelled \<noteq> StatusPlaced" "StatusPlaced \<noteq> StatusCancelled" "StatusShipped \<noteq> StatusCancelled"
  "StatusCancelled \<noteq> StatusShipped" "StatusShipped \<noteq> ''''" "'''' \<noteq> StatusShipped"
  by (simp_all add: StatusPlaced_def StatusShipped_def StatusCancelled_def)

lemma record_placed_state:
  "same_order p s \<Longrightarrow> \<exists>t'. Some (record_placed p now (order_state p s P S t)) = order_state p s True S t'"
  by (rule exI [of _ "if P then t else now"])
    (auto simp: record_placed_def order_state_def same_order_def HasDetails_def finish_def zero_Order_def Let_def)

lemma record_shipped_state:
  "same_order p s \<Longrightarrow> \<exists>t'. Some (record_shipped s now (order_state p s P S t)) = order_state p s P True t'"
  by (rule exI [of _ "if S then t else now"])
    (auto simp: record_shipped_def order_state_def same_order_def HasDetails_def finish_def zero_Order_def Let_def)

definition event_of :: "order_codecs \<Rightarrow> OrderPlacedData \<Rightarrow> OrderShippedData \<Rightarrow> delivery \<Rightarrow> bool" where
  "event_of J p s d \<longleftrightarrow>
     transport_err (call_err (dl_get d)) \<and>
     (v_Type (dl_env d) = OrderPlaced \<and> Decode (dec_placed J) (dl_env d) = Inr p \<or>
      v_Type (dl_env d) = OrderShipped \<and> Decode (dec_shipped J) (dl_env d) = Inr s)"

lemma event_types [simp]: "OrderPlaced \<noteq> OrderShipped" "OrderShipped \<noteq> OrderPlaced"
  by (simp_all add: OrderPlaced_def OrderShipped_def)

text \<open>One delivery moves the record along \<open>order_state\<close>.\<close>

lemma deliver_event_state:
  assumes J: "codec_ok (enc_record J) (dec_record J)" and so: "same_order p s" and ev: "event_of J p s d"
    and row: "row_ok J db (pd_CustomerID p) (pd_OrderID p)"
    and st: "stored J db (order_Key (pd_CustomerID p) (pd_OrderID p)) = order_state p s P S t"
    and h: "deliver_event J d db = (err, db')"
  shows "\<exists>P' S' t'. row_ok J db' (pd_CustomerID p) (pd_OrderID p) \<and>
           stored J db' (order_Key (pd_CustomerID p) (pd_OrderID p)) = order_state p s P' S' t' \<and>
           (P' \<longleftrightarrow> P \<or> P' \<and> v_Type (dl_env d) = OrderPlaced) \<and> (S' \<longleftrightarrow> S \<or> S' \<and> v_Type (dl_env d) = OrderShipped) \<and>
           (err = None \<longrightarrow> (v_Type (dl_env d) = OrderPlaced \<longrightarrow> P') \<and> (v_Type (dl_env d) = OrderShipped \<longrightarrow> S'))"
proof -
  let ?c = "pd_CustomerID p" and ?i = "pd_OrderID p"
  consider (P) "v_Type (dl_env d) = OrderPlaced" "Decode (dec_placed J) (dl_env d) = Inr p"
    | (S) "v_Type (dl_env d) = OrderShipped" "Decode (dec_shipped J) (dl_env d) = Inr s"
    using ev by (auto simp: event_of_def)
  then show ?thesis
  proof cases
    case P
    then have "HandlePlaced J (dl_get d) (dl_put d) (dl_now d) (dl_env d) db = (err, db')"
      using h by (simp add: deliver_event_def router_Handle_def Subscriptions_def)
    from HandlePlaced_effect [OF J P(2) refl refl row _ this] ev
    have "row_effect J ?c ?i (record_placed p (dl_now d)) db err db'" by (simp add: event_of_def)
    moreover obtain t' where "Some (record_placed p (dl_now d) (order_state p s P S t)) = order_state p s True S t'"
      using record_placed_state [OF so] by blast
    ultimately show ?thesis using st P(1) unfolding row_effect_def by (metis event_types(1))
  next
    case S
    then have "HandleShipped J (dl_get d) (dl_put d) (dl_now d) (dl_env d) db = (err, db')"
      using h by (simp add: deliver_event_def router_Handle_def Subscriptions_def)
    from HandleShipped_effect [OF J S(2) _ _ row _ this] ev so
    have "row_effect J ?c ?i (record_shipped s (dl_now d)) db err db'" by (simp add: event_of_def same_order_def)
    moreover obtain t' where "Some (record_shipped s (dl_now d) (order_state p s P S t)) = order_state p s P True t'"
      using record_shipped_state [OF so] by blast
    ultimately show ?thesis using st S(1) unfolding row_effect_def by (metis event_types(2))
  qed
qed


lemma deliver_events_state:
  assumes J: "codec_ok (enc_record J) (dec_record J)" and so: "same_order p s"
    and "\<forall>d \<in> set ds. event_of J p s d"
    and "row_ok J db (pd_CustomerID p) (pd_OrderID p)"
    and "stored J db (order_Key (pd_CustomerID p) (pd_OrderID p)) = order_state p s P S t"
    and "deliver_events J ds db = (res, db')"
  shows "\<exists>P' S' t'. stored J db' (order_Key (pd_CustomerID p) (pd_OrderID p)) = order_state p s P' S' t' \<and>
           (P \<or> (OrderPlaced, None) \<in> set res \<longrightarrow> P') \<and> (S \<or> (OrderShipped, None) \<in> set res \<longrightarrow> S')"
  using assms(3-)
proof (induction ds arbitrary: db P S t res)
  case Nil
  then show ?case by auto
next
  case (Cons d ds)
  obtain err db1 where h: "deliver_event J d db = (err, db1)" by fastforce
  obtain res' where r: "deliver_events J ds db1 = (res', db')" "res = (v_Type (dl_env d), err) # res'"
    using Cons.prems(4) h by (auto split: prod.splits)
  have "event_of J p s d" using Cons.prems(1) by simp
  from deliver_event_state [OF J so this Cons.prems(2,3) h] obtain P1 S1 t1 where
    s1: "row_ok J db1 (pd_CustomerID p) (pd_OrderID p)"
      "stored J db1 (order_Key (pd_CustomerID p) (pd_OrderID p)) = order_state p s P1 S1 t1"
      "P \<longrightarrow> P1" "S \<longrightarrow> S1"
      "err = None \<longrightarrow> (v_Type (dl_env d) = OrderPlaced \<longrightarrow> P1) \<and> (v_Type (dl_env d) = OrderShipped \<longrightarrow> S1)" by metis
  have "\<forall>d \<in> set ds. event_of J p s d" using Cons.prems(1) by simp
  from Cons.IH [OF this s1(1,2) r(1)] obtain P' S' t' where
    "stored J db' (order_Key (pd_CustomerID p) (pd_OrderID p)) = order_state p s P' S' t'"
      "P1 \<or> (OrderPlaced, None) \<in> set res' \<longrightarrow> P'" "S1 \<or> (OrderShipped, None) \<in> set res' \<longrightarrow> S'" by blast
  with s1(3,4,5) r(2) show ?case by (intro exI [of _ P'] exI [of _ S'] exI [of _ t']) auto
qed

text \<open>
  C12. The order record does not depend on the order of its events. Whatever the sequence in
  which the broker delivers the placement and the shipment of an order, with any number of
  redeliveries and with database calls that fail or succeed unseen, once each event has been
  acknowledged the stored record is the same but for its \<open>updatedAt\<close>: shipped, with the details of
  the placement and the time of the shipment.
\<close>

theorem order_events_converge:
  assumes json: "codec_ok (enc_record J) (dec_record J)"
    and events: "\<forall>d \<in> set ds. event_of J p s d" and same: "same_order p s"
    and fresh: "s_data db (order_Key (pd_CustomerID p) (pd_OrderID p)) = None"
    and run: "deliver_events J ds db = (res, db')"
    and acks: "(OrderPlaced, None) \<in> set res" "(OrderShipped, None) \<in> set res"
  shows "\<exists>t. stored J db' (order_Key (pd_CustomerID p) (pd_OrderID p)) =
           Some \<lparr>o_OrderID = pd_OrderID p, o_CustomerID = pd_CustomerID p, o_CartID = pd_CartID p,
                 o_Status = StatusShipped, o_Items = pd_Items p, o_TotalPrice = pd_TotalPrice p,
                 o_TotalWeight = pd_TotalWeight p, o_PlacedAt = pd_PlacedAt p,
                 o_ShippedAt = Some (sd_ShippedAt s), o_CancelledAt = None, o_CancelReason = '''',
                 o_UpdatedAt = t, o_AwaitingDetails = False\<rparr>"
proof -
  have "stored J db (order_Key (pd_CustomerID p) (pd_OrderID p)) = order_state p s False False 0"
    using fresh by (simp add: stored_def order_state_def)
  from deliver_events_state [OF json same events row_ok_none [OF fresh] this run] acks
  show ?thesis by (auto simp: order_state_def)
qed

definition demo_placed :: OrderPlacedData where
  "demo_placed = \<lparr>pd_OrderID = ''o1'', pd_CartID = ''k1'', pd_CustomerID = ''c1'', pd_Items = [],
     pd_TotalPrice = Fin 5, pd_TotalWeight = Fin 1, pd_ReservationID = ''r1'', pd_PlacedAt = 7\<rparr>"

definition demo_shipped :: OrderShippedData where
  "demo_shipped = \<lparr>sd_OrderID = ''o1'', sd_CustomerID = ''c1'', sd_Items = [], sd_Outcome = ''shipped'', sd_ShippedAt = 9\<rparr>"

definition demo_env :: "string \<Rightarrow> string \<Rightarrow> Envelope" where
  "demo_env typ payload = \<lparr>v_ID = ''e'', v_Type = typ, v_OccurredAt = 0, v_CorrelationID = '''',
     v_OrderID = ''o1'', v_CustomerID = ''c1'', v_Data = payload\<rparr>"

definition demo_delivery :: "string \<Rightarrow> string \<Rightarrow> int \<Rightarrow> delivery" where
  "demo_delivery typ payload now = \<lparr>dl_env = demo_env typ payload, dl_get = ok_call now, dl_put = ok_call now, dl_now = now\<rparr>"

text \<open>Every record of the run, each with its text.\<close>

definition demo_records :: "(Order \<times> string) list" where
  "demo_records =
     [(the (order_state demo_placed demo_shipped False True 1), ''stub''),
      (the (order_state demo_placed demo_shipped True True 2), ''full'')]"

definition demo_J :: order_codecs where
  "demo_J = \<lparr>enc_record = table_enc demo_records, dec_record = table_dec demo_records,
     dec_placed = table_dec [(demo_placed, ''p'')], dec_shipped = table_dec [(demo_shipped, ''s'')],
     enc_cancelled = (\<lambda>_. Some ''x''), enc_envelope = (\<lambda>_. Some ''y'')\<rparr>"

definition demo_run :: "delivery list" where
  "demo_run = [demo_delivery OrderShipped ''s'' 1, demo_delivery OrderPlaced ''p'' 2, demo_delivery OrderShipped ''s'' 3]"

lemmas demo_order_defs = demo_placed_def demo_shipped_def demo_env_def demo_delivery_def demo_records_def demo_J_def demo_run_def


lemma order_save_acks:
  assumes "call_err cl = None" and "enc_record J (finish r) \<noteq> None"
  shows "\<exists>db'. order_save J cl r db = (None, db')"
proof -
  obtain raw where raw: "enc_record J (finish r) = Some raw" using assms(2) by blast
  have "in_int64 0" by (simp add: MinInt_def MaxInt_def)
  from db_PutWithTTL_ok [OF assms(1) this, of "order_Key (o_CustomerID r) (o_OrderID r)" raw db] raw
  show ?thesis by (auto simp: order_save_def finish_def db_Put_def Let_def)
qed

lemma HandlePlaced_acks:
  assumes "Decode (dec_placed J) e = Inr p" "pd_CustomerID p \<noteq> ''''" "pd_OrderID p \<noteq> ''''"
    and row: "row_ok J db (pd_CustomerID p) (pd_OrderID p)" and ok: "call_err cget = None" "call_err cput = None"
    and enc: "enc_record J (record_placed p now (stored J db (order_Key (pd_CustomerID p) (pd_OrderID p)))) \<noteq> None"
  shows "\<exists>db'. HandlePlaced J cget cput now e db = (None, db')"
  using assms(1-3) order_load_row [OF row ok(1)] order_save_acks [OF ok(2)] enc
  by (auto simp: HandlePlaced_def record_placed_def Let_def split: option.splits)

lemma HandleShipped_acks:
  assumes "Decode (dec_shipped J) e = Inr s" "sd_CustomerID s \<noteq> ''''" "sd_OrderID s \<noteq> ''''"
    and row: "row_ok J db (sd_CustomerID s) (sd_OrderID s)" and ok: "call_err cget = None" "call_err cput = None"
    and enc: "enc_record J (record_shipped s now (stored J db (order_Key (sd_CustomerID s) (sd_OrderID s)))) \<noteq> None"
  shows "\<exists>db'. HandleShipped J cget cput now e db = (None, db')"
  using assms(1-3) order_load_row [OF row ok(1)] order_save_acks [OF ok(2)] enc
  by (auto simp: HandleShipped_def record_shipped_def Let_def split: option.splits)


lemma demo_J_ok: "codec_ok (enc_record demo_J) (dec_record demo_J)"
  by (simp add: demo_J_def, rule table_codec_ok) (simp_all add: demo_records_def)

lemma demo_ship_step:
  assumes "row_ok demo_J db ''c1'' ''o1''"
    and "enc_record demo_J (record_shipped demo_shipped t (stored demo_J db (order_Key ''c1'' ''o1''))) \<noteq> None"
  shows "\<exists>db'. deliver_event demo_J (demo_delivery OrderShipped ''s'' t) db = (None, db') \<and> row_ok demo_J db' ''c1'' ''o1'' \<and>
           stored demo_J db' (order_Key ''c1'' ''o1'') = Some (record_shipped demo_shipped t (stored demo_J db (order_Key ''c1'' ''o1'')))"
proof -
  let ?e = "demo_env OrderShipped ''s''" and ?c = "ok_call t"
  have dec: "Decode (dec_shipped demo_J) ?e = Inr demo_shipped"
    by (simp add: Decode_def demo_J_def demo_env_def table_dec_def)
  have ids: "sd_CustomerID demo_shipped = ''c1''" "sd_OrderID demo_shipped = ''o1''" by (simp_all add: demo_shipped_def)
  obtain db' where h: "HandleShipped demo_J ?c ?c t ?e db = (None, db')"
    using HandleShipped_acks [OF dec, of db ?c ?c t] assms ids by (auto simp: ok_call_def)
  have "row_effect demo_J ''c1'' ''o1'' (record_shipped demo_shipped t) db None db'"
    using HandleShipped_effect [OF demo_J_ok dec ids assms(1) _ h] by (simp add: transport_err_def ok_call_def)
  with h show ?thesis
    by (simp add: row_effect_def deliver_event_def router_Handle_def Subscriptions_def demo_delivery_def demo_env_def)
qed

lemma demo_place_step:
  assumes "row_ok demo_J db ''c1'' ''o1''"
    and "enc_record demo_J (record_placed demo_placed t (stored demo_J db (order_Key ''c1'' ''o1''))) \<noteq> None"
  shows "\<exists>db'. deliver_event demo_J (demo_delivery OrderPlaced ''p'' t) db = (None, db') \<and> row_ok demo_J db' ''c1'' ''o1'' \<and>
           stored demo_J db' (order_Key ''c1'' ''o1'') = Some (record_placed demo_placed t (stored demo_J db (order_Key ''c1'' ''o1'')))"
proof -
  let ?e = "demo_env OrderPlaced ''p''" and ?c = "ok_call t"
  have dec: "Decode (dec_placed demo_J) ?e = Inr demo_placed"
    by (simp add: Decode_def demo_J_def demo_env_def table_dec_def)
  have ids: "pd_CustomerID demo_placed = ''c1''" "pd_OrderID demo_placed = ''o1''" by (simp_all add: demo_placed_def)
  obtain db' where h: "HandlePlaced demo_J ?c ?c t ?e db = (None, db')"
    using HandlePlaced_acks [OF dec, of db ?c ?c t] assms ids by (auto simp: ok_call_def)
  have "row_effect demo_J ''c1'' ''o1'' (record_placed demo_placed t) db None db'"
    using HandlePlaced_effect [OF demo_J_ok dec ids assms(1) _ h] by (simp add: transport_err_def ok_call_def)
  with h show ?thesis
    by (simp add: row_effect_def deliver_event_def router_Handle_def Subscriptions_def demo_delivery_def demo_env_def)
qed

lemma demo_transitions:
  "Some (record_shipped demo_shipped 1 None) = order_state demo_placed demo_shipped False True 1"
  "Some (record_placed demo_placed 2 (order_state demo_placed demo_shipped False True 1)) = order_state demo_placed demo_shipped True True 2"
  "Some (record_shipped demo_shipped 3 (order_state demo_placed demo_shipped True True 2)) = order_state demo_placed demo_shipped True True 2"
  by (simp_all add: record_shipped_def record_placed_def order_state_def demo_placed_def demo_shipped_def finish_def
      HasDetails_def zero_Order_def zero_time_def)

lemma demo_encodes:
  "Some r = order_state demo_placed demo_shipped False True 1 \<Longrightarrow> enc_record demo_J r \<noteq> None"
  "Some r = order_state demo_placed demo_shipped True True 2 \<Longrightarrow> enc_record demo_J r \<noteq> None"
  by (drule sym, simp add: demo_J_def demo_records_def table_enc_def)+

lemma demo_run_acks:
  "\<exists>db'. deliver_events demo_J demo_run (NewStore ''n'') =
     ([(OrderShipped, None), (OrderPlaced, None), (OrderShipped, None)], db')"
proof -
  let ?k = "order_Key ''c1'' ''o1''"
  have s0: "row_ok demo_J (NewStore ''n'') ''c1'' ''o1''" "stored demo_J (NewStore ''n'') ?k = None"
    by (simp_all add: row_ok_def stored_def NewStore_def)
  obtain db1 where d1: "deliver_event demo_J (demo_delivery OrderShipped ''s'' 1) (NewStore ''n'') = (None, db1)"
      "row_ok demo_J db1 ''c1'' ''o1''" "stored demo_J db1 ?k = order_state demo_placed demo_shipped False True 1"
    using demo_ship_step [OF s0(1), of 1] s0(2) demo_transitions(1) demo_encodes(1) by auto
  obtain db2 where d2: "deliver_event demo_J (demo_delivery OrderPlaced ''p'' 2) db1 = (None, db2)"
      "row_ok demo_J db2 ''c1'' ''o1''" "stored demo_J db2 ?k = order_state demo_placed demo_shipped True True 2"
    using demo_place_step [OF d1(2), of 2] d1(3) demo_transitions(2) demo_encodes(2) by auto
  obtain db3 where d3: "deliver_event demo_J (demo_delivery OrderShipped ''s'' 3) db2 = (None, db3)"
    using demo_ship_step [OF d2(2), of 3] d2(3) demo_transitions(3) demo_encodes(2) by auto
  have "v_Type (dl_env (demo_delivery ty pl t)) = ty" for ty pl t by (simp add: demo_delivery_def demo_env_def)
  with d1(1) d2(1) d3 show ?thesis by (simp add: demo_run_def)
qed

theorem order_events_converge_witness:
  "\<exists>res db' r. deliver_events demo_J demo_run (NewStore ''n'') = (res, db') \<and>
     stored demo_J db' (order_Key ''c1'' ''o1'') = Some r \<and> o_Status r = StatusShipped \<and> o_TotalPrice r = Fin 5"
proof -
  obtain db' where run: "deliver_events demo_J demo_run (NewStore ''n'') =
     ([(OrderShipped, None), (OrderPlaced, None), (OrderShipped, None)], db')" using demo_run_acks by blast
  have ev: "\<forall>d \<in> set demo_run. event_of demo_J demo_placed demo_shipped d"
    by (simp add: demo_run_def demo_delivery_def demo_env_def event_of_def ok_call_def transport_err_def Decode_def demo_J_def table_dec_def)
  have so: "same_order demo_placed demo_shipped"
    by (simp add: same_order_def demo_placed_def demo_shipped_def zero_time_def)
  have "s_data (NewStore ''n'') (order_Key (pd_CustomerID demo_placed) (pd_OrderID demo_placed)) = None"
    by (simp add: NewStore_def)
  from order_events_converge [OF demo_J_ok ev so this run] run show ?thesis by (auto simp: demo_placed_def)
qed

end
