(* ===== verification/Fulfilment.thy ===== *)
theory Fulfilment
  imports Cart_Checkout Order_Service
begin

text \<open>
  From checkout to the shipped order, across the services: the two messages a successful
  \<open>Checkout\<close> sends, what the warehouse's queue consumer does with one of them, and the record the
  order service builds from the events.
\<close>

section \<open>The messages of a checkout\<close>

definition placed_event :: "cart_Order \<Rightarrow> OrderPlacedData" where
  "placed_event order =
     \<lparr>pd_OrderID = co_OrderID order, pd_CartID = co_CartID order, pd_CustomerID = co_CustomerID order,
      pd_Items = orderItems (co_Items order), pd_TotalPrice = co_TotalPrice order, pd_TotalWeight = co_TotalWeight order,
      pd_ReservationID = co_ReservationID order, pd_PlacedAt = co_PlacedAt order\<rparr>"

definition ship_message :: "cart_Order \<Rightarrow> ShipMessage" where
  "ship_message order =
     \<lparr>sm_OrderID = co_OrderID order, sm_CartID = co_CartID order, sm_CustomerID = co_CustomerID order,
      sm_ReservationID = co_ReservationID order, sm_Items = orderItems (co_Items order),
      sm_TotalWeight = co_TotalWeight order, sm_TotalPrice = co_TotalPrice order, sm_PlacedAt = co_PlacedAt order\<rparr>"

abbreviation messages :: "'d world \<Rightarrow> OrderPlacedData list \<times> ShipMessage list" where
  "messages w \<equiv> (cw_bus w, cw_queue w)"

text \<open>\<open>sent ev order w w'\<close>: from \<open>w\<close> to \<open>w'\<close> the messages for \<open>order\<close> were sent, as far as the broker
  took them, and no others.\<close>

definition sent :: "'d checkout_env \<Rightarrow> cart_Order \<Rightarrow> 'd world \<Rightarrow> 'd world \<Rightarrow> bool" where
  "sent ev order w w' \<longleftrightarrow>
     cw_bus w' = cw_bus w @ (if published (ev_call ev PublishPlaced) then [placed_event order] else []) \<and>
     cw_queue w' = cw_queue w @ (if published (ev_call ev QueueShip) then [ship_message order] else [])"

lemma silent_calls:
  "messages (snd (txn_BeginCall ev w)) = messages w"
  "messages (snd (txn_ResolveCall c f t w)) = messages w"
  "messages (snd (wh_ReserveCall ev rid items w)) = messages w"
  "messages (snd (cards_AuthorizeCall ev cardNumber amount oid w)) = messages w"
  "messages (snd (writeOrder J c order w)) = messages w"
  by (simp_all add: txn_BeginCall_def txn_ResolveCall_def wh_ReserveCall_def cards_AuthorizeCall_def writeOrder_def Let_def
      case_prod_unfold split: option.split sum.split)

lemma sent_cong: "messages w = messages v \<Longrightarrow> sent ev order w w' = sent ev order v w'"
  by (simp add: sent_def)

lemma publish_sent: "sent ev order w (queueShipment (ev_call ev QueueShip) order (announcePlaced (ev_call ev PublishPlaced) order w))"
  by (simp add: sent_def queueShipment_def announcePlaced_def placed_event_def ship_message_def)

lemma commit_order_sent:
  assumes ok: "commit_order J ev key txnID order w = (Inr receipt, w')"
  shows "sent ev order w w'"
proof -
  obtain w1 where w1: "writeOrder J (ev_call ev WriteOrder) order w = (None, w1)"
    using ok by (auto simp: commit_order_def split: prod.splits option.splits)
  let ?w2 = "w1\<lparr>cw_db := snd (cart_Clear J (ev_call ev ClearCart) (co_CustomerID order) (cw_db w1))\<rparr>"
  obtain w3 where w3: "txn_ResolveCall (ev_call ev CommitTxn) txn_Commit txnID ?w2 = (None, w3)"
    using ok w1 by (auto simp: commit_order_def Let_def split: prod.splits option.splits)
  have "messages w3 = messages w"
    using silent_calls(2) [of "ev_call ev CommitTxn" txn_Commit txnID ?w2] silent_calls(5) [of J "ev_call ev WriteOrder" order w] w1 w3
    by simp
  moreover define w4 where "w4 = (if key \<noteq> '''' then w3\<lparr>cw_db := idem_complete J (ev_call ev CompleteClaim) (ev_now ev) key
      (co_CartID order) (order_receipt order) (cw_db w3)\<rparr> else w3)"
  moreover have "w' = queueShipment (ev_call ev QueueShip) order (announcePlaced (ev_call ev PublishPlaced) order w4)"
    using ok w1 w3 by (auto simp: commit_order_def Let_def w4_def order_receipt_def)
  ultimately show ?thesis using publish_sent [of ev order w4] sent_cong [of w4 w ev order w'] by (auto split: if_splits)
qed

lemma run_txn_sent:
  assumes fresh: "inv_receipts (cw_wh w) (co_OrderID order) = None"
    and ok: "run_txn J ev key cardNumber txnID order w = (Inr receipt, w')"
  shows "sent ev (order\<lparr>co_ReservationID := ev_resID ev\<rparr>) w w'"
proof -
  obtain rsv w1 where r: "wh_ReserveCall ev (co_OrderID order) (orderItems (co_Items order)) w = (Inr rsv, w1)"
    using ok by (auto simp: run_txn_def Let_def split: prod.splits sum.splits if_splits)
  obtain iv where "reserve_op (ev_fp ev) (call_now (ev_call ev HoldStock)) (ev_resID ev) (co_OrderID order)
      (orderItems (co_Items order)) (cw_wh w) = (Inr rsv, iv)"
    using r by (auto simp: wh_ReserveCall_def rpc_post_def Let_def split: option.splits prod.splits)
  then have id: "rr_ReservationID rsv = ev_resID ev" by (rule reserve_op_ok [OF _ fresh]) simp
  obtain d code ae w2 where a: "cards_AuthorizeCall ev cardNumber (co_TotalPrice order) (co_OrderID order) w1 = ((d, code, ae), w2)"
    by (metis surj_pair)
  let ?order = "order\<lparr>co_ReservationID := rr_ReservationID rsv, co_AuthorizationCode := code\<rparr>"
  have "commit_order J ev key txnID ?order w2 = (Inr receipt, w')"
    using ok r a by (cases d; auto simp: run_txn_def Let_def split: prod.splits sum.splits)
  from commit_order_sent [OF this] have "sent ev ?order w2 w'" .
  moreover have "messages w2 = messages w"
    using silent_calls(3) [of ev "co_OrderID order" "orderItems (co_Items order)" w]
      silent_calls(4) [of ev cardNumber "co_TotalPrice order" "co_OrderID order" w1] r a by simp
  moreover have "placed_event ?order = placed_event (order\<lparr>co_ReservationID := ev_resID ev\<rparr>)"
      "ship_message ?order = ship_message (order\<lparr>co_ReservationID := ev_resID ev\<rparr>)"
    using id by (simp_all add: placed_event_def ship_message_def)
  ultimately show ?thesis by (simp add: sent_def)
qed


lemma checkout_cart_sent:
  assumes J: "codecs_ok J" and fresh: "inv_receipts (cw_wh w) (ev_orderID ev) = None"
    and ok: "checkout_cart J ev key cardNumber cartID customerID w = (Inr receipt, w')"
  shows "\<exists>ct. ct_Items ct \<noteq> [] \<and> placed J ev (order_of ev cartID customerID ct) receipt w w' \<and>
     sent ev ((order_of ev cartID customerID ct)\<lparr>co_ReservationID := ev_resID ev\<rparr>) w w'"
proof -
  obtain ct where ct: "cart_Get J (ev_call ev GetCart) customerID (cw_db w) = Inr (Some ct)" "ct_Items ct \<noteq> []"
      "placed J ev (order_of ev cartID customerID ct) receipt w w'"
    using checkout_cart_ok [OF assms] by blast
  obtain t w1 where b: "txn_BeginCall ev w = (Inr t, w1)"
    using ok ct(1,2) by (auto simp: checkout_cart_def IsEmpty_def Let_def split: sum.splits prod.splits)
  have run: "run_txn J ev key cardNumber t (order_of ev cartID customerID ct) w1 = (Inr receipt, w')"
    using ok ct b by (simp add: checkout_cart_def IsEmpty_def Let_def order_of_def)
  have "messages w1 = messages w" "cw_wh w1 = cw_wh w"
    using silent_calls(1) [of ev w] txn_BeginCall_other(3) [of ev w] b by simp_all
  then have "sent ev ((order_of ev cartID customerID ct)\<lparr>co_ReservationID := ev_resID ev\<rparr>) w w'"
    using run_txn_sent [OF _ run] fresh sent_cong [of w1 w] by (simp add: order_of_def)
  with ct show ?thesis by blast
qed

lemma Checkout_runs_cart:
  assumes ok: "Checkout J ev cartID req w = (Inr receipt, w')" and charged: "cw_charges w' \<noteq> cw_charges w"
  obtains customerID db where "CustomerFor cartID = Inr customerID"
    "checkout_cart J ev (request_key req) (cr_CreditCard req) cartID customerID (w\<lparr>cw_db := db\<rparr>) = (Inr receipt, w')"
proof (cases "request_key req = ''''")
  case True
  with ok that [of _ "cw_db w"] show ?thesis by (auto simp: Checkout_def split: if_splits sum.splits)
next
  case False
  obtain cl db where ic: "idem_claim J (ev_call ev LoadClaim) (ev_call ev SaveClaim) (ev_now ev) (request_key req) cartID (cw_db w) = (cl, db)"
    by force
  show ?thesis
    using ok charged False ic that [of _ db] by (auto simp: Checkout_def Let_def split: if_splits sum.splits option.splits)
qed

text \<open>A checkout that charged the card sent the messages of the order it stored.\<close>

lemma Checkout_sent:
  assumes J: "codecs_ok J" and fresh: "inv_receipts (cw_wh w) (ev_orderID ev) = None"
    and ok: "Checkout J ev cartID req w = (Inr receipt, w')" and charged: "cw_charges w' \<noteq> cw_charges w"
  obtains ct customerID where "CustomerFor cartID = Inr customerID" "ct_Items ct \<noteq> []"
    "placed J ev (order_of ev cartID customerID ct) receipt w w'"
    "sent ev ((order_of ev cartID customerID ct)\<lparr>co_ReservationID := ev_resID ev\<rparr>) w w'"
proof -
  obtain customerID db where cust: "CustomerFor cartID = Inr customerID"
    and run: "checkout_cart J ev (request_key req) (cr_CreditCard req) cartID customerID (w\<lparr>cw_db := db\<rparr>) = (Inr receipt, w')"
    using Checkout_runs_cart [OF ok charged] .
  have "inv_receipts (cw_wh (w\<lparr>cw_db := db\<rparr>)) (ev_orderID ev) = None" using fresh by simp
  from checkout_cart_sent [OF J this run] obtain ct where "ct_Items ct \<noteq> []"
      "placed J ev (order_of ev cartID customerID ct) receipt w w'"
      "sent ev ((order_of ev cartID customerID ct)\<lparr>co_ReservationID := ev_resID ev\<rparr>) w w'"
    by (auto simp: placed_def sent_def)
  with cust that show thesis by blast
qed


section \<open>Shipping and recording it\<close>

lemma ship_held:
  assumes r: "inv_reservations iv (sm_ReservationID msg) = Some r" "r_State r = Reserved" "now < r_ExpiresAt r"
    and items: "normalize (sm_Items msg) = Inr (r_Items r)" "sm_Items msg \<noteq> []" and cust: "sm_CustomerID msg \<noteq> ''''"
  shows "\<exists>iv'. shipper_Handle True now (Inr msg) iv =
       (None, Some \<lparr>sd_OrderID = sm_OrderID msg, sd_CustomerID = sm_CustomerID msg, sd_Items = sm_Items msg,
                   sd_Outcome = ''completed'', sd_ShippedAt = now\<rparr>, iv') \<and>
     inv_reservations iv' (sm_ReservationID msg) = Some (r\<lparr>r_State := Committed\<rparr>)"
  using assms by (simp add: shipper_Handle_def Ship_def ship_mark_def announce_def set_state_def)

lemma CustomerFor_nonempty: "CustomerFor cartID = Inr customerID \<Longrightarrow> customerID \<noteq> ''''"
  by (auto simp: CustomerFor_def Let_def split: if_splits)

lemma sent_messages:
  assumes "sent ev order w w'" and "cw_bus w' = cw_bus w @ [p]" and "cw_queue w' = cw_queue w @ [msg]"
  shows "p = placed_event order" and "msg = ship_message order"
  using assms by (auto simp: sent_def split: if_splits)

text \<open>
  C4. An order that was paid for is shipped and recorded as paid. When a checkout charges the card
  and the broker takes its two messages, then the warehouse, given the message before the
  reservation expires and however the rest of the inventory has changed meanwhile, ships the
  reserved items and announces it; and once the order service has acknowledged both events, in any
  order and with any redeliveries, the customer's order is recorded as shipped with the items and
  the total of the receipt, which is what the card was charged.
\<close>

theorem paid_order_is_fulfilled:
  assumes J: "codecs_ok J" and fresh: "inv_receipts (cw_wh w) (ev_orderID ev) = None"
    and ok: "Checkout J ev cartID req w = (Inr receipt, w')" "cw_charges w' \<noteq> cw_charges w" and clock: "ev_now ev \<noteq> zero_time"
    and msgs: "cw_bus w' = cw_bus w @ [p]" "cw_queue w' = cw_queue w @ [msg]"
    and held: "inv_reservations iv (sm_ReservationID msg) = inv_reservations (cw_wh w') (sm_ReservationID msg)"
    and time: "\<forall>r. inv_reservations iv (sm_ReservationID msg) = Some r \<longrightarrow> now < r_ExpiresAt r"
    and ship: "shipper_Handle True now (Inr msg) iv = (err, ann, iv')"
    and json: "codec_ok (enc_record oj) (dec_record oj)" and events: "\<forall>d \<in> set ds. event_of oj p (the ann) d"
    and row: "s_data db (order_Key (pd_CustomerID p) (pd_OrderID p)) = None" and run: "deliver_events oj ds db = (res, db')"
    and acks: "(OrderPlaced, None) \<in> set res" "(OrderShipped, None) \<in> set res"
  shows "err = None \<and> ann \<noteq> None \<and>
    (\<exists>r. inv_reservations iv' (sm_ReservationID msg) = Some r \<and> r_State r = Committed \<and> normalize (sm_Items msg) = Inr (r_Items r)) \<and>
    (\<exists>rec. stored oj db' (order_Key (o_CustomerID rec) (rp_OrderID receipt)) = Some rec \<and> CustomerFor cartID = Inr (o_CustomerID rec) \<and>
       o_Status rec = StatusShipped \<and> o_Items rec = sm_Items msg \<and> o_TotalPrice rec = rp_TotalPrice receipt \<and>
       cw_charges w' = cw_charges w @ [(o_OrderID rec, o_TotalPrice rec)])"
proof -
  obtain ct cust where cust: "CustomerFor cartID = Inr cust" and ct: "ct_Items ct \<noteq> []"
    and pl: "placed J ev (order_of ev cartID cust ct) receipt w w'"
    and st: "sent ev ((order_of ev cartID cust ct)\<lparr>co_ReservationID := ev_resID ev\<rparr>) w w'"
    by (rule Checkout_sent [OF J fresh ok])
  note sent_messages [OF st msgs]
  then have fields: "sm_ReservationID msg = ev_resID ev" "sm_CustomerID msg = cust" "sm_OrderID msg = ev_orderID ev"
      "sm_Items msg = orderItems (ct_Items ct)" "pd_CustomerID p = cust" "pd_OrderID p = ev_orderID ev"
      "pd_Items p = orderItems (ct_Items ct)" "pd_TotalPrice p = TotalPrice ct" "pd_PlacedAt p = ev_now ev"
      "rp_OrderID receipt = ev_orderID ev" "rp_TotalPrice receipt = TotalPrice ct"
    using pl by (simp_all add: placed_event_def ship_message_def order_of_def placed_def order_receipt_def)
  obtain r where r: "inv_reservations iv (sm_ReservationID msg) = Some r" "r_State r = Reserved"
      "normalize (orderItems (ct_Items ct)) = Inr (r_Items r)"
    using pl held by (auto simp: placed_def order_of_def fields)
  have items: "sm_Items msg \<noteq> []" using ct by (simp add: fields orderItems_def)
  obtain s where ann: "err = None" "ann = Some s" "inv_reservations iv' (sm_ReservationID msg) = Some (r\<lparr>r_State := Committed\<rparr>)"
      and so: "sd_OrderID s = ev_orderID ev" "sd_CustomerID s = cust"
    using ship_held [OF r(1,2) time [rule_format, OF r(1)]] r(3) items CustomerFor_nonempty [OF cust] ship by (auto simp: fields)
  have so: "same_order p s" using so clock by (simp add: same_order_def fields)
  have ev: "\<forall>d \<in> set ds. event_of oj p s d" using events ann(2) by simp
  have none: "stored oj db (order_Key (pd_CustomerID p) (pd_OrderID p)) = order_state p s False False 0"
    using row by (simp add: stored_def order_state_def)
  obtain t where "stored oj db' (order_Key (pd_CustomerID p) (pd_OrderID p)) = order_state p s True True t"
    using deliver_events_state [OF json so ev row_ok_none [OF row] none run] acks by auto
  then have rec: "\<exists>rec. stored oj db' (order_Key cust (ev_orderID ev)) = Some rec \<and> o_CustomerID rec = cust \<and> o_Status rec = StatusShipped \<and>
      o_Items rec = orderItems (ct_Items ct) \<and> o_TotalPrice rec = TotalPrice ct \<and> o_OrderID rec = ev_orderID ev"
    by (simp add: order_state_def fields)
  have "cw_charges w' = cw_charges w @ [(ev_orderID ev, TotalPrice ct)]" using pl by (simp add: placed_def order_of_def)
  with rec ann r cust show ?thesis by (auto simp: fields)
qed

section \<open>A run from cart to shipped order\<close>

text \<open>The order service of a run with one order: the two records it stores and the two payloads
  it reads have encodings of their own.\<close>

definition run_records :: "OrderPlacedData \<Rightarrow> OrderShippedData \<Rightarrow> (Order \<times> string) list" where
  "run_records p s =
     (let r1 = record_placed p 1 None in [(r1, ''1''), (record_shipped s 2 (Some r1), ''2'')])"

definition run_J :: "OrderPlacedData \<Rightarrow> OrderShippedData \<Rightarrow> order_codecs" where
  "run_J p s = \<lparr>enc_record = table_enc (run_records p s), dec_record = table_dec (run_records p s),
     dec_placed = table_dec [(p, ''p'')], dec_shipped = table_dec [(s, ''s'')], enc_cancelled = \<lambda>x. None, enc_envelope = \<lambda>x. None\<rparr>"

definition run_deliveries :: "delivery list" where
  "run_deliveries = [demo_delivery OrderPlaced ''p'' 1, demo_delivery OrderShipped ''s'' 2]"


lemma run_J_ok: "codec_ok (enc_record (run_J p s)) (dec_record (run_J p s))"
  by (simp add: run_J_def, rule table_codec_ok) (simp_all add: run_records_def Let_def)

lemma run_decodes:
  "Decode (dec_placed (run_J p s)) (demo_env OrderPlaced ''p'') = Inr p"
  "Decode (dec_shipped (run_J p s)) (demo_env OrderShipped ''s'') = Inr s"
  by (simp_all add: Decode_def run_J_def demo_env_def table_dec_def)

lemma run_acks:
  assumes ids: "pd_CustomerID p \<noteq> ''''" "pd_OrderID p \<noteq> ''''" and same: "sd_CustomerID s = pd_CustomerID p" "sd_OrderID s = pd_OrderID p"
  shows "\<exists>db'. deliver_events (run_J p s) run_deliveries (NewStore ''n'') = ([(OrderPlaced, None), (OrderShipped, None)], db')"
proof -
  let ?J = "run_J p s" and ?c = "\<lambda>t. ok_call t" and ?k = "order_Key (pd_CustomerID p) (pd_OrderID p)"
  have row0: "row_ok ?J (NewStore ''n'') (pd_CustomerID p) (pd_OrderID p)" and st0: "stored ?J (NewStore ''n'') ?k = None"
    by (simp_all add: row_ok_none NewStore_def stored_def)
  have "enc_record ?J (record_placed p 1 None) \<noteq> None" by (simp add: run_J_def run_records_def table_enc_def Let_def)
  then obtain db1 where h1: "HandlePlaced ?J (?c 1) (?c 1) 1 (demo_env OrderPlaced ''p'') (NewStore ''n'') = (None, db1)"
    using HandlePlaced_acks [OF run_decodes(1) ids row0, of "?c 1" "?c 1" 1] st0 by (auto simp: ok_call_def)
  have eff: "row_effect ?J (pd_CustomerID p) (pd_OrderID p) (record_placed p 1) (NewStore ''n'') None db1"
    using HandlePlaced_effect [OF run_J_ok run_decodes(1) refl refl row0 _ h1] by (simp add: transport_err_def ok_call_def)
  then have row1: "row_ok ?J db1 (sd_CustomerID s) (sd_OrderID s)" and st1: "stored ?J db1 ?k = Some (record_placed p 1 None)"
    using st0 same by (simp_all add: row_effect_def)
  have "enc_record ?J (record_shipped s 2 (Some (record_placed p 1 None))) \<noteq> None"
    by (simp add: run_J_def run_records_def table_enc_def Let_def)
  then obtain db2 where "HandleShipped ?J (?c 2) (?c 2) 2 (demo_env OrderShipped ''s'') db1 = (None, db2)"
    using HandleShipped_acks [OF run_decodes(2) _ _ row1, of "?c 2" "?c 2" 2] ids same st1 by (auto simp: ok_call_def)
  with h1 show ?thesis
    by (simp add: run_deliveries_def demo_delivery_def deliver_event_def router_Handle_def Subscriptions_def)
      (simp add: demo_env_def)
qed

text \<open>The checkout of \<open>shop_world\<close>, the message it queues handled in time, both events delivered.\<close>

theorem paid_order_is_fulfilled_witness:
  "\<exists>w' p msg now s iv' res db' rec.
     Checkout shop_codecs shop_env ''cart-alice'' shop_req shop_world = (Inr (order_receipt shop_order), w') \<and>
     cw_queue w' = [msg] \<and> shipper_Handle True now (Inr msg) (cw_wh w') = (None, Some s, iv') \<and>
     deliver_events (run_J p s) run_deliveries (NewStore ''n'') = (res, db') \<and>
     stored (run_J p s) db' (order_Key ''alice'' ''ord-1'') = Some rec \<and> o_Status rec = StatusShipped"
proof -
  obtain w' where w': "Checkout shop_codecs shop_env ''cart-alice'' shop_req shop_world = (Inr (order_receipt shop_order), w')"
      "cw_charges w' = [(''ord-1'', TotalPrice shop_cart)]" using shop_run by blast
  then have charged: "cw_charges w' \<noteq> cw_charges shop_world" by (simp add: shop_world_def)
  obtain ct where ct: "ct_Items ct \<noteq> []" "placed shop_codecs shop_env (order_of shop_env ''cart-alice'' ''alice'' ct) (order_receipt shop_order) shop_world w'"
      and st: "sent shop_env ((order_of shop_env ''cart-alice'' ''alice'' ct)\<lparr>co_ReservationID := ev_resID shop_env\<rparr>) shop_world w'"
    using Checkout_sent [OF shop_codecs_ok shop_fresh w'(1) charged] shop_key(3) by auto
  define order where "order = (order_of shop_env ''cart-alice'' ''alice'' ct)\<lparr>co_ReservationID := ev_resID shop_env\<rparr>"
  define p where "p = placed_event order"
  define msg where "msg = ship_message order"
  have ids: "pd_CustomerID p = ''alice''" "pd_OrderID p = ''ord-1''" "sm_CustomerID msg = ''alice''" "sm_OrderID msg = ''ord-1''"
      "sm_ReservationID msg = ''res-1''" "sm_Items msg = orderItems (ct_Items ct)"
    by (simp_all add: p_def msg_def order_def placed_event_def ship_message_def order_of_def shop_env_def)
  have msgs: "cw_bus w' = cw_bus shop_world @ [p]" "cw_queue w' = cw_queue shop_world @ [msg]"
    using st by (simp_all add: sent_def p_def msg_def order_def shop_env_def ok_call_def published_def)
  obtain r where r: "inv_reservations (cw_wh w') (sm_ReservationID msg) = Some r" "r_State r = Reserved"
      "normalize (sm_Items msg) = Inr (r_Items r)"
    using ct(2) by (auto simp: placed_def order_of_def ids shop_env_def)
  have "sm_Items msg \<noteq> []" using ct(1) by (simp add: ids orderItems_def)
  then obtain s iv' where ship: "shipper_Handle True (r_ExpiresAt r - 1) (Inr msg) (cw_wh w') = (None, Some s, iv')"
      and s: "sd_CustomerID s = ''alice''" "sd_OrderID s = ''ord-1''"
    using ship_held [OF r(1,2) _ r(3), of "r_ExpiresAt r - 1"] by (auto simp: ids)
  have time: "\<forall>ra. inv_reservations (cw_wh w') (sm_ReservationID msg) = Some ra \<longrightarrow> r_ExpiresAt r - 1 < r_ExpiresAt ra" using r(1) by simp
  obtain db' where run: "deliver_events (run_J p s) run_deliveries (NewStore ''n'') = ([(OrderPlaced, None), (OrderShipped, None)], db')"
    using run_acks [of p s] ids s by auto
  have ev: "\<forall>d \<in> set run_deliveries. event_of (run_J p s) p (the (Some s)) d"
    using run_decodes [of p s] by (simp add: run_deliveries_def demo_delivery_def event_of_def transport_err_def ok_call_def) (simp add: demo_env_def)
  have none: "s_data (NewStore ''n'') (order_Key (pd_CustomerID p) (pd_OrderID p)) = None" by (simp add: NewStore_def)
  have "\<exists>rec. stored (run_J p s) db' (order_Key (o_CustomerID rec) ''ord-1'') = Some rec \<and> ''alice'' = o_CustomerID rec \<and> o_Status rec = StatusShipped"
    using paid_order_is_fulfilled [OF shop_codecs_ok shop_fresh w'(1) charged _ msgs refl time ship run_J_ok ev none run] shop_key(3)
    by (auto simp: order_receipt_def shop_order_def shop_env_def zero_time_def)
  then obtain rec where "stored (run_J p s) db' (order_Key ''alice'' ''ord-1'') = Some rec" "o_Status rec = StatusShipped" by metis
  moreover have "cw_queue w' = [msg]" using msgs(2) by (simp add: shop_world_def)
  ultimately show ?thesis using w'(1) ship run by blast
qed

end
