(* ===== verification/Order_Customer.thy ===== *)
theory Order_Customer
  imports Order_Service
begin

text \<open>
  What a customer sees of the order service: cancelling an order and listing the history. The
  operations are those of \<open>Order_Service\<close>; here are the rules they follow and two places where
  the records end up other than the comments of \<^verbatim>\<open>src/internal/order/order.go\<close> say.
\<close>

section \<open>Cancelling\<close>

lemma order_Get_ok:
  assumes "order_Get J c customerID orderID db = Inr r" and "row_ok J db customerID orderID"
    and "transport_err (call_err c)"
  shows "stored J db (order_Key customerID orderID) = Some r"
proof -
  have "order_load J c customerID orderID db = Inr (Some r)"
    using assms(1) by (auto simp: order_Get_def split: if_splits sum.splits option.splits)
  from order_load_ok [OF this assms(2,3)] show ?thesis by simp
qed

text \<open>What a cancellation makes of a record: everything but these fields is kept.\<close>

definition cancelled_record :: "int \<Rightarrow> string \<Rightarrow> Order \<Rightarrow> Order" where
  "cancelled_record now reason r =
     r\<lparr>o_Status := StatusCancelled, o_CancelledAt := Some now, o_CancelReason := TrimSpace reason, o_UpdatedAt := now,
       o_AwaitingDetails := \<not> HasDetails r\<rparr>"

lemma finish_cancelled:
  "finish (r\<lparr>o_Status := StatusCancelled, o_CancelledAt := Some now, o_CancelReason := TrimSpace reason, o_UpdatedAt := now\<rparr>) =
   cancelled_record now reason r"
  by (simp add: finish_def cancelled_record_def HasDetails_def)

text \<open>
  C26. An order can be cancelled exactly as long as it has not shipped. A cancellation succeeds only for
  an order that was placed, and then stores it with the status, the time and the reason of the
  cancellation and all other details as they were, or for one that was cancelled before, which is
  returned as it is; any other order is refused and neither the database nor the bus changes, whatever the
  network does to the database calls. And when the calls are answered, neither id is empty and the new record
  has an encoding, it does succeed for every order that was placed or cancelled.
\<close>

theorem cancel_only_before_shipping:
  assumes json: "codec_ok (enc_record J) (dec_record J)"
    and row: "row_ok J db customerID orderID" and net: "transport_err (call_err cget)"
    and run: "order_Cancel J cget cput now have_pub pub evid corr customerID orderID reason (db, bus) = (out, db', bus')"
  shows "(\<forall>r. out = Inr r \<longrightarrow>
            (\<exists>r0. stored J db (order_Key customerID orderID) = Some r0 \<and>
                  (o_Status r0 = StatusPlaced \<and> r = cancelled_record now reason r0 \<or>
                   o_Status r0 = StatusCancelled \<and> r = r0 \<and> bus' = bus)) \<and>
            stored J db' (order_Key customerID orderID) = Some r) \<and>
         (\<forall>r0. stored J db (order_Key customerID orderID) = Some r0 \<and> o_Status r0 \<notin> {StatusPlaced, StatusCancelled} \<longrightarrow>
            \<not> is_ok out \<and> db' = db \<and> bus' = bus) \<and>
         (\<forall>r0. stored J db (order_Key customerID orderID) = Some r0 \<and> o_Status r0 \<in> {StatusPlaced, StatusCancelled} \<and>
              customerID \<noteq> '''' \<and> orderID \<noteq> '''' \<and> call_err cget = None \<and> call_err cput = None \<and>
              enc_record J (cancelled_record now reason r0) \<noteq> None \<longrightarrow>
            is_ok out) \<and>
         (\<forall>k. k \<noteq> order_Key customerID orderID \<longrightarrow> s_data db' k = s_data db k)"
proof (cases "order_Get J cget customerID orderID db")
  case (Inl err)
  then have "out = Inl err" "db' = db" "bus' = bus" using run by (simp_all add: order_Cancel_def)
  moreover have "call_err cget \<noteq> None" if "stored J db (order_Key customerID orderID) = Some r0" "customerID \<noteq> ''''" "orderID \<noteq> ''''" for r0
    using Inl that order_load_row [OF row, of cget] by (cases "call_err cget") (auto simp: order_Get_def)
  ultimately show ?thesis by auto
next
  case (Inr r0)
  note st = order_Get_ok [OF Inr row net]
  show ?thesis
  proof (cases "o_Status r0 = StatusPlaced")
    case False
    with run st show ?thesis by (auto simp: order_Cancel_def Cancellable_def Inr is_ok_iff split: if_splits)
  next
    case True
    let ?r = "r0\<lparr>o_Status := StatusCancelled, o_CancelledAt := Some now, o_CancelReason := TrimSpace reason, o_UpdatedAt := now\<rparr>"
    obtain err where save: "order_save J cput ?r db = (err, db')"
      and out: "(err = None \<and> out = Inr (cancelled_record now reason r0)) \<or> (\<exists>x. err = Some x \<and> out = Inl x)"
      unfolding finish_cancelled [symmetric] using run Inr True
      by (auto simp: order_Cancel_def Cancellable_def finish_def Let_def split: prod.splits option.splits)
    have ids: "o_CustomerID ?r = customerID" "o_OrderID ?r = orderID"
      using stored_ids [OF row st] by simp_all
    note eff = order_save_effect [OF json row ids save]
    have "err = None" if "call_err cput = None" "enc_record J (cancelled_record now reason r0) \<noteq> None"
      using order_save_acks [OF that(1), of J ?r db] that(2) save by (auto simp: finish_cancelled)
    then show ?thesis using out st True eff(3,4) by (auto simp: finish_cancelled)
  qed
qed

definition cancel_records :: "(Order \<times> string) list" where
  "cancel_records =
     (let placed = the (order_state demo_placed demo_shipped True False 2);
          cancelled = placed\<lparr>o_Status := StatusCancelled, o_CancelledAt := Some 3, o_CancelReason := '''', o_UpdatedAt := 3\<rparr>
      in [(placed, ''placed''), (cancelled, ''cancelled''),
          (cancelled\<lparr>o_Status := StatusShipped, o_ShippedAt := Some 9, o_UpdatedAt := 4\<rparr>, ''late'')])"

definition cancel_J :: order_codecs where
  "cancel_J = demo_J\<lparr>enc_record := table_enc cancel_records, dec_record := table_dec cancel_records\<rparr>"

definition db_with :: "string \<Rightarrow> Store" where
  "db_with raw = snd (CoordinatorWrite 0 (order_Key ''c1'' ''o1'') raw 0 (NewStore ''n''))"

lemma cancel_J_ok: "codec_ok (enc_record cancel_J) (dec_record cancel_J)"
  by (simp add: cancel_J_def, rule table_codec_ok) (simp_all add: cancel_records_def Let_def)

lemma db_with_stored:
  assumes "(r, raw) \<in> set cancel_records"
  shows "stored cancel_J (db_with raw) (order_Key ''c1'' ''o1'') = Some r" and "row_ok cancel_J (db_with raw) ''c1'' ''o1''"
proof -
  have "dec_record cancel_J raw = Some r" and "o_CustomerID r = ''c1''" "o_OrderID r = ''o1''"
    using assms by (auto simp: cancel_J_def cancel_records_def Let_def table_dec_def order_state_def demo_placed_def)
  then show "stored cancel_J (db_with raw) (order_Key ''c1'' ''o1'') = Some r" "row_ok cancel_J (db_with raw) ''c1'' ''o1''"
    by (auto simp: stored_def row_ok_def db_with_def)
qed

theorem cancel_only_before_shipping_witness:
  "\<exists>r db' bus'. order_Cancel cancel_J (ok_call 3) (ok_call 3) 3 True None ''e'' '''' ''c1'' ''o1'' ''''
       (db_with ''placed'', []) = (Inr r, db', bus') \<and>
     o_Status r = StatusCancelled \<and> stored cancel_J db' (order_Key ''c1'' ''o1'') = Some r"
proof -
  let ?a = "the (order_state demo_placed demo_shipped True False 2)"
  let ?r = "?a\<lparr>o_Status := StatusCancelled, o_CancelledAt := Some 3, o_CancelReason := '''', o_UpdatedAt := 3\<rparr>"
  have mem: "(?a, ''placed'') \<in> set cancel_records" by (simp add: cancel_records_def Let_def)
  note st = db_with_stored [OF mem]
  have fin: "finish ?r = ?r"
    by (simp add: finish_def HasDetails_def order_state_def demo_placed_def zero_time_def)
  have get: "order_Get cancel_J (ok_call 3) ''c1'' ''o1'' (db_with ''placed'') = Inr ?a"
    using order_load_row [OF st(2), of "ok_call 3"] st(1) by (simp add: order_Get_def ok_call_def)
  have "enc_record cancel_J (finish ?r) \<noteq> None"
    unfolding fin by (simp add: cancel_J_def cancel_records_def Let_def table_enc_def order_state_def)
  then obtain db' where save: "order_save cancel_J (ok_call 3) ?r (db_with ''placed'') = (None, db')"
    using order_save_acks [of "ok_call 3" cancel_J ?r "db_with ''placed''"] by (auto simp: ok_call_def)
  have pl: "o_Status ?a = StatusPlaced" by (simp add: order_state_def)
  obtain bus' where run: "order_Cancel cancel_J (ok_call 3) (ok_call 3) 3 True None ''e'' '''' ''c1'' ''o1'' ''''
       (db_with ''placed'', []) = (Inr (finish ?r), db', bus')"
    using get save pl by (auto simp: order_Cancel_def Cancellable_def finish_def Let_def)
  from cancel_only_before_shipping [OF cancel_J_ok st(2) _ this] run show ?thesis
    by (auto simp: ok_call_def transport_err_def cancelled_record_def)
qed

text \<open>
  C39. A shipment that arrives after the cancellation overwrites it: the record becomes shipped
  although the customer was told it was cancelled, and it keeps the time and the reason of the
  cancellation.
\<close>

theorem cancelled_order_ships:
  assumes json: "codec_ok (enc_record J) (dec_record J)"
    and ev: "Decode (dec_shipped J) e = Inr s" "sd_CustomerID s = customerID" "sd_OrderID s = orderID"
    and row: "row_ok J db customerID orderID" and net: "transport_err (call_err cget)"
    and r: "stored J db (order_Key customerID orderID) = Some r" "o_Status r = StatusCancelled"
    and h: "HandleShipped J cget cput now e db = (None, db')"
  shows "\<exists>r'. stored J db' (order_Key customerID orderID) = Some r' \<and> o_Status r' = StatusShipped \<and>
           o_CancelledAt r' = o_CancelledAt r \<and> o_CancelReason r' = o_CancelReason r"
  using HandleShipped_effect [OF json ev row net h] r
  by (auto simp: row_effect_def record_shipped_def finish_def)

theorem cancelled_order_ships_witness:
  "\<exists>db' r'. HandleShipped cancel_J (ok_call 4) (ok_call 4) 4 (demo_env OrderShipped ''s'') (db_with ''cancelled'') = (None, db') \<and>
     stored cancel_J db' (order_Key ''c1'' ''o1'') = Some r' \<and> o_Status r' = StatusShipped \<and> o_CancelledAt r' = Some 3"
proof -
  let ?p = "the (order_state demo_placed demo_shipped True False 2)"
  let ?r = "?p\<lparr>o_Status := StatusCancelled, o_CancelledAt := Some 3, o_CancelReason := '''', o_UpdatedAt := 3\<rparr>"
  have mem: "(?r, ''cancelled'') \<in> set cancel_records" by (simp add: cancel_records_def Let_def)
  note st = db_with_stored [OF mem]
  have dec: "Decode (dec_shipped cancel_J) (demo_env OrderShipped ''s'') = Inr demo_shipped"
    by (simp add: Decode_def cancel_J_def demo_J_def demo_env_def table_dec_def)
  have ids: "sd_CustomerID demo_shipped = ''c1''" "sd_OrderID demo_shipped = ''o1''" by (simp_all add: demo_shipped_def)
  have "record_shipped demo_shipped 4 (Some ?r) = ?r\<lparr>o_Status := StatusShipped, o_ShippedAt := Some 9, o_UpdatedAt := 4\<rparr>"
    by (simp add: record_shipped_def finish_def HasDetails_def order_state_def demo_placed_def demo_shipped_def zero_time_def)
  then have "enc_record cancel_J (record_shipped demo_shipped 4 (Some ?r)) \<noteq> None"
    by (simp add: cancel_J_def cancel_records_def Let_def table_enc_def order_state_def)
  then obtain db' where h: "HandleShipped cancel_J (ok_call 4) (ok_call 4) 4 (demo_env OrderShipped ''s'') (db_with ''cancelled'') = (None, db')"
    using HandleShipped_acks [OF dec, of "db_with ''cancelled''" "ok_call 4" "ok_call 4" 4] ids st by (auto simp: ok_call_def)
  have "o_Status ?r = StatusCancelled" by simp
  from cancelled_order_ships [OF cancel_J_ok dec ids st(2) _ st(1) this h] h show ?thesis
    by (auto simp: ok_call_def transport_err_def)
qed


section \<open>History\<close>

text \<open>Every record is filed under the ids it carries, and a customer id has no colon.\<close>

definition rows_ok :: "order_codecs \<Rightarrow> Store \<Rightarrow> bool" where
  "rows_ok J db \<longleftrightarrow> store_wf db \<and>
     (\<forall>k e. s_data db k = Some e \<longrightarrow>
        (\<exists>r. dec_record J (e_Value e) = Some r \<and> k = order_Key (o_CustomerID r) (o_OrderID r) \<and>
             CHR '':'' \<notin> set (o_CustomerID r)))"


lemma order_Key_inj: "order_Key c i = order_Key c j \<longleftrightarrow> i = j"
  by (simp add: order_Key_def)


lemma colon_split:
  assumes eq: "c @ CHR '':'' # r = c' @ CHR '':'' # r'" and "CHR '':'' \<notin> set c" "CHR '':'' \<notin> set c'"
  shows "c = c' \<and> r = r'"
proof -
  have tw: "takeWhile (\<lambda>x. x \<noteq> CHR '':'') (d @ CHR '':'' # s) = d" if "CHR '':'' \<notin> set d" for d s :: string
    using that by (subst takeWhile_append2) auto
  have "c = c'" using tw [OF assms(2), of r] tw [OF assms(3), of r'] eq by simp
  with eq show ?thesis by simp
qed

lemma customer_prefix_iff:
  assumes "CHR '':'' \<notin> set c" "CHR '':'' \<notin> set c'"
  shows "HasPrefix (order_Key c' i) (CustomerPrefix c) \<longleftrightarrow> c = c'"
proof
  assume "HasPrefix (order_Key c' i) (CustomerPrefix c)"
  then obtain zs where "c' @ CHR '':'' # i = c @ CHR '':'' # zs"
    by (auto simp: HasPrefix_def order_Key_def CustomerPrefix_def prefix_def)
  with colon_split [OF this assms(2,1)] show "c = c'" by simp
qed (auto simp: HasPrefix_def order_Key_def CustomerPrefix_def)


lemma order_List_entries:
  assumes "order_List J c ord customerID limit db = Inr rs" and "0 < limit" "limit \<le> 200"
  shows "rs = rev (List.map_filter (\<lambda>e. dec_record J (e_Value e))
               (store_Scan (call_now c) ord (CustomerPrefix customerID) limit db))"
proof -
  have "CustomerPrefix customerID \<noteq> ''''" by (simp add: CustomerPrefix_def)
  with assms show ?thesis
    by (auto simp: order_List_def db_Scan_def rpc_get_def handleInternalScan_def LocalScan_def scanLimit_itoa
        split: if_splits option.splits)
qed

text \<open>An entry of the scan is the customer's, and carries the key of its record.\<close>

lemma scanned_record:
  assumes "rows_ok J db" and "CHR '':'' \<notin> set customerID" and "e \<in> scan_set t (CustomerPrefix customerID) db"
  shows "\<exists>r. dec_record J (e_Value e) = Some r \<and> o_CustomerID r = customerID \<and>
             e_Key e = order_Key customerID (o_OrderID r) \<and> stored J db (order_Key customerID (o_OrderID r)) = Some r"
proof -
  have e: "s_data db (e_Key e) = Some e" "HasPrefix (e_Key e) (CustomerPrefix customerID)"
    using assms(3) by (simp_all add: scan_set_def)
  then obtain r where r: "dec_record J (e_Value e) = Some r" "e_Key e = order_Key (o_CustomerID r) (o_OrderID r)"
      "CHR '':'' \<notin> set (o_CustomerID r)" using assms(1) by (metis rows_ok_def)
  with e(2) customer_prefix_iff [OF assms(2) r(3)] have "o_CustomerID r = customerID" by simp
  with r e(1) show ?thesis by (intro exI [of _ r]) (simp add: stored_def)
qed




text \<open>Two orders of one customer, the second placed later.\<close>

definition two_orders :: "string \<Rightarrow> Order" where
  "two_orders i = zero_Order\<lparr>o_OrderID := i, o_CustomerID := ''c1'', o_Status := StatusPlaced\<rparr>"

definition two_J :: order_codecs where
  "two_J = demo_J\<lparr>dec_record := table_dec [(two_orders ''ord-1'', ''a''), (two_orders ''ord-2'', ''b'')]\<rparr>"

definition two_db :: Store where
  "two_db = snd (CoordinatorWrite 0 (order_Key ''c1'' ''ord-2'') ''b'' 0
              (snd (CoordinatorWrite 0 (order_Key ''c1'' ''ord-1'') ''a'' 0 (NewStore ''n''))))"

definition two_ord :: "string list" where
  "two_ord = [order_Key ''c1'' ''ord-1'', order_Key ''c1'' ''ord-2'']"

lemma two_keys [simp]: "order_Key ''c1'' ''ord-1'' \<noteq> order_Key ''c1'' ''ord-2''"
  "order_Key ''c1'' ''ord-2'' \<noteq> order_Key ''c1'' ''ord-1''"
  by (simp_all add: order_Key_inj)

lemma two_db_data:
  "\<exists>e. s_data two_db (order_Key ''c1'' ''ord-1'') = Some e \<and> e_Value e = ''a'' \<and> e_ExpiresAt e = 0 \<and> e_Key e = order_Key ''c1'' ''ord-1''"
  "\<exists>e. s_data two_db (order_Key ''c1'' ''ord-2'') = Some e \<and> e_Value e = ''b'' \<and> e_ExpiresAt e = 0 \<and> e_Key e = order_Key ''c1'' ''ord-2''"
  "dom (s_data two_db) = {order_Key ''c1'' ''ord-1'', order_Key ''c1'' ''ord-2''}"
  by (auto simp: two_db_def NewStore_def)

lemma two_dec: "dec_record two_J ''a'' = Some (two_orders ''ord-1'')" "dec_record two_J ''b'' = Some (two_orders ''ord-2'')"
  by (simp_all add: two_J_def table_dec_def)



lemma two_prefix: "HasPrefix (order_Key ''c1'' i) (CustomerPrefix ''c1'')"
  by (simp add: HasPrefix_def order_Key_def CustomerPrefix_def)


text \<open>
  With more orders than the limit, \<open>List\<close> may leave out the newest. The store keeps the
  first keys its walk happens to meet, so a customer with two orders who asks for one can be
  given the older one.
\<close>

lemma order_history_may_omit_newest:
  "order_List two_J (ok_call 0) two_ord ''c1'' 1 two_db = Inr [two_orders ''ord-1'']"
proof -
  obtain e where e: "s_data two_db (order_Key ''c1'' ''ord-1'') = Some e" "e_Value e = ''a''" "e_ExpiresAt e = 0"
    using two_db_data(1) by blast
  have "store_Scan 0 two_ord (CustomerPrefix ''c1'') 1 two_db = [e]"
    using e by (simp add: store_Scan_def two_ord_def Expired_def two_prefix Let_def)
  moreover have "scanLimit (itoa 1) = 1" by (rule scanLimit_itoa) simp_all
  ultimately show ?thesis
    using e two_dec
    by (simp add: order_List_def db_Scan_def rpc_get_def handleInternalScan_def LocalScan_def ok_call_def CustomerPrefix_def
        List.map_filter_simps)
qed

section \<open>Whose orders an operation touches\<close>

lemma order_Get_own:
  assumes rows: "rows_ok J db" and id: "CHR '':'' \<notin> set customerID" and get: "order_Get J c customerID orderID db = Inr r"
  shows "o_CustomerID r = customerID"
proof -
  have "order_load J c customerID orderID db = Inr (Some r)"
    using get by (auto simp: order_Get_def split: if_splits sum.splits option.splits)
  then obtain e where e: "db_Get c (order_Key customerID orderID) db = Inr (Some e)" "dec_record J (e_Value e) = Some r"
    by (auto simp: order_load_def split: sum.splits option.splits)
  have "call_err c = None"
    using e(1) by (auto simp: db_Get_def client_Get_def rpc_get_def split: option.splits sum.splits if_splits)
  then have "s_data db (order_Key customerID orderID) = Some e"
    using e(1) by (auto simp: db_Get_ok store_Get_def split: option.splits if_splits)
  then obtain r' where r': "dec_record J (e_Value e) = Some r'" "order_Key customerID orderID = order_Key (o_CustomerID r') (o_OrderID r')"
      "CHR '':'' \<notin> set (o_CustomerID r')"
    using rows unfolding rows_ok_def by blast
  have "customerID = o_CustomerID r'" using r'(2) colon_split [OF _ id r'(3), of orderID "o_OrderID r'"] by (simp add: order_Key_def)
  with r'(1) e(2) show ?thesis by simp
qed

lemma order_List_own:
  assumes rows: "rows_ok J db" and ord: "visits ord db" and id: "CHR '':'' \<notin> set customerID"
    and run: "order_List J c ord customerID limit db = Inr rs" and r: "r \<in> set rs"
  shows "o_CustomerID r = customerID"
proof -
  define n where "n = (if limit \<le> 0 \<or> limit > 200 then 50 else limit)"
  have n: "0 < n" "n \<le> 200" by (auto simp: n_def)
  have "order_List J c ord customerID n db = Inr rs" using run by (auto simp: order_List_def n_def)
  from order_List_entries [OF this n] r obtain e where
      e: "e \<in> set (store_Scan (call_now c) ord (CustomerPrefix customerID) n db)" "dec_record J (e_Value e) = Some r"
    by (auto simp: List.map_filter_def)
  have "e \<in> scan_set (call_now c) (CustomerPrefix customerID) db"
    using store_Scan_facts(1) [OF _ ord n(1)] rows e(1) unfolding rows_ok_def by blast
  from scanned_record [OF rows id this] e(2) show ?thesis by simp
qed

lemma order_Cancel_own:
  assumes rows: "rows_ok J db" and id: "CHR '':'' \<notin> set customerID"
    and run: "order_Cancel J cget cput now have_pub pub evid corr customerID orderID reason (db, bus) = (out, db', bus')"
  shows "(\<forall>r. out = Inr r \<longrightarrow> o_CustomerID r = customerID) \<and>
         (\<forall>k. s_data db' k \<noteq> s_data db k \<longrightarrow> HasPrefix k (CustomerPrefix customerID))"
proof (cases "order_Get J cget customerID orderID db")
  case (Inr r0)
  have own: "o_CustomerID r0 = customerID" by (rule order_Get_own [OF rows id Inr])
  have save: "HasPrefix k (CustomerPrefix customerID)"
    if sv: "order_save J cput r db = (err, db'')" "s_data db'' k \<noteq> s_data db k" "o_CustomerID r = customerID" for r err db'' k
  proof -
    obtain raw res where "db_Put cput (order_Key customerID (o_OrderID r)) raw db = (res, db'')"
      using sv by (cases "enc_record J (r\<lparr>o_AwaitingDetails := \<not> HasDetails r\<rparr>)")
        (auto simp: order_save_def Let_def split: prod.splits sum.splits)
    from db_Put_effect(3) [OF this, of k] sv(2) have "k = order_Key customerID (o_OrderID r)" by blast
    then show ?thesis by (simp add: customer_prefix_iff [OF id id])
  qed
  show ?thesis using run Inr own save by (auto simp: order_Cancel_def Let_def split: if_splits prod.splits option.splits)
qed (use run in \<open>auto simp: order_Cancel_def\<close>)


end
