(* ===== verification/Identity.thy ===== *)
theory Identity
  imports Auth Redis Kv_Client
begin

text \<open>
  \<^verbatim>\<open>src/internal/identity/identity.go\<close>: accounts, credentials and sessions. Accounts are JSON in
  the identity database, sessions are keys in Redis. Password hashing and the digest of refresh
  tokens are library functions given as arguments, with \<open>bcrypt_ok\<close> for what is documented of
  bcrypt; \<open>lower\<close> stands for \<open>strings.ToLower\<close>, of which nothing is assumed.
\<close>

section \<open>Data\<close>

record User =
  u_CustomerID :: string
  u_Email :: string
  u_PasswordHash :: string
  u_Roles :: "string list"
  u_CreatedAt :: int

record Profile =
  pf_CustomerID :: string
  pf_Email :: string
  pf_Roles :: "string list"
  pf_CreatedAt :: int

definition user_profile :: "User \<Rightarrow> Profile" where
  "user_profile u = \<lparr>pf_CustomerID = u_CustomerID u, pf_Email = u_Email u, pf_Roles = u_Roles u, pf_CreatedAt = u_CreatedAt u\<rparr>"

record Tokens =
  tk_AccessToken :: string
  tk_RefreshToken :: string
  tk_TokenType :: string
  tk_ExpiresIn :: int
  tk_ExpiresAt :: "int option"
  tk_Profile :: Profile

definition userKeyPrefix :: string where "userKeyPrefix = ''user:''"
definition emailKeyPrefix :: string where "emailKeyPrefix = ''user-email:''"
definition refreshPrefix :: string where "refreshPrefix = ''session:refresh:''"
definition revokedPrefix :: string where "revokedPrefix = ''session:revoked:''"

text \<open>The libraries: bcrypt (with the salt it draws), the JSON of accounts, the digest of a
  token in hexadecimal, lower case.\<close>

record libs =
  bc_Generate :: "string \<Rightarrow> string \<Rightarrow> int \<Rightarrow> string option"
  bc_Compare :: "string \<Rightarrow> string \<Rightarrow> bool"
  enc_user :: "User \<Rightarrow> string option"
  dec_user :: "string \<Rightarrow> User option"
  hashToken :: "string \<Rightarrow> string"
  lower :: "string \<Rightarrow> string"

definition bcrypt_ok :: "libs \<Rightarrow> bool" where
  "bcrypt_ok X \<longleftrightarrow>
     (\<forall>salt pw cost h. bc_Generate X salt pw cost = Some h \<longrightarrow> bc_Compare X h pw) \<and>
     (\<forall>salt pw cost. length pw > 72 \<longrightarrow> bc_Generate X salt pw cost = None)"

record id_service =
  is_signer :: Signer
  is_refreshTTL :: int
  is_bcryptCost :: int

definition identity_NewService :: "Signer \<Rightarrow> int \<Rightarrow> id_service" where
  "identity_NewService signer refreshTTL =
     \<lparr>is_signer = signer, is_refreshTTL = (if refreshTTL \<le> 0 then 604800000000000 else refreshTTL), is_bcryptCost = 12\<rparr>"

text \<open>The environment of one operation: the clock, the database calls, the errors of its Redis
  commands and whether they ran in spite of them, the fresh ids and the salt.\<close>

datatype id_site = ReadEmail | ReadUser | WriteUser | WriteEmail

record id_env =
  ie_now :: int
  ie_call :: "id_site \<Rightarrow> call"
  ie_setErr :: "go_error option"
  ie_setRan :: bool
  ie_takeErr :: "go_error option"
  ie_takeRan :: bool
  ie_customerID :: string
  ie_sessionID :: string
  ie_refreshToken :: string
  ie_salt :: string

section \<open>Checks and identifiers\<close>

definition normalizeEmail :: "libs \<Rightarrow> string \<Rightarrow> string res" where
  "normalizeEmail X email0 =
     (let email = lower X (TrimSpace email0); at = IndexByte email (CHR ''@'') in
      if email = '''' then Inl (Errorf StatusBadRequest ''email is required'')
      else if length email > 254 then Inl (Errorf StatusBadRequest ''email is too long'')
      else if at < 1 \<or> at = int (length email) - 1 \<or> CHR '' '' \<in> set email
      then Inl (Errorf StatusBadRequest ''email is not a valid address'')
      else Inr email)"

definition validatePassword :: "string \<Rightarrow> go_error option" where
  "validatePassword password =
     (if length password < 10 then Some (Errorf StatusBadRequest ''password must be at least 10 characters'')
      else if length password > 1024 then Some (Errorf StatusBadRequest ''password is too long'')
      else None)"

definition errInvalidCredentials :: go_error where
  "errInvalidCredentials = Errorf StatusUnauthorized ''email or password is incorrect''"

text \<open>\<open>base64.RawURLEncoding\<close> of random bytes, and the fallback when there are none.\<close>

definition b64_char :: "nat \<Rightarrow> char" where
  "b64_char n = (if n < 26 then char_of (n + 65) else if n < 52 then char_of (n + 71)
                 else if n < 62 then char_of (n - 4) else if n = 62 then CHR ''-'' else CHR ''_'')"

fun raw_url_b64 :: "8 word list \<Rightarrow> string" where
  "raw_url_b64 [] = ''''"
| "raw_url_b64 [a] = [b64_char (unat a div 4), b64_char (unat a mod 4 * 16)]"
| "raw_url_b64 [a, b] =
     [b64_char (unat a div 4), b64_char (unat a mod 4 * 16 + unat b div 16), b64_char (unat b mod 16 * 4)]"
| "raw_url_b64 (a # b # c # bs) =
     [b64_char (unat a div 4), b64_char (unat a mod 4 * 16 + unat b div 16),
      b64_char (unat b mod 16 * 4 + unat c div 64), b64_char (unat c mod 64)] @ raw_url_b64 bs"

definition randomToken :: "8 word list option \<Rightarrow> int \<Rightarrow> string" where
  "randomToken bytes now = (case bytes of None \<Rightarrow> ''fallback-'' @ itoa now | Some b \<Rightarrow> raw_url_b64 b)"

definition newCustomerID :: "8 word list option \<Rightarrow> int \<Rightarrow> string" where
  "newCustomerID bytes now = ''cust-'' @ randomToken bytes now"

definition newSessionID :: "8 word list option \<Rightarrow> int \<Rightarrow> string" where
  "newSessionID bytes now = ''sess-'' @ randomToken bytes now"

section \<open>Accounts\<close>

definition loadUser :: "libs \<Rightarrow> call \<Rightarrow> string \<Rightarrow> Store \<Rightarrow> User option res" where
  "loadUser X c customerID db =
     (if customerID = '''' then Inr None
      else (case db_Get c (userKeyPrefix @ customerID) db of
              Inl err \<Rightarrow> Inl (Wrap StatusServiceUnavailable err ''identity database unavailable'')
            | Inr None \<Rightarrow> Inr None
            | Inr (Some e) \<Rightarrow>
                (case dec_user X (e_Value e) of
                   None \<Rightarrow> Inl (Wrap StatusInternalServerError (Sentinel ''json'') ''account record is unreadable'')
                 | Some u \<Rightarrow> Inr (Some u))))"

definition lookupByEmail :: "libs \<Rightarrow> id_env \<Rightarrow> string \<Rightarrow> Store \<Rightarrow> User option res" where
  "lookupByEmail X ev email db =
     (case db_Get (ie_call ev ReadEmail) (emailKeyPrefix @ email) db of
        Inl err \<Rightarrow> Inl (Wrap StatusServiceUnavailable err ''identity database unavailable'')
      | Inr None \<Rightarrow> Inr None
      | Inr (Some e) \<Rightarrow> if e_Value e = '''' then Inr None else loadUser X (ie_call ev ReadUser) (e_Value e) db)"

definition saveUser :: "libs \<Rightarrow> call \<Rightarrow> User \<Rightarrow> Store \<Rightarrow> go_error option \<times> Store" where
  "saveUser X c u db =
     (case enc_user X u of
        None \<Rightarrow> (Some (Wrap StatusInternalServerError (Sentinel ''json'') ''encoding the account''), db)
      | Some raw \<Rightarrow>
          (case db_Put c (userKeyPrefix @ u_CustomerID u) raw db of
             (Inl err, db') \<Rightarrow> (Some (Wrap StatusServiceUnavailable err ''identity database unavailable''), db')
           | (Inr v, db') \<Rightarrow> (None, db')))"

section \<open>Sessions\<close>

record 'r id_world =
  iw_db :: Store
  iw_redis :: 'r

definition issue :: "jwt \<Rightarrow> libs \<Rightarrow> 'r redis \<Rightarrow> id_service \<Rightarrow> id_env \<Rightarrow> User \<Rightarrow> 'r id_world \<Rightarrow> Tokens res \<times> 'r id_world" where
  "issue L X R s ev u w =
     (case signer_Issue L (is_signer s) (ie_now ev) (u_CustomerID u) (u_Email u) (u_Roles u) (ie_sessionID ev) of
        Inl err \<Rightarrow> (Inl (Wrap StatusInternalServerError err ''could not issue a token''), w)
      | Inr (token, claims) \<Rightarrow>
          (let stored = w\<lparr>iw_redis := rd_Set R (UnixMilli (ie_now ev)) (refreshPrefix @ hashToken X (ie_refreshToken ev))
                            (u_CustomerID u) (is_refreshTTL s div 1000000) (iw_redis w)\<rparr>
           in case ie_setErr ev of
                Some err \<Rightarrow> (Inl (Wrap StatusServiceUnavailable err ''session store unavailable''),
                             if ie_setRan ev then stored else w)
              | None \<Rightarrow>
                  (Inr \<lparr>tk_AccessToken = token, tk_RefreshToken = ie_refreshToken ev, tk_TokenType = ''Bearer'',
                        tk_ExpiresIn = sg_ttl (is_signer s) div 1000000000, tk_ExpiresAt = cl_ExpiresAt claims,
                        tk_Profile = user_profile u\<rparr>, stored)))"

definition Register :: "jwt \<Rightarrow> libs \<Rightarrow> 'r redis \<Rightarrow> id_service \<Rightarrow> id_env \<Rightarrow> string \<Rightarrow> string \<Rightarrow> 'r id_world
    \<Rightarrow> Tokens res \<times> 'r id_world" where
  "Register L X R s ev email0 password w =
     (case normalizeEmail X email0 of
        Inl err \<Rightarrow> (Inl err, w)
      | Inr email \<Rightarrow>
      (case validatePassword password of
         Some err \<Rightarrow> (Inl err, w)
       | None \<Rightarrow>
      (case lookupByEmail X ev email (iw_db w) of
         Inl err \<Rightarrow> (Inl err, w)
       | Inr (Some existing) \<Rightarrow> (Inl (Errorf StatusConflict ''an account already exists for that email''), w)
       | Inr None \<Rightarrow>
      (case bc_Generate X (ie_salt ev) password (is_bcryptCost s) of
         None \<Rightarrow> (Inl (Wrap StatusInternalServerError (Sentinel ''bcrypt'') ''could not hash the password''), w)
       | Some hash \<Rightarrow>
           (let u = \<lparr>u_CustomerID = ie_customerID ev, u_Email = email, u_PasswordHash = hash,
                     u_Roles = [''customer''], u_CreatedAt = ie_now ev\<rparr>
            in case saveUser X (ie_call ev WriteUser) u (iw_db w) of
                 (Some err, db1) \<Rightarrow> (Inl err, w\<lparr>iw_db := db1\<rparr>)
               | (None, db1) \<Rightarrow>
                   (case db_Put (ie_call ev WriteEmail) (emailKeyPrefix @ email) (u_CustomerID u) db1 of
                      (Inl err, db2) \<Rightarrow>
                        (Inl (Wrap StatusServiceUnavailable err ''identity database unavailable''), w\<lparr>iw_db := db2\<rparr>)
                    | (Inr v, db2) \<Rightarrow> issue L X R s ev u (w\<lparr>iw_db := db2\<rparr>)))))))"

definition Login :: "jwt \<Rightarrow> libs \<Rightarrow> 'r redis \<Rightarrow> id_service \<Rightarrow> id_env \<Rightarrow> string \<Rightarrow> string \<Rightarrow> 'r id_world
    \<Rightarrow> Tokens res \<times> 'r id_world" where
  "Login L X R s ev email0 password w =
     (case normalizeEmail X email0 of
        Inl err \<Rightarrow> (Inl errInvalidCredentials, w)
      | Inr email \<Rightarrow>
          (case lookupByEmail X ev email (iw_db w) of
             Inl err \<Rightarrow> (Inl err, w)
           | Inr None \<Rightarrow> (Inl errInvalidCredentials, w)
           | Inr (Some u) \<Rightarrow>
               (if bc_Compare X (u_PasswordHash u) password then issue L X R s ev u w
                else (Inl errInvalidCredentials, w))))"

definition Refresh :: "jwt \<Rightarrow> libs \<Rightarrow> 'r redis \<Rightarrow> id_service \<Rightarrow> id_env \<Rightarrow> string \<Rightarrow> 'r id_world
    \<Rightarrow> Tokens res \<times> 'r id_world" where
  "Refresh L X R s ev refreshToken w =
     (if refreshToken = '''' then (Inl (Unauthorized ''refresh token is required''), w)
      else (let (got, r') = rd_GetDel R (UnixMilli (ie_now ev)) (refreshPrefix @ hashToken X refreshToken) (iw_redis w);
                taken = w\<lparr>iw_redis := r'\<rparr>
            in case ie_takeErr ev of
                 Some err \<Rightarrow> (Inl (Wrap StatusServiceUnavailable err ''session store unavailable''),
                              if ie_takeRan ev then taken else w)
               | None \<Rightarrow>
                   (case got of
                      None \<Rightarrow> (Inl (Unauthorized ''refresh token is not valid''), taken)
                    | Some customerID \<Rightarrow>
                        (case loadUser X (ie_call ev ReadUser) customerID (iw_db w) of
                           Inl err \<Rightarrow> (Inl err, taken)
                         | Inr None \<Rightarrow> (Inl (Unauthorized ''refresh token is not valid''), taken)
                         | Inr (Some u) \<Rightarrow> issue L X R s ev u taken))))"

definition Logout :: "libs \<Rightarrow> 'r redis \<Rightarrow> id_service \<Rightarrow> id_env \<Rightarrow> string \<Rightarrow> string \<Rightarrow> 'r id_world
    \<Rightarrow> go_error option \<times> 'r id_world" where
  "Logout X R s ev sessionID refreshToken w =
     (let w1 = (if refreshToken \<noteq> '''' \<and> (ie_takeErr ev = None \<or> ie_takeRan ev)
                then w\<lparr>iw_redis := rd_Del R (refreshPrefix @ hashToken X refreshToken) (iw_redis w)\<rparr> else w);
          w2 = w1\<lparr>iw_redis := rd_Set R (UnixMilli (ie_now ev)) (revokedPrefix @ sessionID) ''1''
                     (sg_ttl (is_signer s) div 1000000) (iw_redis w1)\<rparr>
      in if sessionID = '''' then (None, w1)
         else (case ie_setErr ev of
                 Some err \<Rightarrow> (Some (Wrap StatusServiceUnavailable err ''session store unavailable''),
                              if ie_setRan ev then w2 else w1)
               | None \<Rightarrow> (None, w2)))"

definition identity_Profile :: "libs \<Rightarrow> call \<Rightarrow> string \<Rightarrow> Store \<Rightarrow> Profile res" where
  "identity_Profile X c customerID db =
     (case loadUser X c customerID db of
        Inl err \<Rightarrow> Inl err
      | Inr None \<Rightarrow> Inl (Errorf StatusNotFound ''no account for %s'')
      | Inr (Some u) \<Rightarrow> Inr (user_profile u))"

text \<open>\<open>RevocationCheck\<close>: \<open>have\<close> is false for a nil client, \<open>err\<close> is the error of the lookup.\<close>

definition RevocationCheck :: "'r redis \<Rightarrow> bool \<Rightarrow> go_error option \<Rightarrow> int \<Rightarrow> 'r \<Rightarrow> string \<Rightarrow> bool res" where
  "RevocationCheck R have err now r sessionID =
     (if \<not> have \<or> sessionID = '''' then Inr False
      else (case err of
              Some e \<Rightarrow> Inl e
            | None \<Rightarrow> Inr (rd_Get R (UnixMilli now) (revokedPrefix @ sessionID) r \<noteq> None)))"


section \<open>HTTP surface\<close>

definition handleRegister :: "jwt \<Rightarrow> libs \<Rightarrow> 'r redis \<Rightarrow> id_service \<Rightarrow> id_env \<Rightarrow> (string \<times> string) res \<Rightarrow> 'r id_world
    \<Rightarrow> (int \<times> Tokens) res \<times> 'r id_world" where
  "handleRegister L X R s ev body w =
     (case body of
        Inl err \<Rightarrow> (Inl err, w)
      | Inr (email, password) \<Rightarrow>
          (case Register L X R s ev email password w of
             (Inl err, w') \<Rightarrow> (Inl err, w')
           | (Inr tokens, w') \<Rightarrow> (Inr (StatusCreated, tokens), w')))"

definition handleLogin :: "jwt \<Rightarrow> libs \<Rightarrow> 'r redis \<Rightarrow> id_service \<Rightarrow> id_env \<Rightarrow> (string \<times> string) res \<Rightarrow> 'r id_world
    \<Rightarrow> (int \<times> Tokens) res \<times> 'r id_world" where
  "handleLogin L X R s ev body w =
     (case body of
        Inl err \<Rightarrow> (Inl err, w)
      | Inr (email, password) \<Rightarrow>
          (case Login L X R s ev email password w of
             (Inl err, w') \<Rightarrow> (Inl err, w')
           | (Inr tokens, w') \<Rightarrow> (Inr (StatusOK, tokens), w')))"

definition handleRefresh :: "jwt \<Rightarrow> libs \<Rightarrow> 'r redis \<Rightarrow> id_service \<Rightarrow> id_env \<Rightarrow> string res \<Rightarrow> 'r id_world
    \<Rightarrow> (int \<times> Tokens) res \<times> 'r id_world" where
  "handleRefresh L X R s ev body w =
     (case body of
        Inl err \<Rightarrow> (Inl err, w)
      | Inr refreshToken \<Rightarrow>
          (case Refresh L X R s ev refreshToken w of
             (Inl err, w') \<Rightarrow> (Inl err, w')
           | (Inr tokens, w') \<Rightarrow> (Inr (StatusOK, tokens), w')))"

definition handleLogout :: "jwt \<Rightarrow> Verifier \<Rightarrow> libs \<Rightarrow> 'r redis \<Rightarrow> id_service \<Rightarrow> id_env \<Rightarrow> string \<Rightarrow> string res \<Rightarrow> 'r id_world
    \<Rightarrow> int res \<times> 'r id_world" where
  "handleLogout L v X R s ev header body w =
     (case body of
        Inl err \<Rightarrow> (Inl err, w)
      | Inr refreshToken \<Rightarrow>
          (let sessionID = (case BearerToken header of
                              None \<Rightarrow> ''''
                            | Some token \<Rightarrow> (case Verify L v (ie_now ev) token of Inl err \<Rightarrow> '''' | Inr claims \<Rightarrow> cl_ID claims))
           in case Logout X R s ev sessionID refreshToken w of
                (Some err, w') \<Rightarrow> (Inl err, w')
              | (None, w') \<Rightarrow> (Inr StatusOK, w')))"

definition handleMe :: "jwt \<Rightarrow> Verifier \<Rightarrow> libs \<Rightarrow> id_env \<Rightarrow> string \<Rightarrow> Store \<Rightarrow> (int \<times> Profile) res" where
  "handleMe L v X ev header db =
     (case BearerToken header of
        None \<Rightarrow> Inl (Unauthorized ''a bearer token is required'')
      | Some token \<Rightarrow>
          (case Verify L v (ie_now ev) token of
             Inl err \<Rightarrow> Inl (Unauthorized ''the token is not valid'')
           | Inr claims \<Rightarrow>
               (case identity_Profile X (ie_call ev ReadUser) (claims_CustomerID claims) db of
                  Inl err \<Rightarrow> Inl err
                | Inr p \<Rightarrow> Inr (StatusOK, p))))"

end
