(* ===== verification/Identity_Sessions.thy ===== *)
theory Identity_Sessions
  imports Identity
begin

text \<open>
  What the identity service promises: an account can be logged into with its password and no
  other, a refresh token works once, and a session that was logged out stays out. Between the
  operations of interest any others may run; \<open>id_step\<close> is that interleaving, with a clock.
\<close>

section \<open>Accounts\<close>

lemma prefix_disjoint [simp]: "userKeyPrefix @ a \<noteq> emailKeyPrefix @ b" "emailKeyPrefix @ b \<noteq> userKeyPrefix @ a"
  "refreshPrefix @ a \<noteq> revokedPrefix @ b" "revokedPrefix @ b \<noteq> refreshPrefix @ a"
  by (simp_all add: userKeyPrefix_def emailKeyPrefix_def refreshPrefix_def revokedPrefix_def)

text \<open>An account filed under its email.\<close>

definition account :: "libs \<Rightarrow> Store \<Rightarrow> string \<Rightarrow> User \<Rightarrow> bool" where
  "account X db email u \<longleftrightarrow>
     (\<exists>e1 e2. s_data db (emailKeyPrefix @ email) = Some e1 \<and> e_Value e1 = u_CustomerID u \<and> e_ExpiresAt e1 = 0 \<and>
              s_data db (userKeyPrefix @ u_CustomerID u) = Some e2 \<and> dec_user X (e_Value e2) = Some u \<and> e_ExpiresAt e2 = 0) \<and>
     u_CustomerID u \<noteq> ''''"

lemma lookup_account:
  assumes "account X db email u" and "call_err (ie_call ev ReadEmail) = None" "call_err (ie_call ev ReadUser) = None"
  shows "lookupByEmail X ev email db = Inr (Some u)"
  using assms by (auto simp: account_def lookupByEmail_def loadUser_def db_Get_ok store_Get_def Expired_def)

lemma issue_db [simp]: "iw_db (snd (issue L X R s ev u w)) = iw_db w"
  by (auto simp: issue_def Let_def split: sum.split prod.split option.split)

lemma issue_ok:
  assumes "\<forall>c. jwt_Sign L (sg_secret (is_signer s)) c \<noteq> None" and "ie_setErr ev = None"
  shows "\<exists>tk w'. issue L X R s ev u w = (Inr tk, w') \<and> tk_Profile tk = user_profile u"
proof -
  have "\<exists>tok cl. signer_Issue L (is_signer s) (ie_now ev) (u_CustomerID u) (u_Email u) (u_Roles u) (ie_sessionID ev) = Inr (tok, cl)"
    using assms(1) by (auto simp: signer_Issue_def Let_def split: option.split)
  then obtain tok cl where "signer_Issue L (is_signer s) (ie_now ev) (u_CustomerID u) (u_Email u) (u_Roles u) (ie_sessionID ev) = Inr (tok, cl)"
    by blast
  with assms(2) show ?thesis by (simp add: issue_def Let_def)
qed

lemma Register_account:
  assumes X: "bcrypt_ok X" "codec_ok (enc_user X) (dec_user X)" and "ie_customerID ev \<noteq> ''''"
    and run: "Register L X R s ev email0 password w = (Inr tokens, w')"
  shows "\<exists>email u. normalizeEmail X email0 = Inr email \<and> account X (iw_db w') email u \<and> validatePassword password = None \<and>
             u_CustomerID u = ie_customerID ev \<and> u_Email u = email \<and> bc_Compare X (u_PasswordHash u) password \<and>
             tk_Profile tokens = user_profile u"
proof -
  obtain email where em: "normalizeEmail X email0 = Inr email" "validatePassword password = None"
    "lookupByEmail X ev email (iw_db w) = Inr None"
    using run by (auto simp: Register_def split: sum.splits option.splits)
  then obtain hash where h: "bc_Generate X (ie_salt ev) password (is_bcryptCost s) = Some hash"
    using run by (auto simp: Register_def split: option.splits)
  define u where "u = \<lparr>u_CustomerID = ie_customerID ev, u_Email = email, u_PasswordHash = hash,
                       u_Roles = [''customer''], u_CreatedAt = ie_now ev\<rparr>"
  obtain db1 where save: "saveUser X (ie_call ev WriteUser) u (iw_db w) = (None, db1)"
    using run em h by (auto simp: Register_def u_def Let_def split: prod.splits option.splits)
  obtain v db2 where idx: "db_Put (ie_call ev WriteEmail) (emailKeyPrefix @ email) (u_CustomerID u) db1 = (Inr v, db2)"
      and iss: "issue L X R s ev u (w\<lparr>iw_db := db2\<rparr>) = (Inr tokens, w')"
    using run em h save by (auto simp: Register_def u_def Let_def split: prod.splits sum.splits)
  obtain raw v' where raw: "enc_user X u = Some raw" and put: "db_Put (ie_call ev WriteUser) (userKeyPrefix @ u_CustomerID u) raw (iw_db w) = (Inr v', db1)"
    using save by (auto simp: saveUser_def split: option.splits prod.splits sum.splits)
  obtain e2 where e2: "s_data db1 (userKeyPrefix @ u_CustomerID u) = Some e2" "e_Value e2 = raw" "e_ExpiresAt e2 = 0"
    using db_Put_effect(2) [OF put] by blast
  obtain e1 where e1: "s_data db2 (emailKeyPrefix @ email) = Some e1" "e_Value e1 = u_CustomerID u" "e_ExpiresAt e1 = 0"
    using db_Put_effect(2) [OF idx] by blast
  have "s_data db2 (userKeyPrefix @ u_CustomerID u) = Some e2" using db_Put_effect(3) [OF idx] e2(1) by simp
  moreover have "dec_user X raw = Some u" using codec_okD [OF X(2) raw] by blast
  moreover have "iw_db w' = db2" using issue_db [of L X R s ev u "w\<lparr>iw_db := db2\<rparr>"] iss by simp
  ultimately have "account X (iw_db w') email u"
    using e1 e2 assms(3) by (auto simp: account_def u_def)
  moreover have "bc_Compare X hash password" using X(1) h by (auto simp: bcrypt_ok_def)
  moreover have "tk_Profile tokens = user_profile u"
    using iss by (auto simp: issue_def Let_def split: sum.splits prod.splits option.splits)
  ultimately show ?thesis using em by (intro exI [of _ email] exI [of _ u]) (auto simp: u_def)
qed

text \<open>
  C23. An account is opened with its password and only with it. After a successful registration,
  logging in under any spelling of the same email issues tokens for that customer exactly when
  bcrypt accepts the password against the stored hash, which it does for the one registered, and
  answers 401 otherwise; registering the email again, with whatever password, is refused and changes
  nothing, with 409 unless the password itself is not acceptable.
\<close>

theorem register_then_login:
  assumes X: "bcrypt_ok X" "codec_ok (enc_user X) (dec_user X)" and cid: "ie_customerID ev \<noteq> ''''"
    and reg: "Register L X R s ev email password w = (Inr tokens, w')"
    and same: "normalizeEmail X email' = normalizeEmail X email"
    and up: "call_err (ie_call ev' ReadEmail) = None" "call_err (ie_call ev' ReadUser) = None" "ie_setErr ev' = None"
    and signing: "\<forall>c. jwt_Sign L (sg_secret (is_signer s)) c \<noteq> None"
  shows "\<exists>h. bc_Compare X h password \<and>
           (\<forall>pw. if bc_Compare X h pw
                 then \<exists>tk w''. Login L X R s ev' email' pw w' = (Inr tk, w'') \<and> tk_Profile tk = tk_Profile tokens \<and>
                                pf_CustomerID (tk_Profile tk) = ie_customerID ev
                 else Login L X R s ev' email' pw w' = (Inl errInvalidCredentials, w')) \<and>
           (\<forall>pw. Register L X R s ev' email' pw w' =
             (Inl (case validatePassword pw of Some err \<Rightarrow> err
                   | None \<Rightarrow> Errorf StatusConflict ''an account already exists for that email''), w'))"
proof -
  obtain em u where u: "normalizeEmail X email = Inr em" "account X (iw_db w') em u" "validatePassword password = None"
      "u_CustomerID u = ie_customerID ev" "bc_Compare X (u_PasswordHash u) password" "tk_Profile tokens = user_profile u"
    using Register_account [OF X cid reg] by blast
  note lk = lookup_account [OF u(2) up(1,2)]
  have "if bc_Compare X (u_PasswordHash u) pw
        then \<exists>tk w''. Login L X R s ev' email' pw w' = (Inr tk, w'') \<and> tk_Profile tk = tk_Profile tokens \<and>
                      pf_CustomerID (tk_Profile tk) = ie_customerID ev
        else Login L X R s ev' email' pw w' = (Inl errInvalidCredentials, w')" for pw
    using lk same u issue_ok [OF signing up(3), of X R u w'] by (auto simp: Login_def user_profile_def)
  moreover have "Register L X R s ev' email' pw w' = (Inl (case validatePassword pw of Some err \<Rightarrow> err
      | None \<Rightarrow> Errorf StatusConflict ''an account already exists for that email''), w')" for pw
    using lk same u by (simp add: Register_def split: option.split)
  ultimately show ?thesis using u(5) by blast
qed


section \<open>Interleavings\<close>

text \<open>The clock with the world. Any operation may run at a later time with any environment; the
  tokens it issues have digests other than \<open>h\<close>; other users of the same Redis leave the keys
  of sessions alone.\<close>

inductive id_step :: "jwt \<Rightarrow> libs \<Rightarrow> 'r redis \<Rightarrow> id_service \<Rightarrow> string \<Rightarrow> int \<times> 'r id_world \<Rightarrow> int \<times> 'r id_world \<Rightarrow> bool"
  for L X R s h where
  register: "t \<le> ie_now ev \<Longrightarrow> hashToken X (ie_refreshToken ev) \<noteq> h \<Longrightarrow>
     id_step L X R s h (t, w) (ie_now ev, snd (Register L X R s ev email password w))"
| login: "t \<le> ie_now ev \<Longrightarrow> hashToken X (ie_refreshToken ev) \<noteq> h \<Longrightarrow>
     id_step L X R s h (t, w) (ie_now ev, snd (Login L X R s ev email password w))"
| refresh: "t \<le> ie_now ev \<Longrightarrow> hashToken X (ie_refreshToken ev) \<noteq> h \<Longrightarrow>
     id_step L X R s h (t, w) (ie_now ev, snd (Refresh L X R s ev token w))"
| logout: "t \<le> ie_now ev \<Longrightarrow> id_step L X R s h (t, w) (ie_now ev, snd (Logout X R s ev sid token w))"
| others: "t \<le> t' \<Longrightarrow> (\<And>a k. HasPrefix k ''session:'' \<Longrightarrow> rd_Get R a k r' = rd_Get R a k (iw_redis w)) \<Longrightarrow>
     id_step L X R s h (t, w) (t', w\<lparr>iw_redis := r'\<rparr>)"

lemma session_keys [simp]: "HasPrefix (refreshPrefix @ a) ''session:''" "HasPrefix (revokedPrefix @ a) ''session:''"
  by (simp_all add: HasPrefix_def refreshPrefix_def revokedPrefix_def)

text \<open>What each operation does to the session store: it sets the refresh key of its new token,
  deletes the refresh key it was given, or sets a revoked key.\<close>

definition new_session :: "libs \<Rightarrow> 'r redis \<Rightarrow> id_service \<Rightarrow> id_env \<Rightarrow> string \<Rightarrow> 'r \<Rightarrow> 'r" where
  "new_session X R s ev customerID r =
     rd_Set R (UnixMilli (ie_now ev)) (refreshPrefix @ hashToken X (ie_refreshToken ev)) customerID (is_refreshTTL s div 1000000) r"

lemma issue_inv:
  assumes "iw_redis w \<in> S" and "\<And>c. new_session X R s ev c (iw_redis w) \<in> S"
  shows "iw_redis (snd (issue L X R s ev u w)) \<in> S"
  using assms by (auto simp: issue_def new_session_def Let_def split: sum.split prod.split option.split)

lemma Register_inv:
  assumes "iw_redis w \<in> S" and "\<And>c. new_session X R s ev c (iw_redis w) \<in> S"
  shows "iw_redis (snd (Register L X R s ev email password w)) \<in> S"
  using assms
  by (auto simp: Register_def Let_def intro!: issue_inv split: sum.split option.split prod.split)

lemma Login_inv:
  assumes "iw_redis w \<in> S" and "\<And>c. new_session X R s ev c (iw_redis w) \<in> S"
  shows "iw_redis (snd (Login L X R s ev email password w)) \<in> S"
  using assms by (auto simp: Login_def intro!: issue_inv split: sum.split option.split)

lemma Refresh_inv:
  assumes R: "redis_ok R" and "iw_redis w \<in> S" and "rd_Del R (refreshPrefix @ hashToken X token) (iw_redis w) \<in> S"
    and "\<And>c. new_session X R s ev c (rd_Del R (refreshPrefix @ hashToken X token) (iw_redis w)) \<in> S"
  shows "iw_redis (snd (Refresh L X R s ev token w)) \<in> S"
  using assms(2-)
  by (auto simp: Refresh_def redis_okD(6) [OF R] Let_def intro!: issue_inv split: sum.split option.split)

lemma Logout_inv:
  assumes "iw_redis w \<in> S" and "rd_Del R (refreshPrefix @ hashToken X token) (iw_redis w) \<in> S"
    and "\<And>r. r \<in> S \<Longrightarrow> rd_Set R (UnixMilli (ie_now ev)) (revokedPrefix @ sid) ''1'' (sg_ttl (is_signer s) div 1000000) r \<in> S"
  shows "iw_redis (snd (Logout X R s ev sid token w)) \<in> S"
  using assms by (auto simp: Logout_def Let_def split: option.split)

text \<open>A refresh key that is gone stays gone.\<close>

definition spent :: "'r redis \<Rightarrow> string \<Rightarrow> 'r \<Rightarrow> bool" where
  "spent R h r \<longleftrightarrow> (\<forall>t. rd_Get R t (refreshPrefix @ h) r = None)"

lemma spent_del: "redis_ok R \<Longrightarrow> spent R h (rd_Del R (refreshPrefix @ h) r)"
  by (simp add: spent_def redis_okD(5))

lemma spent_other_del: "redis_ok R \<Longrightarrow> spent R h r \<Longrightarrow> spent R h (rd_Del R k r)"
  by (simp add: spent_def redis_okD(5))

lemma spent_other_set: "redis_ok R \<Longrightarrow> spent R h r \<Longrightarrow> k \<noteq> refreshPrefix @ h \<Longrightarrow> spent R h (rd_Set R t k v ttl r)"
  by (simp add: spent_def redis_okD(3))

lemma spent_new_session:
  "redis_ok R \<Longrightarrow> spent R h r \<Longrightarrow> hashToken X (ie_refreshToken ev) \<noteq> h \<Longrightarrow> spent R h (new_session X R s ev c r)"
  by (simp add: new_session_def spent_other_set)

lemma spent_step:
  assumes R: "redis_ok R" and st: "id_step L X R s h tw tw'" and sp: "spent R h (iw_redis (snd tw))"
  shows "spent R h (iw_redis (snd tw'))"
proof -
  let ?S = "{r. spent R h r}"
  note news = spent_new_session [OF R] and dels = spent_other_del [OF R] and sets = spent_other_set [OF R]
  from st have "iw_redis (snd tw') \<in> ?S"
  proof cases
    case (register t ev w email password)
    show ?thesis unfolding register(2) snd_conv by (rule Register_inv) (use register sp news in auto)
  next
    case (login t ev w email password)
    show ?thesis unfolding login(2) snd_conv by (rule Login_inv) (use login sp news in auto)
  next
    case (refresh t ev w token)
    show ?thesis unfolding refresh(2) snd_conv by (rule Refresh_inv [OF R]) (use refresh sp news dels in auto)
  next
    case (logout t ev w sid token)
    show ?thesis unfolding logout(2) snd_conv by (rule Logout_inv) (use logout sp dels sets in auto)
  next
    case (others t t' r' w)
    then show ?thesis using sp by (simp add: spent_def)
  qed
  then show ?thesis by simp
qed

interpretation spent_tokens: invariant_system "\<lambda>tw. spent R h (iw_redis (snd tw))"
  "\<lambda>tw tw'. redis_ok R \<and> id_step L X R s h tw tw'" "\<lambda>tw. spent R h (iw_redis (snd tw))" for R h L X s
  by unfold_locales (auto intro: spent_step)

lemma spent_run:
  assumes "redis_ok R" and "(id_step L X R s h)\<^sup>*\<^sup>* tw tw'" and "spent R h (iw_redis (snd tw))"
  shows "spent R h (iw_redis (snd tw'))"
proof -
  have "(\<lambda>a b. redis_ok R \<and> id_step L X R s h a b)\<^sup>*\<^sup>* tw tw'"
    using assms(2) by (rule rtranclp_mono [THEN predicate2D, rotated]) (use assms(1) in auto)
  from spent_tokens.run_inv [OF this assms(3)] show ?thesis .
qed

text \<open>
  C24. A refresh token works once. After it has been exchanged for new tokens, no later attempt
  with it succeeds, whatever other registrations, logins, refreshes and logouts run in between
  and whatever fails in them, as long as no new token has the same digest.
\<close>

theorem refresh_token_single_use:
  assumes R: "redis_ok R" and used: "Refresh L X R s ev token w = (Inr tokens, w1)"
    and fresh: "hashToken X (ie_refreshToken ev) \<noteq> hashToken X token"
    and later: "(id_step L X R s (hashToken X token))\<^sup>*\<^sup>* (ie_now ev, w1) (t, w2)"
  shows "\<not> is_ok (fst (Refresh L X R s ev' token w2))"
proof -
  let ?h = "hashToken X token" and ?r = "rd_Del R (refreshPrefix @ hashToken X token) (iw_redis w)"
  obtain u where "issue L X R s ev u (w\<lparr>iw_redis := ?r\<rparr>) = (Inr tokens, w1)"
    using used by (auto simp: Refresh_def redis_okD(6) [OF R] Let_def split: if_splits option.splits sum.splits)
  moreover have "spent R ?h (iw_redis (snd (issue L X R s ev u (w\<lparr>iw_redis := ?r\<rparr>))))" for u
    using issue_inv [of "w\<lparr>iw_redis := ?r\<rparr>" "{r. spent R ?h r}" X R s ev L u] spent_del [OF R, of ?h "iw_redis w"]
      spent_new_session [OF R _ fresh] by simp
  ultimately have "spent R ?h (iw_redis w1)" by (metis snd_conv)
  then have "spent R ?h (iw_redis w2)" using spent_run [OF R later] by simp
  then show ?thesis
    by (auto simp: Refresh_def redis_okD(6) [OF R] spent_def Let_def split: option.split)
qed


section \<open>Logging out\<close>

text \<open>From the time \<open>t\<close> on, the session is on the denylist until \<open>ttl\<close> after \<open>t1\<close>.\<close>

definition denied :: "'r redis \<Rightarrow> string \<Rightarrow> int \<Rightarrow> int \<Rightarrow> int \<Rightarrow> 'r \<Rightarrow> bool" where
  "denied R sid t1 ttl t r \<longleftrightarrow>
     (\<forall>a. t \<le> a \<longrightarrow> UnixMilli a < UnixMilli t1 + ttl \<longrightarrow> rd_Get R (UnixMilli a) (revokedPrefix @ sid) r \<noteq> None)"

lemma UnixMilli_mono: "a \<le> b \<Longrightarrow> UnixMilli a \<le> UnixMilli b"
  by (simp add: UnixMilli_def zdiv_mono1)

lemma denied_later: "denied R sid t1 ttl t r \<Longrightarrow> t \<le> t' \<Longrightarrow> denied R sid t1 ttl t' r"
  by (auto simp: denied_def)

lemma denied_del: "redis_ok R \<Longrightarrow> denied R sid t1 ttl t r \<Longrightarrow> denied R sid t1 ttl t (rd_Del R (refreshPrefix @ h) r)"
  by (simp add: denied_def redis_okD(5))

lemma denied_session: "redis_ok R \<Longrightarrow> denied R sid t1 ttl t r \<Longrightarrow> denied R sid t1 ttl t (new_session X R s ev c r)"
  by (simp add: denied_def new_session_def redis_okD(3))

lemma denied_revoke:
  assumes "redis_ok R" and "0 < ttl" and "t1 \<le> t"
    and "sid' = sid \<or> denied R sid t1 ttl t r"
  shows "denied R sid t1 ttl t (rd_Set R (UnixMilli t) (revokedPrefix @ sid') ''1'' ttl r)"
proof (cases "sid' = sid")
  case True
  have "rd_Get R (UnixMilli a) (revokedPrefix @ sid) (rd_Set R (UnixMilli t) (revokedPrefix @ sid) ''1'' ttl r) = Some ''1''"
    if "t \<le> a" "UnixMilli a < UnixMilli t1 + ttl" for a
    using that UnixMilli_mono [OF assms(3)] UnixMilli_mono [of t a]
    by (intro redis_okD(1) [OF assms(1,2)]) simp_all
  with True show ?thesis by (simp add: denied_def)
next
  case False
  with assms(4) show ?thesis by (simp add: denied_def redis_okD(3) [OF assms(1)])
qed

lemma denied_step:
  assumes R: "redis_ok R" and ttl: "ttl = sg_ttl (is_signer s) div 1000000" "0 < ttl"
    and st: "id_step L X R s h tw tw'" and t1: "t1 \<le> fst tw" and d: "denied R sid t1 ttl (fst tw) (iw_redis (snd tw))"
  shows "t1 \<le> fst tw' \<and> denied R sid t1 ttl (fst tw') (iw_redis (snd tw'))"
proof -
  let ?S = "{r. denied R sid t1 ttl (fst tw') r}"
  note sess = denied_session [OF R] and dels = denied_del [OF R] and revs = denied_revoke [OF R ttl(2)]
  have le: "fst tw \<le> fst tw'" using st by cases auto
  have d': "iw_redis (snd tw) \<in> ?S" using denied_later [OF d le] by simp
  from st have "iw_redis (snd tw') \<in> ?S"
  proof cases
    case (register t ev w email password)
    show ?thesis unfolding register(2) snd_conv by (rule Register_inv) (use register d' sess in auto)
  next
    case (login t ev w email password)
    show ?thesis unfolding login(2) snd_conv by (rule Login_inv) (use login d' sess in auto)
  next
    case (refresh t ev w token)
    show ?thesis unfolding refresh(2) snd_conv by (rule Refresh_inv [OF R]) (use refresh d' sess dels in auto)
  next
    case (logout t ev w sid' token)
    show ?thesis unfolding logout(2) snd_conv
      by (rule Logout_inv) (use logout d' dels revs t1 le ttl(1) in auto)
  next
    case (others t t' r' w)
    then show ?thesis using d' by (simp add: denied_def)
  qed
  then show ?thesis using t1 le by simp
qed

lemma denied_run:
  assumes "redis_ok R" and "ttl = sg_ttl (is_signer s) div 1000000" "0 < ttl"
    and run: "(id_step L X R s h)\<^sup>*\<^sup>* tw tw'" and "t1 \<le> fst tw" "denied R sid t1 ttl (fst tw) (iw_redis (snd tw))"
  shows "t1 \<le> fst tw' \<and> denied R sid t1 ttl (fst tw') (iw_redis (snd tw'))"
  using run by (induction rule: rtranclp_induct) (use assms(1-3,5,6) denied_step in blast)+

lemma Logout_denies:
  assumes "redis_ok R" and "0 < sg_ttl (is_signer s) div 1000000" and "sid \<noteq> ''''"
    and "Logout X R s ev sid token w = (None, w1)"
  shows "denied R sid (ie_now ev) (sg_ttl (is_signer s) div 1000000) (ie_now ev) (iw_redis w1)"
  using assms(3,4) denied_revoke [OF assms(1,2), of "ie_now ev" "ie_now ev" sid sid]
  by (auto simp: Logout_def Let_def split: option.splits)

lemma deadline_ms:
  assumes "now < NewNumericDate e" and "e \<le> t + ttl" and "ttl mod 1000000 = 0"
  shows "UnixMilli now < UnixMilli t + ttl div 1000000"
proof -
  let ?q = "e div 1000000000"
  have "now div 1000000 * 1000000 \<le> now" "?q * 1000000000 \<le> e" by simp_all
  moreover have "ttl = ttl div 1000000 * 1000000" using assms(3) div_mult_mod_eq [of ttl 1000000] by simp
  ultimately have "now div 1000000 < ?q * 1000" and "(?q * 1000 - ttl div 1000000) * 1000000 \<le> t"
    using assms(1,2) by (simp_all add: NewNumericDate_def)
  moreover from this(2) have "?q * 1000 - ttl div 1000000 \<le> t div 1000000"
    using zdiv_mono1 [of "(?q * 1000 - ttl div 1000000) * 1000000" t 1000000] by simp
  ultimately show ?thesis by (simp add: UnixMilli_def)
qed

text \<open>
  C25. Logging out is immediate and final. After a logout of a session has succeeded, no access
  token of that session verifies again, at any later time and whatever other operations ran,
  as long as the denylist can be read: it is on the denylist until the token has expired by
  itself.
\<close>

theorem logout_final:
  assumes L: "jwt_ok L" and R: "redis_ok R"
    and ttl: "0 < sg_ttl (is_signer s)" "sg_ttl (is_signer s) mod 1000000 = 0"
    and issued: "signer_Issue L (is_signer s) t0 customerID email roles sid = Inr (token, claims)" "t0 \<le> ie_now ev"
    and out: "Logout X R s ev sid refreshToken w = (None, w1)" "sid \<noteq> ''''"
    and later: "(id_step L X R s h)\<^sup>*\<^sup>* (ie_now ev, w1) (t, w2)" "t \<le> now"
    and v: "vf_revoked v = Some (RevocationCheck R True None now (iw_redis w2))"
  shows "Verify L v now token = Inl ErrUnauthenticated"
proof (rule ccontr)
  let ?ttl = "sg_ttl (is_signer s) div 1000000"
  assume "Verify L v now token \<noteq> Inl ErrUnauthenticated"
  then obtain c where c: "Verify L v now token = Inr c"
    by (auto simp: Verify_def split: option.splits if_splits sum.splits)
  have pos: "0 < ?ttl" using ttl div_mult_mod_eq [of "sg_ttl (is_signer s)" 1000000] by simp
  have sign: "jwt_Sign L (sg_secret (is_signer s)) claims = Some token" "cl_ID claims = sid"
      "cl_ExpiresAt claims = Some (NewNumericDate (t0 + sg_ttl (is_signer s)))"
    using issued(1) by (auto simp: signer_Issue_def Let_def split: option.splits)
  have "c = claims" using jwt_one_payload [OF L Verify_ok(1) [OF L c] jwt_signed [OF L sign(1)]] .
  then have exp: "now < NewNumericDate (t0 + sg_ttl (is_signer s))"
    using Verify_ok(4) [OF L c] sign(3) by auto
  have "denied R sid (ie_now ev) ?ttl t (iw_redis w2)"
    using denied_run [OF R refl pos later(1), of "ie_now ev" sid] Logout_denies [OF R pos out(2,1)] by simp
  moreover have "UnixMilli now < UnixMilli (ie_now ev) + ?ttl"
    using deadline_ms [OF exp] issued(2) ttl(2) by simp
  ultimately have "RevocationCheck R True None now (iw_redis w2) sid = Inr True"
    using later(2) out(2) by (auto simp: denied_def RevocationCheck_def)
  with Verify_ok(5) [OF L c v] sign(2) out(2) \<open>c = claims\<close> show False by simp
qed


section \<open>Concrete runs\<close>

definition demo_secret :: string where
  "demo_secret = replicate 32 (CHR ''k'')"

definition demo_signer :: Signer where
  "demo_signer = \<lparr>sg_secret = demo_secret, sg_issuer = ''shop'', sg_ttl = 900000000000\<rparr>"

definition demo_claims :: Claims where
  "demo_claims = \<lparr>cl_Subject = ''cust-1'', cl_Issuer = ''shop'', cl_IssuedAt = 0, cl_NotBefore = 0,
     cl_ExpiresAt = Some 900000000000, cl_ID = ''sess-1'', cl_Email = ''a@b.c'', cl_Roles = [''customer'']\<rparr>"

text \<open>A library that knows one token.\<close>

definition demo_jwt :: jwt where
  "demo_jwt = \<lparr>jwt_Sign = (\<lambda>key c. if key = demo_secret \<and> c = demo_claims then Some ''tok'' else None),
     jwt_Parse = (\<lambda>kf ms iss req now tok. if tok = ''tok'' \<and> ''HS256'' \<in> set ms \<and> kf ''HS256'' = Inr demo_secret \<and>
         iss = ''shop'' \<and> 0 \<le> now \<and> now < 900000000000 then Some demo_claims else None),
     jwt_Valid = (\<lambda>alg key tok c. alg = ''HS256'' \<and> key = demo_secret \<and> tok = ''tok'' \<and> c = demo_claims)\<rparr>"

lemma demo_jwt_ok: "jwt_ok demo_jwt"
  by (auto simp: jwt_ok_def jwt_checks_def jwt_accepts_def jwt_signs_def jwt_payload_def demo_jwt_def demo_claims_def
      split: if_splits)

definition demo_user :: User where
  "demo_user = \<lparr>u_CustomerID = ''cust-1'', u_Email = ''a@b.c'', u_PasswordHash = ''correct horse'',
     u_Roles = [''customer''], u_CreatedAt = 0\<rparr>"

definition demo_libs :: libs where
  "demo_libs = \<lparr>bc_Generate = (\<lambda>salt pw cost. if length pw > 72 then None else Some pw), bc_Compare = (\<lambda>h pw. h = pw),
     enc_user = table_enc [(demo_user, ''u'')], dec_user = table_dec [(demo_user, ''u'')],
     hashToken = id, lower = map ascii_lower\<rparr>"

lemma demo_libs_ok: "bcrypt_ok demo_libs" "codec_ok (enc_user demo_libs) (dec_user demo_libs)"
proof -
  show "bcrypt_ok demo_libs" by (auto simp: bcrypt_ok_def demo_libs_def split: if_splits)
  have "codec_ok (table_enc [(demo_user, ''u'')]) (table_dec [(demo_user, ''u'')])" by (rule table_codec_ok) simp_all
  then show "codec_ok (enc_user demo_libs) (dec_user demo_libs)" by (simp add: demo_libs_def)
qed

definition demo_service :: id_service where
  "demo_service = identity_NewService demo_signer 0"

definition id_up :: "int \<Rightarrow> string \<Rightarrow> id_env" where
  "id_up now refreshToken = \<lparr>ie_now = now, ie_call = (\<lambda>_. ok_call now), ie_setErr = None, ie_setRan = True, ie_takeErr = None,
     ie_takeRan = True, ie_customerID = ''cust-1'', ie_sessionID = ''sess-1'', ie_refreshToken = refreshToken, ie_salt = ''''\<rparr>"

definition demo_id_world :: "map_server id_world" where
  "demo_id_world = \<lparr>iw_db = NewStore ''n'', iw_redis = (\<lambda>k. None)\<rparr>"

lemma demo_email: "normalizeEmail demo_libs ''a@b.c'' = Inr ''a@b.c''"
proof -
  have trim: "TrimSpace ''a@b.c'' = ''a@b.c''"
    by (simp add: TrimSpace_def trim_front.simps space_encodings_def)
  show ?thesis
    by (simp add: normalizeEmail_def trim demo_libs_def ascii_lower_def is_upper_def less_eq_char_def IndexByte_def Let_def)
qed

lemma demo_issue:
  "signer_Issue demo_jwt demo_signer 0 ''cust-1'' ''a@b.c'' [''customer''] ''sess-1'' = Inr (''tok'', demo_claims)"
  by (simp add: signer_Issue_def demo_jwt_def demo_signer_def demo_claims_def NewNumericDate_def)

text \<open>A library that signs everything.\<close>

definition open_jwt :: jwt where
  "open_jwt = demo_jwt\<lparr>jwt_Sign := (\<lambda>_ _. Some ''tok'')\<rparr>"

lemma demo_issue_ok:
  "\<exists>tokens. issue open_jwt demo_libs map_redis demo_service (id_up now rt) u w =
     (Inr tokens, w\<lparr>iw_redis := new_session demo_libs map_redis demo_service (id_up now rt) (u_CustomerID u) (iw_redis w)\<rparr>)"
  by (simp add: issue_def signer_Issue_def open_jwt_def id_up_def new_session_def Let_def)

lemma demo_put: "\<exists>x db'. db_Put (ok_call 0) k raw db = (Inr x, db')"
  by (simp add: db_Put_def db_PutWithTTL_def rpc_put_def ok_call_def case_prod_unfold Let_def)

lemma demo_register:
  "\<exists>tokens w'. Register open_jwt demo_libs map_redis demo_service (id_up 0 ''r1'') ''a@b.c'' ''correct horse'' demo_id_world =
     (Inr tokens, w')"
proof -
  let ?ev = "id_up 0 ''r1''"
  have lk: "lookupByEmail demo_libs ?ev ''a@b.c'' (NewStore ''n'') = Inr None"
    by (simp add: lookupByEmail_def db_Get_ok id_up_def ok_call_def store_Get_def NewStore_def)
  have gen: "bc_Generate demo_libs (ie_salt ?ev) ''correct horse'' (is_bcryptCost demo_service) = Some ''correct horse''"
    by (simp add: demo_libs_def)
  have u: "\<lparr>u_CustomerID = ie_customerID ?ev, u_Email = ''a@b.c'', u_PasswordHash = ''correct horse'',
     u_Roles = [''customer''], u_CreatedAt = ie_now ?ev\<rparr> = demo_user" by (simp add: id_up_def demo_user_def)
  obtain db1 where save: "saveUser demo_libs (ie_call ?ev WriteUser) demo_user (NewStore ''n'') = (None, db1)"
    using demo_put [of "userKeyPrefix @ ''cust-1''" "''u''" "NewStore ''n''"]
    by (auto simp: saveUser_def demo_libs_def table_enc_def id_up_def demo_user_def)
  obtain x db2 where idx: "db_Put (ie_call ?ev WriteEmail) (emailKeyPrefix @ ''a@b.c'') ''cust-1'' db1 = (Inr x, db2)"
    using demo_put by (fastforce simp: id_up_def)
  have "\<exists>tokens w'. issue open_jwt demo_libs map_redis demo_service ?ev demo_user w = (Inr tokens, w')" for w
    using demo_issue_ok by blast
  moreover have "u_CustomerID demo_user = ''cust-1''" by (simp add: demo_user_def)
  ultimately show ?thesis
    using lk gen save idx
    by (simp add: Register_def demo_email validatePassword_def demo_id_world_def u)
qed

theorem register_then_login_witness:
  "\<exists>tokens w' tk w''. Register open_jwt demo_libs map_redis demo_service (id_up 0 ''r1'')
       ''a@b.c'' ''correct horse'' demo_id_world = (Inr tokens, w') \<and>
     Login open_jwt demo_libs map_redis demo_service (id_up 1 ''r2'') ''a@b.c'' ''correct horse'' w' = (Inr tk, w'')"
proof -
  obtain tokens w' where reg: "Register open_jwt demo_libs map_redis demo_service (id_up 0 ''r1'')
       ''a@b.c'' ''correct horse'' demo_id_world = (Inr tokens, w')" using demo_register by blast
  have h: "ie_customerID (id_up 0 ''r1'') \<noteq> ''''" "ie_setErr (id_up 1 ''r2'') = None"
    "call_err (ie_call (id_up 1 ''r2'') ReadEmail) = None" "call_err (ie_call (id_up 1 ''r2'') ReadUser) = None"
    "\<forall>c. jwt_Sign open_jwt (sg_secret (is_signer demo_service)) c \<noteq> None"
    by (simp_all add: id_up_def ok_call_def open_jwt_def)
  obtain hash where "bc_Compare demo_libs hash ''correct horse''" and
    "if bc_Compare demo_libs hash ''correct horse''
     then \<exists>tk w''. Login open_jwt demo_libs map_redis demo_service (id_up 1 ''r2'') ''a@b.c'' ''correct horse'' w' = (Inr tk, w'') \<and>
            tk_Profile tk = tk_Profile tokens \<and> pf_CustomerID (tk_Profile tk) = ie_customerID (id_up 0 ''r1'')
     else Login open_jwt demo_libs map_redis demo_service (id_up 1 ''r2'') ''a@b.c'' ''correct horse'' w' = (Inl errInvalidCredentials, w')"
    using register_then_login [OF demo_libs_ok h(1) reg refl h(3,4,2,5)] by blast
  then show ?thesis using reg by auto
qed

text \<open>A database that holds the account, and a session for it.\<close>

definition session_world :: "map_server id_world" where
  "session_world = \<lparr>iw_db = snd (db_Put (ok_call 0) (userKeyPrefix @ ''cust-1'') ''u'' (NewStore ''n'')),
     iw_redis = new_session demo_libs map_redis demo_service (id_up 0 ''r1'') ''cust-1'' (\<lambda>k. None)\<rparr>"

lemma demo_session: "rd_Get map_redis (UnixMilli 1) (refreshPrefix @ ''r1'') (iw_redis session_world) = Some ''cust-1''"
  by (simp add: session_world_def new_session_def id_up_def demo_libs_def map_redis_def map_get_def UnixMilli_def
      demo_service_def identity_NewService_def)

lemma demo_account: "loadUser demo_libs (ok_call 1) ''cust-1'' (iw_db session_world) = Inr (Some demo_user)"
proof -
  obtain x db where put: "db_Put (ok_call 0) (userKeyPrefix @ ''cust-1'') ''u'' (NewStore ''n'') = (Inr x, db)"
    using demo_put by blast
  obtain e where "s_data db (userKeyPrefix @ ''cust-1'') = Some e" "e_Value e = ''u''" "e_ExpiresAt e = 0"
    using db_Put_effect(2) [OF put] by blast
  then show ?thesis
    using put
    by (simp add: loadUser_def session_world_def db_Get_ok ok_call_def store_Get_def Expired_def demo_libs_def table_dec_def)
qed

lemma demo_refresh:
  "\<exists>tokens w'. Refresh open_jwt demo_libs map_redis demo_service (id_up 1 ''r2'') ''r1'' session_world = (Inr tokens, w')"
proof -
  let ?r = "rd_Del map_redis (refreshPrefix @ ''r1'') (iw_redis session_world)"
  obtain tokens where "issue open_jwt demo_libs map_redis demo_service (id_up 1 ''r2'') demo_user (session_world\<lparr>iw_redis := ?r\<rparr>) =
     (Inr tokens, session_world\<lparr>iw_redis := new_session demo_libs map_redis demo_service (id_up 1 ''r2'') (u_CustomerID demo_user) ?r\<rparr>)"
    using demo_issue_ok [of 1 "''r2''" demo_user "session_world\<lparr>iw_redis := ?r\<rparr>"] by auto
  moreover have "hashToken demo_libs ''r1'' = ''r1''" "ie_now (id_up 1 ''r2'') = 1" "ie_takeErr (id_up 1 ''r2'') = None"
    "ie_call (id_up 1 ''r2'') ReadUser = ok_call 1" by (simp_all add: demo_libs_def id_up_def)
  ultimately show ?thesis
    by (simp add: Refresh_def redis_okD(6) [OF map_redis_ok] demo_session demo_account Let_def)
qed

theorem refresh_token_single_use_witness:
  "\<exists>tokens w'. Refresh open_jwt demo_libs map_redis demo_service (id_up 1 ''r2'') ''r1'' session_world = (Inr tokens, w') \<and>
     \<not> is_ok (fst (Refresh open_jwt demo_libs map_redis demo_service (id_up 2 ''r3'') ''r1'' w'))"
proof -
  obtain tokens w' where used: "Refresh open_jwt demo_libs map_redis demo_service (id_up 1 ''r2'') ''r1'' session_world = (Inr tokens, w')"
    using demo_refresh by blast
  have "hashToken demo_libs (ie_refreshToken (id_up 1 ''r2'')) \<noteq> hashToken demo_libs ''r1''"
    by (simp add: demo_libs_def id_up_def)
  from refresh_token_single_use [OF map_redis_ok used this rtranclp.rtrancl_refl] used show ?thesis by blast
qed

theorem logout_final_witness:
  "\<exists>w'. Logout demo_libs map_redis demo_service (id_up 1 ''r2'') ''sess-1'' ''r1'' session_world = (None, w') \<and>
     Verify demo_jwt (WithRevocationCheck (RevocationCheck map_redis True None 2 (iw_redis w'))
        \<lparr>vf_secret = demo_secret, vf_issuer = ''shop'', vf_revoked = None\<rparr>) 2 ''tok'' = Inl ErrUnauthenticated"
proof -
  let ?v = "\<lambda>w'. WithRevocationCheck (RevocationCheck map_redis True None 2 (iw_redis w'))
        \<lparr>vf_secret = demo_secret, vf_issuer = ''shop'', vf_revoked = None\<rparr>"
  obtain w' where out: "Logout demo_libs map_redis demo_service (id_up 1 ''r2'') ''sess-1'' ''r1'' session_world = (None, w')"
    by (simp add: Logout_def id_up_def Let_def)
  have s: "is_signer demo_service = demo_signer" by (simp add: demo_service_def identity_NewService_def)
  have "Verify demo_jwt (?v w') 2 ''tok'' = Inl ErrUnauthenticated"
    by (rule logout_final [OF demo_jwt_ok map_redis_ok _ _ demo_issue [folded s] _ out _ rtranclp.rtrancl_refl])
      (simp_all add: s demo_signer_def id_up_def WithRevocationCheck_def)
  with out show ?thesis by blast
qed


end
