(* ===== verification/Http_Headers.thy ===== *)
theory Http_Headers
  imports Go_Strings Httpx_Errors
begin

text \<open>
  The parts of Go's \<open>net/http\<close>, \<open>net\<close> and \<open>net/http/httputil\<close> the gateway and the middleware use:
  request headers, host and port of an address, and the headers a reverse proxy sends on. A
  header maps a canonical name to its values, no values for one that is absent.
\<close>

type_synonym header = "string \<Rightarrow> string list"

record Request =
  rq_Method :: string
  rq_Path :: string
  rq_Host :: string
  rq_RemoteAddr :: string
  rq_TLS :: bool
  rq_Header :: header

definition header_Get :: "header \<Rightarrow> string \<Rightarrow> string" where
  "header_Get h k = (case h k of [] \<Rightarrow> '''' | v # vs \<Rightarrow> v)"

definition header_Set :: "string \<Rightarrow> string \<Rightarrow> header \<Rightarrow> header" where
  "header_Set k v h = h(k := [v])"

definition header_Del :: "string \<Rightarrow> header \<Rightarrow> header" where
  "header_Del k h = h(k := [])"

lemma header_simps [simp]:
  "header_Get (header_Set k v h) k = v" "k \<noteq> k' \<Longrightarrow> header_Set k v h k' = h k'" "header_Set k v h k = [v]"
  "k \<noteq> k' \<Longrightarrow> header_Del k h k' = h k'" "header_Del k h k = []"
  by (simp_all add: header_Get_def header_Set_def header_Del_def)

section \<open>Addresses\<close>

text \<open>The host of \<open>net.SplitHostPort\<close>, \<open>None\<close> for its errors.\<close>

definition SplitHostPort :: "string \<Rightarrow> string option" where
  "SplitHostPort hp =
     (let i = LastIndexByte hp (CHR '':''); e = IndexByte hp (CHR '']'')
      in if i < 0 then None
         else if hd hp = CHR ''[''
         then (if e < 0 \<or> e + 1 \<noteq> i then None
               else if CHR ''['' \<in> set (drop 1 hp) \<or> CHR '']'' \<in> set (drop (nat e + 1) hp) then None
               else Some (take (nat e - 1) (drop 1 hp)))
         else (let host = take (nat i) hp
               in if CHR '':'' \<in> set host \<or> CHR ''['' \<in> set hp \<or> CHR '']'' \<in> set hp then None else Some host))"

section \<open>Proxied headers\<close>

text \<open>\<open>textproto.CanonicalMIMEHeaderKey\<close>.\<close>

definition token_char :: "char \<Rightarrow> bool" where
  "token_char c \<longleftrightarrow> is_alnum c \<or> c \<in> set ''!#$%&*+-.^_|~'' \<or> c = CHR 0x27 \<or> c = CHR 0x60"

fun canon :: "bool \<Rightarrow> string \<Rightarrow> string" where
  "canon up [] = []"
| "canon up (c # cs) =
     (if up \<and> is_lower c then char_of (of_char c - 32 :: nat)
      else if \<not> up \<and> is_upper c then char_of (of_char c + 32 :: nat) else c) # canon (c = CHR ''-'') cs"

definition CanonicalHeaderKey :: "string \<Rightarrow> string" where
  "CanonicalHeaderKey k = (if list_all token_char k then canon True k else k)"

fun Split :: "char \<Rightarrow> string \<Rightarrow> string list" where
  "Split sep [] = [[]]"
| "Split sep (c # cs) =
     (if c = sep then [] # Split sep cs
      else (case Split sep cs of [] \<Rightarrow> [[c]] | w # ws \<Rightarrow> (c # w) # ws))"

fun Join :: "string \<Rightarrow> string list \<Rightarrow> string" where
  "Join sep [] = []"
| "Join sep [w] = w"
| "Join sep (w # ws) = w @ sep @ Join sep ws"

lemma Split_nonempty: "Split sep s \<noteq> []"
  by (induction s) (auto split: list.splits)

lemma Split_word: "sep \<notin> set w \<Longrightarrow> Split sep w = [w]"
  by (induction w) auto

lemma Split_word_sep: "sep \<notin> set w \<Longrightarrow> Split sep (w @ sep # s) = w # Split sep s"
  by (induction w) auto

lemma Split_Join: "ws \<noteq> [] \<Longrightarrow> \<forall>w \<in> set ws. sep \<notin> set w \<Longrightarrow> Split sep (Join [sep] ws) = ws"
proof (induction "[sep]" ws rule: Join.induct)
  case (3 w v ws)
  then show ?case by (simp add: Split_word_sep)
qed (simp_all add: Split_word)

text \<open>\<open>textproto.TrimString\<close>.\<close>

definition TrimString :: "string \<Rightarrow> string" where
  "TrimString s = (let sp = (\<lambda>c. c = CHR '' '' \<or> c = CHR 0x09 \<or> c = CHR 0x0A \<or> c = CHR 0x0D)
                   in rev (dropWhile sp (rev (dropWhile sp s))))"

definition hop_headers :: "string list" where
  "hop_headers = [''Connection'', ''Proxy-Connection'', ''Keep-Alive'', ''Proxy-Authenticate'', ''Proxy-Authorization'',
     ''Te'', ''Trailer'', ''Transfer-Encoding'', ''Upgrade'']"

text \<open>The names a request lists as its own hop's.\<close>

definition connection_names :: "header \<Rightarrow> string list" where
  "connection_names h =
     map CanonicalHeaderKey (filter (\<lambda>t. t \<noteq> '''') (concat (map (\<lambda>v. map TrimString (Split (CHR '','') v)) (h ''Connection''))))"

definition removeHopByHopHeaders :: "header \<Rightarrow> header" where
  "removeHopByHopHeaders h = fold header_Del hop_headers (fold header_Del (connection_names h) h)"

text \<open>\<open>ReverseProxy.ServeHTTP\<close> up to its \<open>Rewrite\<close>, apart from a change of protocol, which adds
  \<open>Te\<close>, \<open>Connection\<close> and \<open>Upgrade\<close> again.\<close>

definition proxy_inbound :: "header \<Rightarrow> header" where
  "proxy_inbound h =
     fold header_Del [''Forwarded'', ''X-Forwarded-For'', ''X-Forwarded-Host'', ''X-Forwarded-Proto''] (removeHopByHopHeaders h)"

definition SetXForwarded :: "Request \<Rightarrow> header \<Rightarrow> header" where
  "SetXForwarded r out =
     header_Set ''X-Forwarded-Proto'' (if rq_TLS r then ''https'' else ''http'')
       (header_Set ''X-Forwarded-Host'' (rq_Host r)
          (case SplitHostPort (rq_RemoteAddr r) of
             None \<Rightarrow> header_Del ''X-Forwarded-For'' out
           | Some ip \<Rightarrow> header_Set ''X-Forwarded-For'' (if out ''X-Forwarded-For'' = [] then ip
               else concat (map (\<lambda>v. v @ '', '') (out ''X-Forwarded-For'')) @ ip) out))"

section \<open>Paths\<close>

text \<open>The multiplexer's \<open>cleanPath\<close>: no empty, dot or dot-dot segments, a final slash kept.\<close>

fun clean_segments :: "string list \<Rightarrow> string list \<Rightarrow> string list" where
  "clean_segments stack [] = rev stack"
| "clean_segments stack (w # ws) =
     (if w = '''' \<or> w = ''.'' then clean_segments stack ws
      else if w = ''..'' then clean_segments (tl stack) ws
      else clean_segments (w # stack) ws)"

definition cleanPath :: "string \<Rightarrow> string" where
  "cleanPath p =
     (let np = CHR ''/'' # Join ''/'' (clean_segments [] (Split (CHR ''/'') p))
      in if p \<noteq> '''' \<and> List.last p = CHR ''/'' \<and> np \<noteq> ''/'' then np @ ''/'' else np)"

lemma fold_Del: "fold header_Del ks h k = (if k \<in> set ks then [] else h k)"
  by (induction ks arbitrary: h) (auto simp: header_Del_def)

lemma proxy_inbound_kept:
  "proxy_inbound h k = (if k \<in> set (connection_names h) \<or> k \<in> set hop_headers \<or>
      k \<in> {''Forwarded'', ''X-Forwarded-For'', ''X-Forwarded-Host'', ''X-Forwarded-Proto''} then [] else h k)"
  unfolding proxy_inbound_def removeHopByHopHeaders_def fold_Del by auto

lemma SetXForwarded_other:
  "k \<notin> {''X-Forwarded-For'', ''X-Forwarded-Host'', ''X-Forwarded-Proto''} \<Longrightarrow> SetXForwarded r out k = out k"
  by (auto simp: SetXForwarded_def split: option.split)

end
