(* ===== verification/Mux.thy ===== *)
theory Mux
  imports Http_Headers
begin

text \<open>
  The request multiplexer of Go's \<open>net/http\<close> (patterns with methods and wildcards), the wrapper
  \<^verbatim>\<open>src/internal/httpx/router.go\<close> puts around it, and the tables of routes the services register.
  Registering two patterns that conflict panics, which is the value \<open>None\<close> here.
\<close>

section \<open>Patterns\<close>

datatype segment = Lit string | Wild string | Multi

record pattern =
  pt_Method :: string
  pt_Segs :: "segment list"

definition seg_of :: "string \<Rightarrow> segment" where
  "seg_of w = (if w \<noteq> '''' \<and> hd w = CHR ''{'' \<and> List.last w = CHR ''}'' then Wild (butlast (tl w)) else Lit w)"

fun segs_of :: "string list \<Rightarrow> segment list" where
  "segs_of [] = []"
| "segs_of [w] = (if w = '''' then [Multi] else [seg_of w])"
| "segs_of (w # ws) = seg_of w # segs_of ws"

definition parsePattern :: "string \<Rightarrow> pattern" where
  "parsePattern s =
     (let method = takeWhile (\<lambda>c. c \<noteq> CHR '' '') s; rest = dropWhile (\<lambda>c. c \<noteq> CHR '' '') s
      in if rest = '''' then \<lparr>pt_Method = '''', pt_Segs = segs_of (Split (CHR ''/'') (tl s))\<rparr>
         else \<lparr>pt_Method = method, pt_Segs = segs_of (Split (CHR ''/'') (tl (tl rest)))\<rparr>)"

text \<open>How two patterns relate: by what they match, segment by segment.\<close>

datatype relationship = Equivalent | MoreGeneral | MoreSpecific | Disjoint | Overlaps

fun inverseRelationship :: "relationship \<Rightarrow> relationship" where
  "inverseRelationship MoreSpecific = MoreGeneral"
| "inverseRelationship MoreGeneral = MoreSpecific"
| "inverseRelationship r = r"

definition combineRelationships :: "relationship \<Rightarrow> relationship \<Rightarrow> relationship" where
  "combineRelationships r1 r2 =
     (if r1 = Equivalent then r2
      else if r1 = Disjoint then Disjoint
      else if r1 = Overlaps then (if r2 = Disjoint then Disjoint else Overlaps)
      else if r2 = Equivalent then r1
      else if r2 = inverseRelationship r1 then Overlaps
      else r2)"

fun compareSegments :: "segment \<Rightarrow> segment \<Rightarrow> relationship" where
  "compareSegments Multi Multi = Equivalent"
| "compareSegments Multi s = MoreGeneral"
| "compareSegments s Multi = MoreSpecific"
| "compareSegments (Wild a) (Wild b) = Equivalent"
| "compareSegments (Wild a) (Lit b) = (if b = ''/'' then Disjoint else MoreGeneral)"
| "compareSegments (Lit a) (Wild b) = (if a = ''/'' then Disjoint else MoreSpecific)"
| "compareSegments (Lit a) (Lit b) = (if a = b then Equivalent else Disjoint)"

definition ends_multi :: "segment list \<Rightarrow> bool" where
  "ends_multi ss \<longleftrightarrow> ss \<noteq> [] \<and> List.last ss = Multi"

fun compare_loop :: "bool \<Rightarrow> bool \<Rightarrow> relationship \<Rightarrow> segment list \<Rightarrow> segment list \<Rightarrow> relationship" where
  "compare_loop m1 m2 rel [] [] = rel"
| "compare_loop m1 m2 rel [] (s # ss) = (if m1 then combineRelationships rel MoreGeneral else Disjoint)"
| "compare_loop m1 m2 rel (s # ss) [] = (if m2 then combineRelationships rel MoreSpecific else Disjoint)"
| "compare_loop m1 m2 rel (s # ss) (t # ts) =
     (let rel' = combineRelationships rel (compareSegments s t)
      in if rel' = Disjoint then Disjoint else compare_loop m1 m2 rel' ss ts)"

definition comparePaths :: "segment list \<Rightarrow> segment list \<Rightarrow> relationship" where
  "comparePaths ss ts =
     (if length ss \<noteq> length ts \<and> \<not> ends_multi ss \<and> \<not> ends_multi ts then Disjoint
      else compare_loop (ends_multi ss) (ends_multi ts) Equivalent ss ts)"

definition compareMethods :: "string \<Rightarrow> string \<Rightarrow> relationship" where
  "compareMethods m n =
     (if m = n then Equivalent
      else if m = '''' then MoreGeneral
      else if n = '''' then MoreSpecific
      else if m = ''GET'' \<and> n = ''HEAD'' then MoreGeneral
      else if m = ''HEAD'' \<and> n = ''GET'' then MoreSpecific
      else Disjoint)"

definition comparePathsAndMethods :: "pattern \<Rightarrow> pattern \<Rightarrow> relationship" where
  "comparePathsAndMethods p q =
     (let mrel = compareMethods (pt_Method p) (pt_Method q)
      in if mrel = Disjoint then Disjoint else combineRelationships mrel (comparePaths (pt_Segs p) (pt_Segs q)))"

definition conflictsWith :: "pattern \<Rightarrow> pattern \<Rightarrow> bool" where
  "conflictsWith p q \<longleftrightarrow> comparePathsAndMethods p q \<in> {Equivalent, Overlaps}"

section \<open>Matching\<close>

text \<open>\<open>url.PathUnescape\<close>; a malformed escape leaves the segment as it is.\<close>

definition unhex :: "char \<Rightarrow> nat option" where
  "unhex c =
     (let n = of_char c :: nat
      in if 48 \<le> n \<and> n \<le> 57 then Some (n - 48) else if 97 \<le> n \<and> n \<le> 102 then Some (n - 87)
         else if 65 \<le> n \<and> n \<le> 70 then Some (n - 55) else None)"

fun unescape :: "string \<Rightarrow> string option" where
  "unescape [] = Some []"
| "unescape (c # s) =
     (if c = CHR ''%''
      then (case s of
              h # l # rest \<Rightarrow>
                (case (unhex h, unhex l) of
                   (Some a, Some b) \<Rightarrow> map_option (\<lambda>t. char_of (16 * a + b) # t) (unescape rest)
                 | _ \<Rightarrow> None)
            | _ \<Rightarrow> None)
      else map_option ((#) c) (unescape s))"

definition pathUnescape :: "string \<Rightarrow> string" where
  "pathUnescape s = (case unescape s of Some t \<Rightarrow> t | None \<Rightarrow> s)"

lemma pathUnescape_plain: "CHR ''%'' \<notin> set s \<Longrightarrow> pathUnescape s = s"
proof -
  have "CHR ''%'' \<notin> set s \<Longrightarrow> unescape s = Some s" by (induction s) auto
  then show "CHR ''%'' \<notin> set s \<Longrightarrow> pathUnescape s = s" by (simp add: pathUnescape_def)
qed

text \<open>The segments of a request's path; a final slash is a segment of its own.\<close>

fun path_tail :: "string list \<Rightarrow> string list" where
  "path_tail [] = []"
| "path_tail [w] = (if w = '''' then [''/''] else [pathUnescape w])"
| "path_tail (w # ws) = pathUnescape w # path_tail ws"

definition path_segs :: "string \<Rightarrow> string list" where
  "path_segs path = path_tail (Split (CHR ''/'') (tl path))"

definition under_lit :: "string \<Rightarrow> (segment list \<times> 'h) list \<Rightarrow> (segment list \<times> 'h) list" where
  "under_lit w t = List.map_filter (\<lambda>(ss, h). case ss of Lit x # rest \<Rightarrow> if x = w then Some (rest, h) else None | _ \<Rightarrow> None) t"

definition under_wild :: "(segment list \<times> 'h) list \<Rightarrow> (segment list \<times> 'h) list" where
  "under_wild t = List.map_filter (\<lambda>(ss, h). case ss of Wild x # rest \<Rightarrow> Some (rest, h) | _ \<Rightarrow> None) t"

definition leaf :: "segment list \<Rightarrow> (segment list \<times> 'h) list \<Rightarrow> 'h option" where
  "leaf ss t = map_of t ss"

text \<open>\<open>matchPath\<close>: a literal segment first, then a wildcard, then the rest of the path, each with the
  values the wildcards took.\<close>

fun matchPath :: "(segment list \<times> 'h) list \<Rightarrow> string list \<Rightarrow> ('h \<times> string list) option" where
  "matchPath t [] = map_option (\<lambda>h. (h, [])) (leaf [] t)"
| "matchPath t (w # ws) =
     (if t = [] then None
      else (case matchPath (under_lit w t) ws of
              Some m \<Rightarrow> Some m
            | None \<Rightarrow>
                (case (if w = ''/'' then None else matchPath (under_wild t) ws) of
                   Some (h, vals) \<Rightarrow> Some (h, w # vals)
                 | None \<Rightarrow> map_option (\<lambda>h. (h, [])) (leaf [Multi] t))))"

definition with_method :: "string \<Rightarrow> (pattern \<times> 'h) list \<Rightarrow> (segment list \<times> 'h) list" where
  "with_method m t = map (\<lambda>(p, h). (pt_Segs p, h)) (filter (\<lambda>(p, h). pt_Method p = m) t)"

definition mux_match :: "(pattern \<times> 'h) list \<Rightarrow> string \<Rightarrow> string \<Rightarrow> ('h \<times> string list) option" where
  "mux_match t method path =
     (case matchPath (with_method method t) (path_segs path) of
        Some m \<Rightarrow> Some m
      | None \<Rightarrow>
          (case (if method = ''HEAD'' then matchPath (with_method ''GET'' t) (path_segs path) else None) of
             Some m \<Rightarrow> Some m
           | None \<Rightarrow> matchPath (with_method '''' t) (path_segs path)))"

section \<open>The router\<close>

text \<open>What a route does: the answer of the catch-all, the probe's, or a handler by name.\<close>

datatype endpoint = Unmatched | ProbeOK | Endpoint string

record Router =
  ro_mux :: "(pattern \<times> endpoint) list"
  ro_routes :: "string list"

definition mux_Handle :: "string \<Rightarrow> endpoint \<Rightarrow> (pattern \<times> endpoint) list \<Rightarrow> (pattern \<times> endpoint) list option" where
  "mux_Handle s h t =
     (let p = parsePattern s in if list_ex (\<lambda>(q, g). conflictsWith p q) t then None else Some (t @ [(p, h)]))"

definition NewRouter :: Router where
  "NewRouter = \<lparr>ro_mux = [(parsePattern ''/'', Unmatched)], ro_routes = []\<rparr>"

text \<open>\<open>Handle\<close>, \<open>HandleRaw\<close> and \<open>Probe\<close> register alike; they differ in the handler.\<close>

definition HandleRaw :: "string \<Rightarrow> endpoint \<Rightarrow> Router \<Rightarrow> Router option" where
  "HandleRaw s h rt =
     (case mux_Handle s h (ro_mux rt) of
        None \<Rightarrow> None
      | Some t \<Rightarrow> Some (rt\<lparr>ro_routes := ro_routes rt @ [s], ro_mux := t\<rparr>))"

definition router_Handle_fn :: "string \<Rightarrow> string \<Rightarrow> Router \<Rightarrow> Router option" where
  "router_Handle_fn s name = HandleRaw s (Endpoint name)"

definition Probe :: "string \<Rightarrow> Router \<Rightarrow> Router option" where
  "Probe s = HandleRaw s ProbeOK"

definition routeLabel :: "string \<Rightarrow> string" where
  "routeLabel s =
     (let idx = IndexByte s (CHR '' '') in if 0 \<le> idx then TrimSpace (drop (nat (idx + 1)) s) else s)"

fun register :: "(Router \<Rightarrow> Router option) list \<Rightarrow> Router \<Rightarrow> Router option" where
  "register [] rt = Some rt"
| "register (f # fs) rt = (case f rt of None \<Rightarrow> None | Some rt' \<Rightarrow> register fs rt')"

text \<open>An unclean path is answered with a redirect to the clean one, except for \<open>CONNECT\<close>, whose path is
  matched as it is; an empty one is redirected to the catch-all that every router has.\<close>

datatype dispatched = Redirect string | Serve endpoint "string list"

definition dispatch :: "Router option \<Rightarrow> string \<Rightarrow> string \<Rightarrow> dispatched option" where
  "dispatch rt method path =
     (case rt of
        None \<Rightarrow> None
      | Some r \<Rightarrow>
          (if method = ''CONNECT'' \<and> path = '''' then Some (Redirect ''/'')
           else if method \<noteq> ''CONNECT'' \<and> cleanPath path \<noteq> path then Some (Redirect (cleanPath path))
           else map_option (\<lambda>(h, vals). Serve h vals) (mux_match (ro_mux r) method path)))"

section \<open>The tables of the services\<close>

definition cart_Routes :: "Router option" where
  "cart_Routes = register
     [Probe ''GET /shopping-cart/health'',
      router_Handle_fn ''POST /shopping-cart'' ''handleCreate'',
      router_Handle_fn ''GET /shopping-cart/{cartId}'' ''handleGet'',
      router_Handle_fn ''POST /shopping-cart/{cartId}/add-item'' ''handleAddItem'',
      router_Handle_fn ''POST /shopping-cart/{cartId}/checkout'' ''handleCheckout''] NewRouter"

definition order_Routes :: "Router option" where
  "order_Routes = register
     [Probe ''GET /orders/health'',
      router_Handle_fn ''GET /orders'' ''handleList'',
      router_Handle_fn ''GET /orders/{orderId}'' ''handleGet'',
      router_Handle_fn ''POST /orders/{orderId}/cancel'' ''handleCancel''] NewRouter"

definition kv_Routes :: "Router option" where
  "kv_Routes = register
     [Probe ''GET /health'',
      router_Handle_fn ''GET /kv'' ''handleRead'',
      router_Handle_fn ''PUT /kv'' ''handleWrite'',
      router_Handle_fn ''POST /kv'' ''handleWrite'',
      router_Handle_fn ''GET /kv/local'' ''handleLocalRead'',
      router_Handle_fn ''GET /kv/scan'' ''handleScan'',
      router_Handle_fn ''GET /kv/stats'' ''handleStats'',
      router_Handle_fn ''PUT /internal/kv'' ''handleReplicate'',
      router_Handle_fn ''GET /internal/kv'' ''handleInternalRead'',
      router_Handle_fn ''GET /internal/kv/scan'' ''handleInternalScan'',
      router_Handle_fn ''POST /db/begin_transaction'' ''handleBegin'',
      router_Handle_fn ''POST /db/end_transaction'' ''handleEnd'',
      router_Handle_fn ''POST /db/abort_transaction'' ''handleAbort''] NewRouter"

definition warehouse_Routes :: "Router option" where
  "warehouse_Routes = register
     [Probe ''GET /warehouse/health'',
      router_Handle_fn ''GET /warehouse/stats'' ''handleStats'',
      router_Handle_fn ''GET /warehouse/inventory/{productId}'' ''handleInventory'',
      router_Handle_fn ''POST /warehouse/reserve'' ''handleReserve'',
      router_Handle_fn ''POST /warehouse/release'' ''handleRelease''] NewRouter"

definition cca_Routes :: "Router option" where
  "cca_Routes = register
     [Probe ''GET /credit-card-authorizer/health'',
      router_Handle_fn ''POST /credit-card-authorizer/authorize'' ''handleAuthorize''] NewRouter"

definition identity_Routes :: "Router option" where
  "identity_Routes = register
     [Probe ''GET /identity/health'',
      router_Handle_fn ''POST /identity/register'' ''handleRegister'',
      router_Handle_fn ''POST /identity/login'' ''handleLogin'',
      router_Handle_fn ''POST /identity/refresh'' ''handleRefresh'',
      router_Handle_fn ''POST /identity/logout'' ''handleLogout'',
      router_Handle_fn ''GET /identity/me'' ''handleMe''] NewRouter"

definition notification_Routes :: "Router option" where
  "notification_Routes = register
     [Probe ''GET /notifications/health'', router_Handle_fn ''GET /notifications'' ''handleInbox''] NewRouter"

definition product_Routes :: "Router option" where
  "product_Routes = register
     [Probe ''GET /product/health'',
      router_Handle_fn ''GET /product/{productId}'' ''handleGet'',
      router_Handle_fn ''PUT /product/{productId}'' ''handlePut''] NewRouter"


section \<open>The most specific pattern serves a request\<close>

fun matches :: "segment list \<Rightarrow> string list \<Rightarrow> bool" where
  "matches [] ws = (ws = [])"
| "matches (Multi # ss) ws = (ss = [] \<and> ws \<noteq> [])"
| "matches (Lit x # ss) ws = (case ws of [] \<Rightarrow> False | w # ws' \<Rightarrow> x = w \<and> matches ss ws')"
| "matches (Wild x # ss) ws = (case ws of [] \<Rightarrow> False | w # ws' \<Rightarrow> w \<noteq> ''/'' \<and> matches ss ws')"

definition handles :: "string \<Rightarrow> string \<Rightarrow> bool" where
  "handles m method \<longleftrightarrow> m = method \<or> m = '''' \<or> (m = ''GET'' \<and> method = ''HEAD'')"

definition pattern_matches :: "pattern \<Rightarrow> string \<Rightarrow> string \<Rightarrow> bool" where
  "pattern_matches p method path \<longleftrightarrow> handles (pt_Method p) method \<and> matches (pt_Segs p) (path_segs path)"

text \<open>The order in which \<open>matchPath\<close> prefers patterns that both match.\<close>

fun wins :: "segment list \<Rightarrow> segment list \<Rightarrow> bool" where
  "wins (Lit x # ss) (Lit y # ts) = wins ss ts"
| "wins (Wild x # ss) (Wild y # ts) = wins ss ts"
| "wins (Lit x # ss) ts = True"
| "wins (Wild x # ss) (Multi # ts) = True"
| "wins (Wild x # ss) ts = False"
| "wins (Multi # ss) (Multi # ts) = True"
| "wins (Multi # ss) ts = False"
| "wins [] ts = True"

lemma under_lit_mem: "(ss, h) \<in> set (under_lit w t) \<longleftrightarrow> (Lit w # ss, h) \<in> set t"
  by (induction t) (auto simp: under_lit_def List.map_filter_simps split: list.splits segment.splits if_splits option.splits)

lemma under_wild_mem: "(ss, h) \<in> set (under_wild t) \<longleftrightarrow> (\<exists>x. (Wild x # ss, h) \<in> set t)"
  by (induction t) (auto simp: under_wild_def List.map_filter_simps split: list.splits segment.splits option.splits)

lemma leaf_mem: "(ss, h) \<in> set t \<Longrightarrow> \<exists>h'. leaf ss t = Some h' \<and> (ss, h') \<in> set t"
  unfolding leaf_def by (metis map_of_SomeD weak_map_of_SomeI)

lemma matches_Cons:
  "matches ss (w # ws) \<longleftrightarrow>
     (\<exists>rest. ss = Lit w # rest \<and> matches rest ws) \<or> (\<exists>x rest. ss = Wild x # rest \<and> w \<noteq> ''/'' \<and> matches rest ws) \<or> ss = [Multi]"
  by (cases ss; cases "hd ss") auto

text \<open>\<open>best t ws ss\<close>: the pattern \<open>ss\<close> of the table matches and wins against all that match.\<close>

definition best :: "(segment list \<times> 'h) list \<Rightarrow> string list \<Rightarrow> segment list \<Rightarrow> bool" where
  "best t ws ss \<longleftrightarrow> matches ss ws \<and> (\<forall>ts g. (ts, g) \<in> set t \<and> matches ts ws \<longrightarrow> wins ss ts)"

lemma matchPath_best:
  "(case matchPath t ws of
      None \<Rightarrow> \<forall>ss h. (ss, h) \<in> set t \<longrightarrow> \<not> matches ss ws
    | Some (h, vals) \<Rightarrow> \<exists>ss. (ss, h) \<in> set t \<and> best t ws ss)"
proof (induction ws arbitrary: t)
  case Nil
  have none: "matches ss [] \<Longrightarrow> ss = []" for ss by (cases ss; cases "hd ss") auto
  show ?case
  proof (cases "leaf [] t")
    case None
    then show ?thesis using leaf_mem [of "[]" _ t] none by (fastforce dest!: none)
  next
    case (Some h)
    then have "([], h) \<in> set t" by (simp add: leaf_def map_of_SomeD)
    with Some show ?thesis by (auto simp: best_def)
  qed
next
  case (Cons w ws)
  note lit = Cons.IH [of "under_lit w t"] and wild = Cons.IH [of "under_wild t"]
  show ?case
  proof (cases "matchPath (under_lit w t) ws")
    case (Some m)
    obtain h vals where m: "m = (h, vals)" by force
    obtain ss where ss: "(Lit w # ss, h) \<in> set t" "best (under_lit w t) ws ss"
      using lit Some m by (auto simp: under_lit_mem)
    have "wins (Lit w # ss) ts" if "(ts, g) \<in> set t" "matches ts (w # ws)" for ts g
      using that ss(2) by (auto simp: matches_Cons best_def under_lit_mem)
    then have "best t (w # ws) (Lit w # ss)" using ss(2) by (auto simp: best_def)
    with ss(1) Some m show ?thesis by auto
  next
    case None
    then have nolit: "\<not> matches ss ws" if "(Lit w # ss, h) \<in> set t" for ss h using lit that by (auto simp: under_lit_mem)
    show ?thesis
    proof (cases "if w = ''/'' then None else matchPath (under_wild t) ws")
      case (Some m)
      obtain h vals where m: "m = (h, vals)" by force
      have w: "w \<noteq> ''/''" using Some by (auto split: if_splits)
      obtain x ss where ss: "(Wild x # ss, h) \<in> set t" "best (under_wild t) ws ss"
        using wild Some m w by (auto simp: under_wild_mem)
      have "wins (Wild x # ss) ts" if "(ts, g) \<in> set t" "matches ts (w # ws)" for ts g
        using that ss(2) nolit by (auto simp: matches_Cons best_def under_wild_mem) blast
      then have "best t (w # ws) (Wild x # ss)" using ss(2) w by (auto simp: best_def)
      with ss(1) Some None m w show ?thesis by auto
    next
      case none: None
      have nowild: "\<not> (w \<noteq> ''/'' \<and> matches ss ws)" if "(Wild x # ss, h) \<in> set t" for x ss h
        using wild none that by (auto simp: under_wild_mem split: if_splits)
      have only: "ts = [Multi]" if "(ts, g) \<in> set t" "matches ts (w # ws)" for ts g
        using that nolit nowild by (auto simp: matches_Cons)
      show ?thesis
      proof (cases "leaf [Multi] t")
        case l: None
        have "\<not> matches ss (w # ws)" if "(ss, h) \<in> set t" for ss h
          using only [OF that] leaf_mem [of "[Multi]" h t] l that by auto
        with None none l show ?thesis by auto
      next
        case (Some h)
        then have "([Multi], h) \<in> set t" by (simp add: leaf_def map_of_SomeD)
        moreover have "best t (w # ws) [Multi]" unfolding best_def using only by fastforce
        ultimately show ?thesis using None none Some by (auto split: if_splits)
      qed
    qed
  qed
qed


lemma combine_cases:
  "r \<noteq> Disjoint \<Longrightarrow> q \<noteq> Disjoint \<Longrightarrow> combineRelationships r q \<noteq> Disjoint"
  "r \<in> {MoreSpecific, Overlaps} \<Longrightarrow> q \<noteq> Disjoint \<Longrightarrow> combineRelationships r q \<in> {MoreSpecific, Overlaps}"
  "combineRelationships Equivalent q = q"
  by (cases r; cases q; simp add: combineRelationships_def)+

lemma compareSegments_common:
  assumes "matches (s # ss) ws" and "matches (t # ts) ws"
  shows "compareSegments s t \<noteq> Disjoint"
  using assms by (cases s; cases t) (auto split: list.splits)

lemma compare_loop_common:
  "matches ss ws \<Longrightarrow> matches ts ws \<Longrightarrow> rel \<noteq> Disjoint \<Longrightarrow> compare_loop (ends_multi ss) (ends_multi ts) rel ss ts \<noteq> Disjoint"
proof (induction ws arbitrary: ss ts rel)
  case Nil
  then have "ss = [] \<and> ts = []" by (cases ss; cases "hd ss"; cases ts; cases "hd ts") auto
  with Nil show ?case by simp
next
  case (Cons w ws)
  obtain s ss' t ts' where st: "ss = s # ss'" "ts = t # ts'" using Cons.prems by (cases ss; cases ts) auto
  define rel' where "rel' = combineRelationships rel (compareSegments s t)"
  have rel': "rel' \<noteq> Disjoint"
    using combine_cases(1) [OF Cons.prems(3) compareSegments_common] Cons.prems(1,2) by (simp add: st rel'_def)
  show ?case
  proof (cases "s = Multi \<or> t = Multi")
    case True
    then have "ss' = [] \<and> s = Multi \<or> ts' = [] \<and> t = Multi" using Cons.prems(1,2) by (auto simp: st)
    moreover have "compare_loop m1 m2 rel ss ts = compare_loop m1 m2 rel' ss' ts'" for m1 m2 using rel' by (simp add: st rel'_def Let_def)
    ultimately show ?thesis using rel' by (cases ss'; cases ts') (auto simp: st ends_multi_def combine_cases)
  next
    case False
    then have m: "matches ss' ws" "matches ts' ws" using Cons.prems(1,2) by (auto simp: st matches_Cons)
    have "ends_multi (s # ss') = ends_multi ss'" "ends_multi (t # ts') = ends_multi ts'" using False by (auto simp: ends_multi_def)
    with Cons.IH [OF m rel'] rel' show ?thesis by (simp add: st rel'_def [symmetric] Let_def)
  qed
qed

lemma compare_loop_specific:
  "matches ss ws \<Longrightarrow> matches ts ws \<Longrightarrow> rel = Equivalent \<and> wins ss ts \<or> rel \<in> {MoreSpecific, Overlaps} \<Longrightarrow>
   compare_loop (ends_multi ss) (ends_multi ts) rel ss ts \<noteq> MoreGeneral"
proof (induction ws arbitrary: ss ts rel)
  case Nil
  then have "ss = [] \<and> ts = []" by (cases ss; cases "hd ss"; cases ts; cases "hd ts") auto
  with Nil show ?case by auto
next
  case (Cons w ws)
  obtain s ss' t ts' where st: "ss = s # ss'" "ts = t # ts'" using Cons.prems by (cases ss; cases ts) auto
  define rel' where "rel' = combineRelationships rel (compareSegments s t)"
  have nd: "compareSegments s t \<noteq> Disjoint" using compareSegments_common Cons.prems(1,2) by (simp add: st)
  have rel': "rel' = Equivalent \<and> wins ss' ts' \<and> s \<noteq> Multi \<and> t \<noteq> Multi \<or> rel' = Equivalent \<and> ss' = [] \<and> ts' = [] \<or> rel' \<in> {MoreSpecific, Overlaps}"
    using Cons.prems nd combine_cases(2) [of rel "compareSegments s t"]
    by (cases s; cases t) (auto simp: st rel'_def combine_cases(3) split: if_splits)
  show ?case
  proof (cases "s = Multi \<or> t = Multi")
    case True
    have le: "combineRelationships rel' q \<in> {MoreSpecific, Overlaps}" if "rel' \<in> {MoreSpecific, Overlaps}" "q \<noteq> Disjoint" for q
      using combine_cases(2) that by blast
    have "ss' = [] \<and> s = Multi \<or> ts' = [] \<and> t = Multi" using True Cons.prems(1,2) by (auto simp: st)
    moreover have "compare_loop m1 m2 rel ss ts = compare_loop m1 m2 rel' ss' ts'" for m1 m2
      using rel' by (auto simp: st rel'_def [symmetric] Let_def)
    ultimately show ?thesis using rel' True le [of MoreGeneral] le [of MoreSpecific]
      by (cases ss'; cases ts') (auto simp: st ends_multi_def)
  next
    case False
    then have m: "matches ss' ws" "matches ts' ws" using Cons.prems(1,2) by (auto simp: st matches_Cons)
    have e: "ends_multi (s # ss') = ends_multi ss'" "ends_multi (t # ts') = ends_multi ts'" using False by (auto simp: ends_multi_def)
    have "rel' = Equivalent \<and> wins ss' ts' \<or> rel' \<in> {MoreSpecific, Overlaps}" using rel' by auto
    from Cons.IH [OF m this] e show ?thesis by (simp add: st rel'_def [symmetric] Let_def)
  qed
qed


subsection \<open>Registration keeps the table free of conflicts\<close>

lemma compare_loop_swap:
  "compare_loop m2 m1 (inverseRelationship rel) ts ss = inverseRelationship (compare_loop m1 m2 rel ss ts)"
proof -
  have inv: "combineRelationships (inverseRelationship a) (inverseRelationship b) = inverseRelationship (combineRelationships a b)" for a b
    by (cases a; cases b) (simp_all add: combineRelationships_def)
  have seg: "compareSegments b a = inverseRelationship (compareSegments a b)" for a b by (cases a; cases b) simp_all
  have dis: "inverseRelationship a = Disjoint \<longleftrightarrow> a = Disjoint" for a by (cases a) simp_all
  show ?thesis
  proof (induction m1 m2 rel ss ts rule: compare_loop.induct)
    case (2 m1 m2 rel s ss)
    show ?case using inv [of rel MoreGeneral] by simp
  next
    case (3 m1 m2 rel s ss)
    show ?case using inv [of rel MoreSpecific] by simp
  next
    case (4 m1 m2 rel s ss t ts)
    then show ?case by (simp add: seg [of t s] inv dis Let_def)
  qed simp
qed

lemma comparePaths_swap: "comparePaths ts ss = inverseRelationship (comparePaths ss ts)"
  using compare_loop_swap [of "ends_multi ts" "ends_multi ss" Equivalent ts ss] by (auto simp: comparePaths_def)

lemma conflictsWith_sym: "conflictsWith p q \<longleftrightarrow> conflictsWith q p"
proof -
  have m: "compareMethods b a = inverseRelationship (compareMethods a b)" for a b by (simp add: compareMethods_def)
  have "comparePathsAndMethods q p = inverseRelationship (comparePathsAndMethods p q)"
    unfolding comparePathsAndMethods_def Let_def
    by (simp add: m [of "pt_Method q"] comparePaths_swap [of "pt_Segs q"])
      (cases "compareMethods (pt_Method p) (pt_Method q)"; cases "comparePaths (pt_Segs p) (pt_Segs q)"; simp add: combineRelationships_def)
  then show ?thesis unfolding conflictsWith_def by (cases "comparePathsAndMethods p q") simp_all
qed

definition no_conflicts :: "(pattern \<times> endpoint) list \<Rightarrow> bool" where
  "no_conflicts t \<longleftrightarrow> sorted_wrt (\<lambda>x y. \<not> conflictsWith (fst x) (fst y)) t"

lemma no_conflictsD: "no_conflicts t \<Longrightarrow> x \<in> set t \<Longrightarrow> y \<in> set t \<Longrightarrow> x \<noteq> y \<Longrightarrow> \<not> conflictsWith (fst x) (fst y)"
  unfolding no_conflicts_def by (induction t) (auto simp: conflictsWith_sym)

lemma HandleRaw_inv:
  assumes "HandleRaw s h rt = Some rt'" and "no_conflicts (ro_mux rt)" and "(parsePattern ''/'', Unmatched) \<in> set (ro_mux rt)"
  shows "no_conflicts (ro_mux rt') \<and> (parsePattern ''/'', Unmatched) \<in> set (ro_mux rt')"
proof -
  have free: "\<forall>x \<in> set (ro_mux rt). \<not> conflictsWith (parsePattern s) (fst x)" and rt': "ro_mux rt' = ro_mux rt @ [(parsePattern s, h)]"
    using assms(1) by (auto simp: HandleRaw_def mux_Handle_def Let_def list_ex_iff case_prod_unfold split: if_splits)
  have "\<not> conflictsWith (fst x) (parsePattern s)" if "x \<in> set (ro_mux rt)" for x
    using free that conflictsWith_sym [of "fst x" "parsePattern s"] by blast
  with assms(2,3) rt' show ?thesis by (simp add: no_conflicts_def sorted_wrt_append)
qed

lemma register_inv:
  assumes "register (map (\<lambda>(s, h). HandleRaw s h) rs) rt = Some r" and "no_conflicts (ro_mux rt)"
    and "(parsePattern ''/'', Unmatched) \<in> set (ro_mux rt)"
  shows "no_conflicts (ro_mux r) \<and> (parsePattern ''/'', Unmatched) \<in> set (ro_mux r)"
  using assms
proof (induction rs arbitrary: rt)
  case (Cons x rs)
  obtain rt' where rt': "HandleRaw (fst x) (snd x) rt = Some rt'" "register (map (\<lambda>(s, h). HandleRaw s h) rs) rt' = Some r"
    using Cons.prems(1) by (auto split: prod.splits option.splits)
  from Cons.IH [OF rt'(2)] HandleRaw_inv [OF rt'(1) Cons.prems(2,3)] show ?case by blast
qed simp

lemma register_mux:
  assumes "register (map (\<lambda>(s, h). HandleRaw s h) rs) rt = Some r"
  shows "ro_mux r = ro_mux rt @ map (\<lambda>(s, h). (parsePattern s, h)) rs" and "ro_routes r = ro_routes rt @ map fst rs"
proof -
  have step: "ro_mux rt' = ro_mux rt @ [(parsePattern s, h)] \<and> ro_routes rt' = ro_routes rt @ [s]"
    if "HandleRaw s h rt = Some rt'" for s h rt rt'
    using that by (auto simp: HandleRaw_def mux_Handle_def Let_def split: if_splits)
  have "ro_mux r = ro_mux rt @ map (\<lambda>(s, h). (parsePattern s, h)) rs \<and> ro_routes r = ro_routes rt @ map fst rs"
    using assms by (induction rs arbitrary: rt) (fastforce dest: step split: prod.splits option.splits)+
  then show "ro_mux r = ro_mux rt @ map (\<lambda>(s, h). (parsePattern s, h)) rs" "ro_routes r = ro_routes rt @ map fst rs" by simp_all
qed

lemma path_segs_nonempty: "path_segs path \<noteq> []"
proof -
  have "ws \<noteq> [] \<Longrightarrow> path_tail ws \<noteq> []" for ws by (induction ws rule: path_tail.induct) auto
  then show ?thesis by (simp add: path_segs_def Split_nonempty)
qed

text \<open>A pattern the search found on the level of its method, with no match on an earlier level.\<close>

lemma mux_match_level:
  assumes "mux_match t method path = Some (h, vals)" and "method \<noteq> ''''"
  shows "\<exists>p. (p, h) \<in> set t \<and> pattern_matches p method path \<and>
    (\<forall>q g. (q, g) \<in> set t \<and> pattern_matches q method path \<longrightarrow>
       (if pt_Method q = pt_Method p then wins (pt_Segs p) (pt_Segs q)
        else compareMethods (pt_Method p) (pt_Method q) = MoreSpecific))"
proof -
  let ?ws = "path_segs path"
  have level: "\<exists>p. (p, h) \<in> set t \<and> pt_Method p = m \<and> matches (pt_Segs p) ?ws \<and>
      (\<forall>q g. (q, g) \<in> set t \<and> pt_Method q = m \<and> matches (pt_Segs q) ?ws \<longrightarrow> wins (pt_Segs p) (pt_Segs q))"
    if "matchPath (with_method m t) ?ws = Some (h, vals)" for m
    using matchPath_best [of "with_method m t" ?ws] that by (fastforce simp: with_method_def best_def)
  have miss: "\<not> matches (pt_Segs q) ?ws" if "matchPath (with_method m t) ?ws = None" "(q, g) \<in> set t" "pt_Method q = m" for m q g
    using matchPath_best [of "with_method m t" ?ws] that by (fastforce simp: with_method_def)
  show ?thesis
  proof (cases "matchPath (with_method method t) ?ws")
    case (Some m)
    then obtain p where "(p, h) \<in> set t" "pt_Method p = method" "matches (pt_Segs p) ?ws"
      "\<forall>q g. (q, g) \<in> set t \<and> pt_Method q = method \<and> matches (pt_Segs q) ?ws \<longrightarrow> wins (pt_Segs p) (pt_Segs q)"
      using level [of "method"] assms(1) by (auto simp: mux_match_def)
    then show ?thesis using assms(2) by (intro exI [of _ p]) (auto simp: pattern_matches_def handles_def compareMethods_def)
  next
    case none: None
    show ?thesis
    proof (cases "method = ''HEAD'' \<and> matchPath (with_method ''GET'' t) ?ws \<noteq> None")
      case True
      then obtain p where "(p, h) \<in> set t" "pt_Method p = ''GET''" "matches (pt_Segs p) ?ws"
        "\<forall>q g. (q, g) \<in> set t \<and> pt_Method q = ''GET'' \<and> matches (pt_Segs q) ?ws \<longrightarrow> wins (pt_Segs p) (pt_Segs q)"
        using level [of "''GET''"] assms(1) none by (auto simp: mux_match_def)
      then show ?thesis using True miss [OF none]
        by (intro exI [of _ p]) (auto simp: pattern_matches_def handles_def compareMethods_def)
    next
      case False
      then have "matchPath (with_method '''' t) ?ws = Some (h, vals)"
        using assms(1) none by (auto simp: mux_match_def split: if_splits option.splits)
      then obtain p where p: "(p, h) \<in> set t" "pt_Method p = ''''" "matches (pt_Segs p) ?ws"
        "\<forall>q g. (q, g) \<in> set t \<and> pt_Method q = '''' \<and> matches (pt_Segs q) ?ws \<longrightarrow> wins (pt_Segs p) (pt_Segs q)"
        using level [of "''''"] by blast
      have get: "matchPath (with_method ''GET'' t) ?ws = None" if "method = ''HEAD''"
        using False that by (cases "matchPath (with_method ''GET'' t) ?ws") simp_all
      have q: "pt_Method q = ''''" if "(q, g) \<in> set t" "pattern_matches q method path" for q g
        using that(2) miss [OF none that(1)] miss [OF get that(1)] unfolding pattern_matches_def handles_def by blast
      have "pattern_matches p method path" using p by (simp add: pattern_matches_def handles_def)
      moreover have "wins (pt_Segs p) (pt_Segs q)" if "(q, g) \<in> set t" "pattern_matches q method path" for q g
        using p(4) q [OF that] that unfolding pattern_matches_def by blast
      ultimately show ?thesis using p(1,2) q by metis
    qed
  qed
qed

lemma more_specific:
  assumes m: "pattern_matches p method path" "pattern_matches q method path"
    and pref: "if pt_Method q = pt_Method p then wins (pt_Segs p) (pt_Segs q) else compareMethods (pt_Method p) (pt_Method q) = MoreSpecific"
    and free: "\<not> conflictsWith p q"
  shows "comparePathsAndMethods p q = MoreSpecific"
proof -
  have ms: "matches (pt_Segs p) (path_segs path)" "matches (pt_Segs q) (path_segs path)"
    using m by (simp_all add: pattern_matches_def)
  have len: "ends_multi ss \<or> length ss = length ws" if "matches ss ws" for ss ws
    using that by (induction ss ws rule: matches.induct) (auto simp: ends_multi_def split: list.splits)
  have cp: "comparePaths (pt_Segs p) (pt_Segs q) =
      compare_loop (ends_multi (pt_Segs p)) (ends_multi (pt_Segs q)) Equivalent (pt_Segs p) (pt_Segs q)"
    using len [OF ms(1)] len [OF ms(2)] by (auto simp: comparePaths_def)
  have nd: "comparePaths (pt_Segs p) (pt_Segs q) \<noteq> Disjoint" unfolding cp by (rule compare_loop_common [OF ms]) simp
  show ?thesis
  proof (cases "pt_Method q = pt_Method p")
    case True
    then have "comparePaths (pt_Segs p) (pt_Segs q) \<noteq> MoreGeneral"
      unfolding cp using pref by (intro compare_loop_specific [OF ms]) simp
    with True nd free show ?thesis
      by (cases "comparePaths (pt_Segs p) (pt_Segs q)")
        (auto simp: conflictsWith_def comparePathsAndMethods_def compareMethods_def combine_cases(3) Let_def)
  next
    case False
    then have "comparePathsAndMethods p q \<in> {MoreSpecific, Overlaps}"
      using pref combine_cases(2) [of MoreSpecific, OF _ nd] by (simp add: comparePathsAndMethods_def Let_def)
    with free show ?thesis by (auto simp: conflictsWith_def)
  qed
qed

text \<open>
  Every request is served, by the most specific of the routes that match it. For every table of
  routes that registers without a panic, in whatever order, there is exactly one route for a
  request: it matches the request's method and path, and every other route that matches is more
  general; only what no route matches falls to the catch-all.
\<close>

lemma router_serves_most_specific:
  assumes reg: "register (map (\<lambda>(s, h). HandleRaw s h) rs) NewRouter = Some r" and named: "method \<noteq> ''''"
  shows "\<exists>p h vals. mux_match (ro_mux r) method path = Some (h, vals) \<and> (p, h) \<in> set (ro_mux r) \<and> pattern_matches p method path \<and>
    (\<forall>q g. (q, g) \<in> set (ro_mux r) \<and> q \<noteq> p \<and> pattern_matches q method path \<longrightarrow> comparePathsAndMethods p q = MoreSpecific)"
proof -
  let ?t = "ro_mux r"
  have inv: "no_conflicts ?t" "(parsePattern ''/'', Unmatched) \<in> set ?t"
    using register_inv [OF reg] by (simp_all add: NewRouter_def no_conflicts_def)
  have "parsePattern ''/'' = \<lparr>pt_Method = '''', pt_Segs = [Multi]\<rparr>" by code_simp
  then have "([Multi], Unmatched) \<in> set (with_method '''' ?t)" using inv(2) by (force simp: with_method_def)
  moreover have "matches [Multi] (path_segs path)" using path_segs_nonempty by simp
  ultimately have "matchPath (with_method '''' ?t) (path_segs path) \<noteq> None"
    using matchPath_best [of "with_method '''' ?t" "path_segs path"] by (auto split: option.splits)
  then have "mux_match ?t method path \<noteq> None" by (simp add: mux_match_def split: option.split)
  then obtain h vals where m: "mux_match ?t method path = Some (h, vals)" by fast
  from mux_match_level [OF m named] obtain p where p: "(p, h) \<in> set ?t" "pattern_matches p method path"
    "\<And>q g. (q, g) \<in> set ?t \<Longrightarrow> pattern_matches q method path \<Longrightarrow>
       (if pt_Method q = pt_Method p then wins (pt_Segs p) (pt_Segs q) else compareMethods (pt_Method p) (pt_Method q) = MoreSpecific)"
    by blast
  have "comparePathsAndMethods p q = MoreSpecific" if q: "(q, g) \<in> set ?t" "q \<noteq> p" "pattern_matches q method path" for q g
    using more_specific [OF p(2) q(3) p(3) [OF q(1,3)]] no_conflictsD [OF inv(1) p(1) q(1)] q(2) by auto
  with m p(1,2) show ?thesis by blast
qed


lemma router_serves_most_specific_witness:
  "\<exists>r p vals. register (map (\<lambda>(s, h). HandleRaw s h) [(''GET /product/health'', ProbeOK), (''GET /product/{productId}'', Endpoint ''handleGet'')])
       NewRouter = Some r \<and> pattern_matches p ''GET'' ''/product/p1'' \<and> mux_match (ro_mux r) ''GET'' ''/product/p1'' = Some (Endpoint ''handleGet'', vals)"
proof -
  have "case register (map (\<lambda>(s, h). HandleRaw s h) [(''GET /product/health'', ProbeOK), (''GET /product/{productId}'', Endpoint ''handleGet'')])
       NewRouter of None \<Rightarrow> False
    | Some r \<Rightarrow> mux_match (ro_mux r) ''GET'' ''/product/p1'' = Some (Endpoint ''handleGet'', [''p1''])"
    by code_simp
  then obtain r where r: "register (map (\<lambda>(s, h). HandleRaw s h) [(''GET /product/health'', ProbeOK), (''GET /product/{productId}'', Endpoint ''handleGet'')])
       NewRouter = Some r"
    "mux_match (ro_mux r) ''GET'' ''/product/p1'' = Some (Endpoint ''handleGet'', [''p1''])"
    by (auto split: option.splits)
  from router_serves_most_specific [OF r(1), of "''GET''" "''/product/p1''"] r show ?thesis by auto
qed

section \<open>Prefixes of literal segments\<close>

lemma matches_lits:
  "matches (map Lit ws) path \<longleftrightarrow> path = ws"
  "matches (map Lit ws @ [Multi]) path \<longleftrightarrow> (\<exists>rest. rest \<noteq> [] \<and> path = ws @ rest)"
  by (induction ws arbitrary: path) (auto split: list.splits)

lemma wins_lits:
  assumes "matches (map Lit ws @ e) path" and "matches (map Lit vs @ f) path" and "e = [] \<or> e = [Multi]"
    and "wins (map Lit ws @ e) (map Lit vs @ f)"
  shows "length vs \<le> length ws"
  using assms
proof (induction ws arbitrary: vs path)
  case Nil
  show ?case
  proof (cases vs)
    case (Cons v vs')
    with Nil show ?thesis by auto
  qed simp
next
  case (Cons w ws)
  show ?case
  proof (cases vs)
    case (Cons v vs')
    then show ?thesis using Cons.prems Cons.IH [of "tl path" vs'] by (auto split: list.splits)
  qed simp
qed

text \<open>A plain prefix: a slash before each of its segments, none of them empty or a wildcard.\<close>

definition plain_prefix :: "string \<Rightarrow> bool" where
  "plain_prefix p \<longleftrightarrow> p \<noteq> '''' \<and> hd p = CHR ''/'' \<and> CHR '' '' \<notin> set p \<and> CHR ''{'' \<notin> set p \<and>
     list_all (\<lambda>w. w \<noteq> '''') (Split (CHR ''/'') (tl p))"

lemma Split_snoc: "Split sep (s @ [sep]) = Split sep s @ [[]]"
proof (induction s)
  case (Cons c s)
  then show ?case using Split_nonempty [of sep s] by (cases "Split sep s") auto
qed simp

lemma Split_chars: "w \<in> set (Split sep s) \<Longrightarrow> set w \<subseteq> set s"
proof (induction s arbitrary: w)
  case (Cons c s)
  show ?case
  proof (cases "Split sep s")
    case (Cons v vs)
    then show ?thesis using Cons.prems Cons.IH [of v] Cons.IH [of w] by (auto split: if_splits)
  qed (simp add: Split_nonempty)
qed simp

lemma segs_of_lits:
  assumes "\<forall>w \<in> set ws. w \<noteq> '''' \<and> CHR ''{'' \<notin> set w"
  shows "segs_of ws = map Lit ws" and "segs_of (ws @ [[]]) = map Lit ws @ [Multi]"
proof -
  have lit: "seg_of w = Lit w" if "w \<noteq> ''''" "CHR ''{'' \<notin> set w" for w using that by (cases w) (auto simp: seg_of_def)
  show "segs_of ws = map Lit ws" using assms lit by (induction ws rule: segs_of.induct) auto
  show "segs_of (ws @ [[]]) = map Lit ws @ [Multi]"
    using assms lit by (induction ws rule: segs_of.induct) (auto simp: neq_Nil_conv)
qed

lemma parsePattern_plain:
  assumes "plain_prefix p"
  shows "parsePattern p = \<lparr>pt_Method = '''', pt_Segs = map Lit (Split (CHR ''/'') (tl p))\<rparr>"
    and "parsePattern (p @ ''/'') = \<lparr>pt_Method = '''', pt_Segs = map Lit (Split (CHR ''/'') (tl p)) @ [Multi]\<rparr>"
proof -
  have nospace: "dropWhile (\<lambda>c. c \<noteq> CHR '' '') p = ''''" "dropWhile (\<lambda>c. c \<noteq> CHR '' '') (p @ ''/'') = ''''"
    using assms by (auto simp: plain_prefix_def)
  have "\<forall>w \<in> set (Split (CHR ''/'') (tl p)). w \<noteq> '''' \<and> CHR ''{'' \<notin> set w"
    using assms Split_chars [of _ "CHR ''/''" "tl p"] by (cases p) (fastforce simp: plain_prefix_def list_all_iff)+
  moreover have "tl (p @ ''/'') = tl p @ ''/''" using assms by (cases p) (auto simp: plain_prefix_def)
  ultimately show "parsePattern p = \<lparr>pt_Method = '''', pt_Segs = map Lit (Split (CHR ''/'') (tl p))\<rparr>"
    "parsePattern (p @ ''/'') = \<lparr>pt_Method = '''', pt_Segs = map Lit (Split (CHR ''/'') (tl p)) @ [Multi]\<rparr>"
    using segs_of_lits by (simp_all add: parsePattern_def nospace Split_snoc Let_def)
qed

section \<open>The routes of the program\<close>

text \<open>No service panics when it registers its routes.\<close>

lemma routes_register:
  "cart_Routes \<noteq> None" "order_Routes \<noteq> None" "kv_Routes \<noteq> None" "warehouse_Routes \<noteq> None" "cca_Routes \<noteq> None"
  "identity_Routes \<noteq> None" "notification_Routes \<noteq> None" "product_Routes \<noteq> None"
  by code_simp+

text \<open>An identifier as a path segment: not empty, no slash, no percent sign, not a dot segment.\<close>

definition plain_seg :: "string \<Rightarrow> bool" where
  "plain_seg w \<longleftrightarrow> w \<notin> {'''', ''.'', ''..''} \<and> CHR ''/'' \<notin> set w \<and> CHR ''%'' \<notin> set w"

lemma plain_path:
  assumes "ws \<noteq> []" and "\<forall>w \<in> set ws. plain_seg w"
  shows "cleanPath (CHR ''/'' # Join ''/'' ws) = CHR ''/'' # Join ''/'' ws" and "path_segs (CHR ''/'' # Join ''/'' ws) = ws"
proof -
  have sp: "Split (CHR ''/'') (Join ''/'' ws) = ws" using assms by (intro Split_Join) (auto simp: plain_seg_def)
  have cl: "clean_segments st vs = rev st @ vs" if "\<forall>w \<in> set vs. plain_seg w" for st vs
    using that by (induction st vs rule: clean_segments.induct) (auto simp: plain_seg_def)
  have "Join ''/'' ws \<noteq> '''' \<and> List.last (Join ''/'' ws) \<noteq> CHR ''/''"
    using assms by (induction "''/''" ws rule: Join.induct) (auto simp: plain_seg_def last_append dest: last_in_set)
  then show "cleanPath (CHR ''/'' # Join ''/'' ws) = CHR ''/'' # Join ''/'' ws"
    using sp cl [OF assms(2)] by (simp add: cleanPath_def)
  have "path_tail vs = vs" if "\<forall>w \<in> set vs. plain_seg w" for vs
    using that by (induction vs rule: path_tail.induct) (auto simp: plain_seg_def pathUnescape_plain)
  then show "path_segs (CHR ''/'' # Join ''/'' ws) = ws" using sp assms(2) by (simp add: path_segs_def)
qed

text \<open>A request for a customer's cart reaches the handler of its action with the identifier of the path.\<close>

lemma cart_table:
  "map_option ro_mux cart_Routes = Some
     [(\<lparr>pt_Method = '''', pt_Segs = [Multi]\<rparr>, Unmatched),
      (\<lparr>pt_Method = ''GET'', pt_Segs = [Lit ''shopping-cart'', Lit ''health'']\<rparr>, ProbeOK),
      (\<lparr>pt_Method = ''POST'', pt_Segs = [Lit ''shopping-cart'']\<rparr>, Endpoint ''handleCreate''),
      (\<lparr>pt_Method = ''GET'', pt_Segs = [Lit ''shopping-cart'', Wild ''cartId'']\<rparr>, Endpoint ''handleGet''),
      (\<lparr>pt_Method = ''POST'', pt_Segs = [Lit ''shopping-cart'', Wild ''cartId'', Lit ''add-item'']\<rparr>, Endpoint ''handleAddItem''),
      (\<lparr>pt_Method = ''POST'', pt_Segs = [Lit ''shopping-cart'', Wild ''cartId'', Lit ''checkout'']\<rparr>, Endpoint ''handleCheckout'')]"
  by code_simp

lemma cart_dispatch:
  assumes "plain_seg cartID"
  shows "dispatch cart_Routes ''POST'' (''/shopping-cart/'' @ cartID @ ''/checkout'') = Some (Serve (Endpoint ''handleCheckout'') [cartID])"
    and "dispatch cart_Routes ''POST'' (''/shopping-cart/'' @ cartID @ ''/add-item'') = Some (Serve (Endpoint ''handleAddItem'') [cartID])"
    and "cartID \<noteq> ''health'' \<Longrightarrow> dispatch cart_Routes ''GET'' (''/shopping-cart/'' @ cartID) = Some (Serve (Endpoint ''handleGet'') [cartID])"
proof -
  obtain rt where rt: "cart_Routes = Some rt" using routes_register(1) by auto
  note t = cart_table [unfolded rt option.map option.inject]
  note defs = dispatch_def rt t mux_match_def with_method_def under_lit_def under_wild_def leaf_def List.map_filter_simps
  have id: "cartID \<noteq> ''/''" using assms by (auto simp: plain_seg_def)
  have act: "cleanPath (''/shopping-cart/'' @ cartID @ ''/'' @ a) = ''/shopping-cart/'' @ cartID @ ''/'' @ a \<and>
      path_segs (''/shopping-cart/'' @ cartID @ ''/'' @ a) = [''shopping-cart'', cartID, a]" if "plain_seg a" for a
    using plain_path [of "[''shopping-cart'', cartID, a]"] assms that by (simp add: plain_seg_def)
  show "dispatch cart_Routes ''POST'' (''/shopping-cart/'' @ cartID @ ''/checkout'') = Some (Serve (Endpoint ''handleCheckout'') [cartID])"
    using act [of "''checkout''"] id by (simp add: defs plain_seg_def)
  show "dispatch cart_Routes ''POST'' (''/shopping-cart/'' @ cartID @ ''/add-item'') = Some (Serve (Endpoint ''handleAddItem'') [cartID])"
    using act [of "''add-item''"] id by (simp add: defs plain_seg_def)
  show "dispatch cart_Routes ''GET'' (''/shopping-cart/'' @ cartID) = Some (Serve (Endpoint ''handleGet'') [cartID])" if "cartID \<noteq> ''health''"
    using plain_path [of "[''shopping-cart'', cartID]"] assms id that by (simp add: defs plain_seg_def)
qed

text \<open>A product with the identifier \<open>health\<close> can be stored and never read: its address is the probe's.\<close>

lemma health_product_shadowed:
  "dispatch product_Routes ''PUT'' ''/product/health'' = Some (Serve (Endpoint ''handlePut'') [''health''])"
  "dispatch product_Routes ''GET'' ''/product/health'' = Some (Serve ProbeOK [])"
  by code_simp+


end
