(* ===== verification/Ratelimit.thy ===== *)
theory Ratelimit
  imports Httpx_Errors
begin

text \<open>
  \<^verbatim>\<open>src/internal/ratelimit/ratelimit.go\<close>: the sliding-window limiter. The Lua script is
  \<open>slidingWindow\<close>; the sorted set of Redis it works on is a record of commands given as an
  argument, and \<open>zset_ok\<close> is what the documentation promises of them. \<open>z_At\<close> is the key as it is
  at a time, gone once the deadline of its \<open>PEXPIRE\<close> has passed.
\<close>

record 's zset =
  z_At :: "int \<Rightarrow> 's \<Rightarrow> 's"
  z_RemRangeByScore :: "int \<Rightarrow> int \<Rightarrow> 's \<Rightarrow> 's"
  z_Card :: "'s \<Rightarrow> nat"
  z_Add :: "int \<Rightarrow> string \<Rightarrow> 's \<Rightarrow> 's"
  z_Oldest :: "'s \<Rightarrow> int option"
  z_PExpire :: "int \<Rightarrow> int \<Rightarrow> 's \<Rightarrow> 's"
  z_Members :: "'s \<Rightarrow> (string \<times> int) set"

definition zset_ok :: "'s zset \<Rightarrow> bool" where
  "zset_ok Z \<longleftrightarrow>
     (\<forall>s. finite (z_Members Z s)) \<and>
     (\<forall>s. z_Card Z s = card (z_Members Z s)) \<and>
     (\<forall>lo hi s. z_Members Z (z_RemRangeByScore Z lo hi s) = {(m, x) \<in> z_Members Z s. \<not> (lo \<le> x \<and> x \<le> hi)}) \<and>
     (\<forall>x m s. z_Members Z (z_Add Z x m s) = insert (m, x) {(m', x') \<in> z_Members Z s. m' \<noteq> m}) \<and>
     (\<forall>s. z_Members Z s = {} \<longrightarrow> z_Oldest Z s = None) \<and>
     (\<forall>s. z_Members Z s \<noteq> {} \<longrightarrow> z_Oldest Z s = Some (Min (snd ` z_Members Z s))) \<and>
     (\<forall>t s. z_Members Z (z_At Z t s) = z_Members Z s \<or> z_Members Z (z_At Z t s) = {}) \<and>
     (\<forall>now ms t s. t < now + ms \<longrightarrow> z_Members Z (z_At Z t (z_PExpire Z now ms s)) = z_Members Z s) \<and>
     (\<forall>now ms s. 0 < ms \<longrightarrow> z_Members Z (z_PExpire Z now ms s) = z_Members Z s)"

section \<open>The script\<close>

text \<open>The three numbers it returns; \<open>None\<close> is a script error, from comparing an absent score.\<close>

definition slidingWindow :: "'s zset \<Rightarrow> int \<Rightarrow> int \<Rightarrow> int \<Rightarrow> string \<Rightarrow> 's \<Rightarrow> (int \<times> int \<times> int) option \<times> 's" where
  "slidingWindow Z now window limit member s =
     (let s1 = z_RemRangeByScore Z 0 (now - window) (z_At Z now s);
          used = int (z_Card Z s1)
      in if used < limit
         then (Some (1, limit - used - 1, 0), z_PExpire Z now window (z_Add Z now member s1))
         else (case z_Oldest Z s1 of
                 None \<Rightarrow> (None, s1)
               | Some oldest \<Rightarrow> (Some (0, 0, window - (now - oldest)), z_PExpire Z now window s1)))"

section \<open>The limiter\<close>

record Result =
  rs_Allowed :: bool
  rs_Limit :: int
  rs_Remaining :: int
  rs_RetryAfter :: int

record Options =
  ro_Scope :: string
  ro_Prefix :: string
  ro_Limit :: int
  ro_Window :: int
  ro_FailOpen :: "bool option"

definition limiter_withDefaults :: "Options \<Rightarrow> Options" where
  "limiter_withDefaults o0 =
     o0\<lparr>ro_Scope := (if ro_Scope o0 = '''' then ''default'' else ro_Scope o0),
        ro_Limit := (if ro_Limit o0 \<le> 0 then 100 else ro_Limit o0),
        ro_Window := (if ro_Window o0 \<le> 0 then 60000000000 else ro_Window o0),
        ro_FailOpen := (case ro_FailOpen o0 of None \<Rightarrow> Some True | Some b \<Rightarrow> Some b)\<rparr>"

record Limiter =
  l_client :: bool
  l_opts :: Options

definition limiter_New :: "bool \<Rightarrow> Options \<Rightarrow> Limiter" where
  "limiter_New client opts = \<lparr>l_client = client, l_opts = limiter_withDefaults opts\<rparr>"

definition limiter_Enabled :: "Limiter option \<Rightarrow> bool" where
  "limiter_Enabled l = (case l of None \<Rightarrow> False | Some x \<Rightarrow> l_client x)"

text \<open>\<open>parse\<close>: the elements of the reply, \<open>None\<close> for one that is not an integer.\<close>

definition limiter_parse :: "int option list \<Rightarrow> int \<Rightarrow> Result res" where
  "limiter_parse raw limit =
     (case raw of
        [a, b, c] \<Rightarrow>
          (case (a, b, c) of
             (Some allowed, Some remaining, Some retryMS) \<Rightarrow>
               Inr \<lparr>rs_Allowed = (allowed = 1), rs_Limit = limit, rs_Remaining = remaining,
                    rs_RetryAfter = wrap64 (retryMS * 1000000)\<rparr>
           | _ \<Rightarrow> Inl (Sentinel ''ratelimit: unexpected script result types''))
      | _ \<Rightarrow> Inl (Sentinel ''ratelimit: unexpected script result''))"

text \<open>One call: Redis' clock, the member drawn, the error of the round trip and whether the
  script ran in spite of it. The state is the sorted set of every key.\<close>

record limiter_call =
  lc_now :: int
  lc_member :: string
  lc_err :: "go_error option"
  lc_ran :: bool

definition limiter_Allow :: "'s zset \<Rightarrow> Limiter \<Rightarrow> limiter_call \<Rightarrow> string \<Rightarrow> (string \<Rightarrow> 's) \<Rightarrow> Result \<times> (string \<Rightarrow> 's)" where
  "limiter_Allow Z l c identity st =
     (let opts = l_opts l; limit = ro_Limit opts;
          unlimited = \<lparr>rs_Allowed = True, rs_Limit = limit, rs_Remaining = limit, rs_RetryAfter = 0\<rparr>;
          key = ro_Prefix opts @ identity;
          (reply, s') = slidingWindow Z (lc_now c) (ro_Window opts div 1000000) limit (lc_member c) (st key);
          st' = st(key := s');
          unavailable = (if ro_FailOpen opts = Some True then unlimited
                         else \<lparr>rs_Allowed = False, rs_Limit = limit, rs_Remaining = 0, rs_RetryAfter = 1000000000\<rparr>)
      in if \<not> l_client l then (unlimited, st)
         else if lc_err c \<noteq> None then (unavailable, if lc_ran c then st' else st)
         else (case reply of
                 None \<Rightarrow> (unavailable, st')
               | Some (a, b, r) \<Rightarrow>
                   (case limiter_parse [Some a, Some b, Some r] limit of
                      Inl err \<Rightarrow> (unlimited, st')
                    | Inr result \<Rightarrow> (result, st'))))"


section \<open>The window holds\<close>

text \<open>The requests let through, with the caller and Redis' time of each.\<close>

fun admitted :: "'s zset \<Rightarrow> Limiter \<Rightarrow> (string \<times> limiter_call) list \<Rightarrow> (string \<Rightarrow> 's) \<Rightarrow> (string \<times> int) list" where
  "admitted Z l [] st = []"
| "admitted Z l ((i, c) # cs) st =
     (let (res, st') = limiter_Allow Z l c i st
      in (if rs_Allowed res then [(i, lc_now c)] else []) @ admitted Z l cs st')"

definition in_window :: "int \<Rightarrow> int \<Rightarrow> int \<Rightarrow> bool" where
  "in_window w T t \<longleftrightarrow> T - w < t \<and> t \<le> T"

definition bounded :: "int \<Rightarrow> int \<Rightarrow> int list \<Rightarrow> bool" where
  "bounded w limit ts \<longleftrightarrow> (\<forall>T. int (length (filter (in_window w T) ts)) \<le> limit)"

text \<open>The key of a caller remembers every grant that is still in the window, at any later time.\<close>

definition remembers :: "'s zset \<Rightarrow> int \<Rightarrow> (string \<times> int) list \<Rightarrow> int \<Rightarrow> 's \<Rightarrow> bool" where
  "remembers Z w xs seen s \<longleftrightarrow>
     distinct (map fst xs) \<and> (\<forall>(m, t) \<in> set xs. t \<le> seen) \<and>
     (\<forall>t'. seen \<le> t' \<longrightarrow> {(m, t) \<in> set xs. t' - w < t} \<subseteq> z_Members Z (z_At Z t' s))"

lemma remembers_later: "remembers Z w xs seen s \<Longrightarrow> seen \<le> seen' \<Longrightarrow> remembers Z w xs seen' s"
  by (fastforce simp: remembers_def)

lemma bounded_snoc:
  assumes "bounded w limit ts" and "\<forall>t \<in> set ts. t \<le> now"
    and "int (length (filter (\<lambda>t. now - w < t) ts)) < limit"
  shows "bounded w limit (ts @ [now])"
  unfolding bounded_def
proof
  fix T
  show "int (length (filter (in_window w T) (ts @ [now]))) \<le> limit"
  proof (cases "in_window w T now")
    case False
    then show ?thesis using assms(1) by (simp add: bounded_def)
  next
    case True
    then have "length (filter (in_window w T) ts) \<le> length (filter (\<lambda>t. now - w < t) ts)"
      by (auto simp: in_window_def intro!: length_filter_mono)
    then show ?thesis using True assms(3) by simp
  qed
qed


lemma zset_okD:
  assumes "zset_ok Z"
  shows "finite (z_Members Z s)" and "z_Card Z s = card (z_Members Z s)"
    and "z_Members Z (z_RemRangeByScore Z lo hi s) = {(m, x) \<in> z_Members Z s. \<not> (lo \<le> x \<and> x \<le> hi)}"
    and "z_Members Z (z_Add Z x m s) = insert (m, x) {(m', x') \<in> z_Members Z s. m' \<noteq> m}"
    and "z_Members Z s \<noteq> {} \<Longrightarrow> z_Oldest Z s = Some (Min (snd ` z_Members Z s))"
    and "t < now + ms \<Longrightarrow> z_Members Z (z_At Z t (z_PExpire Z now ms s)) = z_Members Z s"
    and "z_Members Z (z_At Z t s) = z_Members Z s \<or> z_Members Z (z_At Z t s) = {}"
    and "z_Members Z s = {} \<Longrightarrow> z_Oldest Z s = None"
    and "0 < ms \<Longrightarrow> z_Members Z (z_PExpire Z now ms s) = z_Members Z s"
  using assms by (simp_all add: zset_ok_def)

definition survivors :: "'s zset \<Rightarrow> int \<Rightarrow> int \<Rightarrow> 's \<Rightarrow> 's" where
  "survivors Z now w s = z_RemRangeByScore Z 0 (now - w) (z_At Z now s)"

lemma survivors_keep:
  assumes "zset_ok Z" and "remembers Z w xs seen s" and "seen \<le> now"
  shows "{(m, t) \<in> set xs. now - w < t} \<subseteq> z_Members Z (survivors Z now w s)"
  using assms(2,3) by (auto simp: survivors_def zset_okD(3) [OF assms(1)] remembers_def)

lemma window_count:
  assumes "zset_ok Z" and "remembers Z w xs seen s" and "seen \<le> now"
  shows "length (filter (\<lambda>t. now - w < t) (map snd xs)) \<le> z_Card Z (survivors Z now w s)"
proof -
  let ?ys = "filter (\<lambda>(m, t). now - w < t) xs"
  have dist: "distinct ?ys" using assms(2) by (simp add: remembers_def distinct_map)
  have "length (filter (\<lambda>t. now - w < t) (map snd xs)) = length ?ys"
    by (simp add: filter_map comp_def case_prod_unfold)
  also have "\<dots> = card (set ?ys)"
    by (rule distinct_card [OF dist, symmetric])
  also have "\<dots> \<le> card (z_Members Z (survivors Z now w s))"
    using survivors_keep [OF assms] zset_okD(1) [OF assms(1)] by (intro card_mono) auto
  finally show ?thesis by (simp add: zset_okD(2) [OF assms(1)])
qed

text \<open>What the script does with a key that remembers: a grant is added within the bound, a refusal
  forgets nothing.\<close>

lemma slidingWindow_step:
  assumes Z: "zset_ok Z" and rem: "remembers Z w xs seen s" and now: "seen \<le> now" and "0 < w" "0 < limit"
    and b: "bounded w limit (map snd xs)" and fresh: "member \<notin> fst ` set xs"
    and run: "slidingWindow Z now w limit member s = (reply, s')"
  obtains (granted) rem' where "reply = Some (1, rem', 0)" "remembers Z w (xs @ [(member, now)]) now s'"
      "bounded w limit (map snd xs @ [now])"
    | (refused) retry where "reply = Some (0, 0, retry)" "remembers Z w xs now s'"
proof -
  let ?s1 = "survivors Z now w s"
  have le: "\<forall>(m, t) \<in> set xs. t \<le> now" using rem now by (fastforce simp: remembers_def)
  note keep = survivors_keep [OF Z rem now]
  have gone: "{(m, t) \<in> set ys. t' - w < t} = {}" if "now + w \<le> t'" "\<forall>(m, t) \<in> set ys. t \<le> now" for t' and ys :: "(string \<times> int) list"
    using that by fastforce
  show thesis
  proof (cases "int (z_Card Z ?s1) < limit")
    case True
    then have s': "s' = z_PExpire Z now w (z_Add Z now member ?s1)" "\<exists>r. reply = Some (1, r, 0)"
      using run by (auto simp: slidingWindow_def survivors_def Let_def)
    have "{(m, t) \<in> set (xs @ [(member, now)]). t' - w < t} \<subseteq> z_Members Z (z_At Z t' s')" if "now \<le> t'" for t'
    proof (cases "t' < now + w")
      case True
      then have "z_Members Z (z_At Z t' s') = insert (member, now) {(m', x') \<in> z_Members Z ?s1. m' \<noteq> member}"
        using s'(1) zset_okD(4,6) [OF Z] by simp
      moreover have "{(m, t) \<in> set xs. t' - w < t} \<subseteq> {(m, t) \<in> set xs. now - w < t}" using that by auto
      ultimately show ?thesis using keep fresh by force
    next
      case False
      then show ?thesis using gone [of t' "xs @ [(member, now)]"] le by auto
    qed
    then have "remembers Z w (xs @ [(member, now)]) now s'"
      using rem le fresh by (auto simp: remembers_def)
    moreover have "bounded w limit (map snd xs @ [now])"
      using bounded_snoc [OF b] le window_count [OF Z rem now] True by fastforce
    ultimately show thesis using s'(2) granted by blast
  next
    case False
    then have "z_Members Z ?s1 \<noteq> {}" using zset_okD(2) [OF Z, of ?s1] \<open>0 < limit\<close> by auto
    then obtain old where "z_Oldest Z ?s1 = Some old" using zset_okD(5) [OF Z] by blast
    then have s': "s' = z_PExpire Z now w ?s1" "\<exists>r. reply = Some (0, 0, r)"
      using run False by (auto simp: slidingWindow_def survivors_def Let_def)
    have "{(m, t) \<in> set xs. t' - w < t} \<subseteq> z_Members Z (z_At Z t' s')" if "now \<le> t'" for t'
    proof (cases "t' < now + w")
      case True
      then have "z_Members Z (z_At Z t' s') = z_Members Z ?s1" using s'(1) zset_okD(6) [OF Z] by simp
      moreover have "{(m, t) \<in> set xs. t' - w < t} \<subseteq> {(m, t) \<in> set xs. now - w < t}" using that by auto
      ultimately show ?thesis using keep by blast
    next
      case False
      then show ?thesis using gone [of t' xs] le by auto
    qed
    then have "remembers Z w xs now s'" using rem le by (simp add: remembers_def)
    then show thesis using s'(2) refused by blast
  qed
qed


definition limiter_ok :: "Limiter \<Rightarrow> bool" where
  "limiter_ok l \<longleftrightarrow> l_client l \<and> 0 < ro_Limit (l_opts l) \<and> 1000000 \<le> ro_Window (l_opts l)"

abbreviation window_ms :: "Limiter \<Rightarrow> int" where
  "window_ms l \<equiv> ro_Window (l_opts l) div 1000000"

abbreviation key_of :: "Limiter \<Rightarrow> string \<Rightarrow> string" where
  "key_of l i \<equiv> ro_Prefix (l_opts l) @ i"

text \<open>A caller is never told yes unless the script granted it, when Redis answers or the limiter
  fails closed.\<close>

definition honest :: "Limiter \<Rightarrow> limiter_call \<Rightarrow> bool" where
  "honest l c \<longleftrightarrow> lc_err c = None \<or> ro_FailOpen (l_opts l) = Some False"

lemma Allow_other: "i \<noteq> j \<Longrightarrow> snd (limiter_Allow Z l c j st) (key_of l i) = st (key_of l i)"
  by (auto simp: limiter_Allow_def Let_def case_prod_unfold split: option.split sum.split)

lemma Allow_step:
  assumes Z: "zset_ok Z" and l: "limiter_ok l" and hon: "honest l c"
    and rem: "remembers Z (window_ms l) xs seen (st (key_of l i))" "seen \<le> lc_now c"
    and b: "bounded (window_ms l) (ro_Limit (l_opts l)) (map snd xs)" and fresh: "lc_member c \<notin> fst ` set xs"
    and run: "limiter_Allow Z l c i st = (res, st')"
  shows "\<exists>ys. bounded (window_ms l) (ro_Limit (l_opts l)) (map snd ys) \<and>
              remembers Z (window_ms l) ys (lc_now c) (st' (key_of l i)) \<and>
              (ys = xs @ [(lc_member c, lc_now c)] \<or> ys = xs \<and> \<not> rs_Allowed res)"
proof -
  let ?w = "window_ms l" and ?lim = "ro_Limit (l_opts l)"
  obtain reply s' where sw: "slidingWindow Z (lc_now c) ?w ?lim (lc_member c) (st (key_of l i)) = (reply, s')" by force
  have pos: "0 < ?w" "0 < ?lim" "l_client l" using l by (auto simp: limiter_ok_def)
  have later: "remembers Z ?w xs (lc_now c) (st (key_of l i))" by (rule remembers_later [OF rem])
  show ?thesis
  proof (cases "lc_err c = None \<or> lc_ran c")
    case False
    then have "st' = st" "\<not> rs_Allowed res"
      using run pos(3) hon by (auto simp: limiter_Allow_def honest_def Let_def case_prod_unfold)
    with later b show ?thesis by blast
  next
    case True
    then have st': "st' (key_of l i) = s'"
      using run sw pos(3) by (auto simp: limiter_Allow_def Let_def split: option.splits sum.splits if_splits)
    show ?thesis
    proof (rule slidingWindow_step [OF Z rem pos(1,2) b fresh sw])
      fix rem' assume "remembers Z ?w (xs @ [(lc_member c, lc_now c)]) (lc_now c) s'" "bounded ?w ?lim (map snd xs @ [lc_now c])"
      then show ?thesis using st' by (intro exI [of _ "xs @ [(lc_member c, lc_now c)]"]) simp
    next
      fix retry assume "reply = Some (0, 0, retry)" "remembers Z ?w xs (lc_now c) s'"
      moreover from this have "\<not> rs_Allowed res"
        using run sw pos(3) hon by (auto simp: limiter_Allow_def limiter_parse_def honest_def Let_def split: if_splits)
      ultimately show ?thesis using st' b by blast
    qed
  qed
qed

lemma bounded_drop:
  assumes "bounded w limit (xs @ z # ys)"
  shows "bounded w limit (xs @ ys)"
proof -
  have "length (filter P (xs @ ys)) \<le> length (filter P (xs @ z # ys))" for P by simp
  with assms show ?thesis unfolding bounded_def by (meson of_nat_mono order_trans)
qed

lemma admitted_bounded:
  assumes Z: "zset_ok Z" and l: "limiter_ok l"
    and "\<forall>(j, c) \<in> set cs. honest l c" and "sorted (map (\<lambda>(j, c). lc_now c) cs)"
    and "distinct (map (\<lambda>(j, c). lc_member c) cs)" and "\<forall>(j, c) \<in> set cs. lc_member c \<notin> fst ` set xs \<and> seen \<le> lc_now c"
    and "remembers Z (window_ms l) xs seen (st (key_of l i))"
    and "bounded (window_ms l) (ro_Limit (l_opts l)) (map snd xs)"
  shows "bounded (window_ms l) (ro_Limit (l_opts l)) (map snd xs @ map snd (filter (\<lambda>a. fst a = i) (admitted Z l cs st)))"
  using assms(3-)
proof (induction cs arbitrary: st xs seen)
  case Nil
  then show ?case by simp
next
  case (Cons jc cs)
  obtain j c where jc: "jc = (j, c)" by force
  obtain res st' where run: "limiter_Allow Z l c j st = (res, st')" by force
  have tail: "\<forall>(j, c) \<in> set cs. honest l c" "sorted (map (\<lambda>(j, c). lc_now c) cs)" "distinct (map (\<lambda>(j, c). lc_member c) cs)"
    using Cons.prems(1-3) by simp_all
  have later: "\<forall>(j, c') \<in> set cs. lc_now c \<le> lc_now c'" using Cons.prems(2) jc by auto
  show ?case
  proof (cases "j = i")
    case False
    have "remembers Z (window_ms l) xs seen (st' (key_of l i))"
      using Allow_other [of i j Z l c st] run False Cons.prems(5) by simp
    from Cons.IH [where st = st' and xs = xs and seen = seen, OF tail _ this Cons.prems(6)] Cons.prems(4) False show ?thesis by (simp add: jc run)
  next
    case True
    have hc: "honest l c" "lc_member c \<notin> fst ` set xs" "seen \<le> lc_now c" using Cons.prems(1,4) jc by auto
    obtain ys where ys: "bounded (window_ms l) (ro_Limit (l_opts l)) (map snd ys)"
        "remembers Z (window_ms l) ys (lc_now c) (st' (key_of l i))"
        "ys = xs @ [(lc_member c, lc_now c)] \<or> ys = xs \<and> \<not> rs_Allowed res"
      using Allow_step [where st = st and i = i, OF Z l hc(1) Cons.prems(5) hc(3) Cons.prems(6) hc(2), of res st'] run True by blast
    have "\<forall>(j, c') \<in> set cs. lc_member c' \<notin> fst ` set ys \<and> lc_now c \<le> lc_now c'"
    proof (intro ballI, clarify)
      fix j c' assume m: "(j, c') \<in> set cs"
      have "lc_member c' \<noteq> lc_member c" using Cons.prems(3) jc m by force
      moreover have "lc_member c' \<notin> fst ` set xs" using Cons.prems(4) m by auto
      ultimately show "lc_member c' \<notin> fst ` set ys \<and> lc_now c \<le> lc_now c'" using ys(3) later m by auto
    qed
    note IH = Cons.IH [where st = st' and xs = ys and seen = "lc_now c", OF tail this ys(2,1)]
    have "admitted Z l (jc # cs) st = (if rs_Allowed res then [(i, lc_now c)] else []) @ admitted Z l cs st'"
      using run True jc by simp
    then show ?thesis using IH ys(3) bounded_drop by (auto split: if_splits)
  qed
qed

text \<open>
  The limit holds over every window. For any mix of callers and any pattern of arrivals, the
  requests of one caller let through in any span of \<open>Window\<close> never exceed \<open>Limit\<close>, also across
  window boundaries, as long as Redis answers, or, when the limiter fails closed, whether it
  answers or not; requests of other callers never count.
\<close>

lemma sliding_window_bound:
  assumes redis: "zset_ok Z" and l: "limiter_ok l" and empty: "\<forall>t. z_Members Z (z_At Z t (st (key_of l i))) = {}"
    and calls: "\<forall>(j, c) \<in> set cs. honest l c" "sorted (map (\<lambda>(j, c). lc_now c) cs)"
      "distinct (map (\<lambda>(j, c). lc_member c) cs)" "\<forall>(j, c) \<in> set cs. 0 \<le> lc_now c"
  shows "int (length (filter (\<lambda>(j, t). j = i \<and> T - window_ms l < t \<and> t \<le> T) (admitted Z l cs st))) \<le> ro_Limit (l_opts l)"
proof -
  have "remembers Z (window_ms l) [] 0 (st (key_of l i))" by (simp add: remembers_def)
  moreover have "bounded (window_ms l) (ro_Limit (l_opts l)) (map snd [])"
    using l by (simp add: bounded_def limiter_ok_def)
  ultimately have "bounded (window_ms l) (ro_Limit (l_opts l)) (map snd (filter (\<lambda>a. fst a = i) (admitted Z l cs st)))"
    using admitted_bounded [OF redis l calls(1-3), of "[]" 0 st i] calls(4) by simp
  then show ?thesis
    by (simp add: bounded_def in_window_def filter_map comp_def case_prod_unfold conj_commute conj_left_commute)
qed


text \<open>A sorted set that meets the promises: its members and the deadline of the key.\<close>

type_synonym list_set = "(string \<times> int) list \<times> int option"

definition list_at :: "int \<Rightarrow> list_set \<Rightarrow> list_set" where
  "list_at t s = (case snd s of None \<Rightarrow> s | Some d \<Rightarrow> if d \<le> t then ([], None) else s)"

definition list_zset :: "list_set zset" where
  "list_zset = \<lparr>z_At = list_at,
     z_RemRangeByScore = (\<lambda>lo hi s. (filter (\<lambda>(m, x). \<not> (lo \<le> x \<and> x \<le> hi)) (fst s), snd s)),
     z_Card = (\<lambda>s. card (set (fst s))),
     z_Add = (\<lambda>x m s. ((m, x) # filter (\<lambda>(m', x'). m' \<noteq> m) (fst s), snd s)),
     z_Oldest = (\<lambda>s. if fst s = [] then None else Some (Min (snd ` set (fst s)))),
     z_PExpire = (\<lambda>now ms s. (fst s, Some (now + ms))), z_Members = (\<lambda>s. set (fst s))\<rparr>"

lemma list_zset_ok: "zset_ok list_zset"
  by (auto simp: zset_ok_def list_zset_def list_at_def split: option.splits)

definition demo_limiter :: Limiter where
  "demo_limiter = limiter_New True \<lparr>ro_Scope = ''gateway'', ro_Prefix = ''rl:'', ro_Limit = 1, ro_Window = 1000000000, ro_FailOpen = None\<rparr>"

definition demo_call :: "int \<Rightarrow> string \<Rightarrow> limiter_call" where
  "demo_call now member = \<lparr>lc_now = now, lc_member = member, lc_err = None, lc_ran = True\<rparr>"

lemma demo_limiter_ok: "limiter_ok demo_limiter"
  by (simp add: limiter_ok_def demo_limiter_def limiter_New_def limiter_withDefaults_def)

section \<open>Retrying\<close>

text \<open>
  A refused caller that waits as long as it is told is let through: when nothing else of the
  same caller arrives in between, the request repeated after \<open>RetryAfter\<close> is granted, and the wait
  is positive and no longer than the window.
\<close>

lemma retry_after_is_enough:
  assumes Z: "zset_ok Z" and "0 < w" and scores: "\<forall>(m, x) \<in> z_Members Z s. 0 \<le> x \<and> x \<le> now"
    and few: "int (card (z_Members Z s)) \<le> limit"
    and refused: "slidingWindow Z now w limit member s = (Some (0, 0, retry), s')"
  shows "0 < retry \<and> retry \<le> w \<and> (\<exists>r s''. slidingWindow Z (now + retry) w limit member' s' = (Some (1, r, 0), s''))"
proof -
  let ?s1 = "survivors Z now w s" and ?t = "now + retry"
  obtain oldest where old: "z_Oldest Z ?s1 = Some oldest" "retry = w - (now - oldest)" "s' = z_PExpire Z now w ?s1"
    using refused by (auto simp: slidingWindow_def survivors_def Let_def split: if_splits option.splits)
  have at: "z_Members Z (z_At Z t u) \<subseteq> z_Members Z u" for t u using zset_okD(7) [OF Z, of t u] by auto
  have m1: "z_Members Z ?s1 \<subseteq> {(m, x) \<in> z_Members Z s. now - w < x}"
    using at [of now s] scores by (auto simp: survivors_def zset_okD(3) [OF Z])
  have ne: "z_Members Z ?s1 \<noteq> {}" using old(1) zset_okD(8) [OF Z] by fastforce
  have "oldest = Min (snd ` z_Members Z ?s1)" using zset_okD(5) [OF Z ne] old(1) by simp
  then obtain m where m: "(m, oldest) \<in> z_Members Z ?s1"
    using Min_in [of "snd ` z_Members Z ?s1"] ne zset_okD(1) [OF Z] by fastforce
  then have o: "now - w < oldest" "oldest \<le> now" "0 \<le> oldest" using m1 scores by auto
  have "z_Members Z s' = z_Members Z ?s1" using zset_okD(9) [OF Z \<open>0 < w\<close>] old(3) by simp
  then have "z_Members Z (survivors Z ?t w s') \<subseteq> z_Members Z ?s1 - {(m, oldest)}"
    using at [of ?t s'] old(2) o by (auto simp: survivors_def zset_okD(3) [OF Z])
  then have "card (z_Members Z (survivors Z ?t w s')) < card (z_Members Z ?s1)"
    using m zset_okD(1) [OF Z, of ?s1] by (intro psubset_card_mono) auto
  also have "card (z_Members Z ?s1) \<le> card (z_Members Z s)"
    using m1 zset_okD(1) [OF Z, of s] by (intro card_mono) auto
  finally have "int (z_Card Z (survivors Z ?t w s')) < limit" using few by (simp add: zset_okD(2) [OF Z])
  then have "\<exists>r s''. slidingWindow Z ?t w limit member' s' = (Some (1, r, 0), s'')"
    by (simp add: slidingWindow_def survivors_def Let_def)
  with o old(2) show ?thesis by simp
qed

lemma retry_after_is_enough_witness:
  "slidingWindow list_zset 900 1000 1 ''m2'' ([(''m1'', 400)], Some 1400) = (Some (0, 0, 500), ([(''m1'', 400)], Some 1900)) \<and>
   (\<exists>r s''. slidingWindow list_zset 1400 1000 1 ''m2'' ([(''m1'', 400)], Some 1900) = (Some (1, r, 0), s''))"
proof -
  have ref: "slidingWindow list_zset 900 1000 1 ''m2'' ([(''m1'', 400)], Some 1400) = (Some (0, 0, 500), ([(''m1'', 400)], Some 1900))"
    by (simp add: slidingWindow_def list_zset_def list_at_def)
  have "0 < (1000 :: int)" "\<forall>(m, x) \<in> z_Members list_zset ([(''m1'', 400)], Some 1400). 0 \<le> x \<and> x \<le> 900"
      "int (card (z_Members list_zset ([(''m1'', 400)], Some 1400))) \<le> 1"
    by (simp_all add: list_zset_def)
  from retry_after_is_enough [OF list_zset_ok this ref, of "''m2''"] ref show ?thesis by simp
qed

end
