(* ===== verification/Gateway.thy ===== *)
theory Gateway
  imports Mux Auth Ratelimit Order_Service
begin

text \<open>
  \<^verbatim>\<open>src/internal/gateway/gateway.go\<close>: authentication, rate limiting and the identity headers at the
  edge. What a route does with a request is \<open>handlerFor\<close>: it answers itself, or hands the request
  to the reverse proxy of its upstream. \<open>Routes\<close> picks the route of a path.
\<close>

definition CustomerIDHeader :: string where "CustomerIDHeader = ''X-Customer-Id''"
definition CustomerEmailHeader :: string where "CustomerEmailHeader = ''X-Customer-Email''"
definition CustomerRolesHeader :: string where "CustomerRolesHeader = ''X-Customer-Roles''"

record Route =
  rt_Prefix :: string
  rt_Upstream :: string
  rt_Public :: bool
  rt_Name :: string

record gw_Config =
  gc_Routes :: "Route list"
  gc_Verifier :: "Verifier option"
  gc_Limiter :: "Limiter option"
  gc_AnonymousLimitFactor :: int
  gc_UpstreamTimeout :: int

text \<open>\<open>New\<close>: \<open>parses\<close> tells which upstream addresses \<open>url.Parse\<close> accepts; the proxies are those
  of the prefixes.\<close>

definition gateway_New :: "(string \<Rightarrow> bool) \<Rightarrow> gw_Config \<Rightarrow> gw_Config res" where
  "gateway_New parses cfg0 =
     (let cfg = cfg0\<lparr>gc_UpstreamTimeout := (if gc_UpstreamTimeout cfg0 \<le> 0 then 30000000000 else gc_UpstreamTimeout cfg0),
                     gc_AnonymousLimitFactor := (if gc_AnonymousLimitFactor cfg0 \<le> 0 then 1 else gc_AnonymousLimitFactor cfg0)\<rparr>
      in if gc_Routes cfg0 = [] then Inl (Sentinel ''gateway: no routes configured'')
         else if list_all (\<lambda>r. parses (rt_Upstream r)) (gc_Routes cfg) then Inr cfg
         else Inl (Wrapped ''gateway: route %s has an unparseable upstream %q: %w'' []))"

text \<open>The headers the upstream gets: those of the request without the ones that end at this hop,
  with the forwarding headers of the gateway.\<close>

definition newProxy :: "Request \<Rightarrow> header" where
  "newProxy r = SetXForwarded r (proxy_inbound (rq_Header r))"

section \<open>One request\<close>

definition authenticate :: "jwt \<Rightarrow> gw_Config \<Rightarrow> int \<Rightarrow> Request \<Rightarrow> Claims res" where
  "authenticate L g now r =
     (case BearerToken (header_Get (rq_Header r) ''Authorization'') of
        None \<Rightarrow> Inl (Unauthorized ''a bearer token is required'')
      | Some token \<Rightarrow>
          (case gc_Verifier g of
             None \<Rightarrow> Inl (Unauthorized ''authentication is not configured'')
           | Some v \<Rightarrow>
               (case Verify L v now token of
                  Inl err \<Rightarrow> Inl (Unauthorized ''the token is not valid'')
                | Inr claims \<Rightarrow> Inr claims)))"

definition clientAddr :: "Request \<Rightarrow> string" where
  "clientAddr r =
     (let forwarded = header_Get (rq_Header r) ''X-Forwarded-For''
      in if forwarded \<noteq> ''''
         then (let idx = IndexByte forwarded (CHR '','')
               in if idx > 0 then TrimSpace (take (nat idx) forwarded) else TrimSpace forwarded)
         else (case SplitHostPort (rq_RemoteAddr r) of None \<Rightarrow> rq_RemoteAddr r | Some host \<Rightarrow> host))"

definition identify :: "gw_Config \<Rightarrow> Request \<Rightarrow> Claims option \<Rightarrow> string \<times> int" where
  "identify g r claims =
     (case claims of
        Some c \<Rightarrow> (''customer:'' @ claims_CustomerID c, 1)
      | None \<Rightarrow> (''anon:'' @ clientAddr r, gc_AnonymousLimitFactor g))"

text \<open>\<open>allow\<close>: whether to go on, the response headers it sets, the error it answers with. The wait
  is a whole number of milliseconds below \<open>2 ^ 63\<close> nanoseconds, so its seconds truncate exactly.\<close>

definition gw_allow :: "'s zset \<Rightarrow> gw_Config \<Rightarrow> limiter_call \<Rightarrow> string \<Rightarrow> int \<Rightarrow> (string \<Rightarrow> 's)
    \<Rightarrow> go_error option \<times> (string \<times> string) list \<times> (string \<Rightarrow> 's)" where
  "gw_allow Z g c identity factor st =
     (case gc_Limiter g of
        None \<Rightarrow> (None, [], st)
      | Some l \<Rightarrow>
          (if \<not> limiter_Enabled (Some l) then (None, [], st)
           else (let (result, st') = limiter_Allow Z l c identity st;
                     hs = [(''X-RateLimit-Limit'', itoa (rs_Limit result)), (''X-RateLimit-Remaining'', itoa (rs_Remaining result))];
                     secs = rs_RetryAfter result div 1000000000;
                     retryAfter = (if secs < 1 then 1 else secs)
                 in if rs_Allowed result then (None, hs, st')
                    else (Some (Errorf StatusTooManyRequests ''rate limit exceeded, retry in %ds''),
                          hs @ [(''Retry-After'', itoa retryAfter)], st'))))"

datatype outcome = Refused go_error | Forwarded Route Request | Redirected string | Probed | Panicked

definition strip_identity :: "Request \<Rightarrow> Request" where
  "strip_identity r =
     r\<lparr>rq_Header := header_Del CustomerRolesHeader (header_Del CustomerEmailHeader (header_Del CustomerIDHeader (rq_Header r)))\<rparr>"

definition attach_identity :: "Claims \<Rightarrow> Request \<Rightarrow> Request" where
  "attach_identity c r =
     (let h1 = header_Set CustomerIDHeader (claims_CustomerID c) (rq_Header r);
          h2 = (if cl_Email c \<noteq> '''' then header_Set CustomerEmailHeader (cl_Email c) h1 else h1);
          h3 = (if cl_Roles c \<noteq> [] then header_Set CustomerRolesHeader (Join '','' (cl_Roles c)) h2 else h2)
      in r\<lparr>rq_Header := h3\<rparr>)"

definition handlerFor :: "jwt \<Rightarrow> 's zset \<Rightarrow> gw_Config \<Rightarrow> Route \<Rightarrow> int \<Rightarrow> limiter_call \<Rightarrow> Request \<Rightarrow> (string \<Rightarrow> 's)
    \<Rightarrow> outcome \<times> (string \<times> string) list \<times> (string \<Rightarrow> 's)" where
  "handlerFor L Z g route now c r0 st =
     (let r = strip_identity r0; auth = authenticate L g now r;
          claims = (case auth of Inl err \<Rightarrow> None | Inr cl \<Rightarrow> Some cl)
      in case auth of
           Inl authErr \<Rightarrow>
             (if \<not> rt_Public route then (Refused authErr, [], st)
              else (let (identity, factor) = identify g r claims
                    in case gw_allow Z g c identity factor st of
                         (Some err, hs, st') \<Rightarrow> (Refused err, hs, st')
                       | (None, hs, st') \<Rightarrow> (Forwarded route r, hs, st')))
         | Inr cl \<Rightarrow>
             (let (identity, factor) = identify g r claims
              in case gw_allow Z g c identity factor st of
                   (Some err, hs, st') \<Rightarrow> (Refused err, hs, st')
                 | (None, hs, st') \<Rightarrow> (Forwarded route (attach_identity cl r), hs, st')))"

text \<open>\<open>Routes\<close>: the table the gateway registers, each prefix by itself and everything beneath it, and
  the request it serves with it. The handler of a prefix is the one of its route.\<close>

definition gw_mux :: "gw_Config \<Rightarrow> Router option" where
  "gw_mux g = register
     (Probe ''GET /health'' #
      concat (map (\<lambda>route. [HandleRaw (rt_Prefix route) (Endpoint (rt_Prefix route)),
                            HandleRaw (rt_Prefix route @ ''/'') (Endpoint (rt_Prefix route))]) (gc_Routes g))) NewRouter"

definition gw_Routes :: "jwt \<Rightarrow> 's zset \<Rightarrow> gw_Config \<Rightarrow> int \<Rightarrow> limiter_call \<Rightarrow> Request \<Rightarrow> (string \<Rightarrow> 's)
    \<Rightarrow> outcome \<times> (string \<times> string) list \<times> (string \<Rightarrow> 's)" where
  "gw_Routes L Z g now c r st =
     (case dispatch (gw_mux g) (rq_Method r) (rq_Path r) of
        None \<Rightarrow> (Panicked, [], st)
      | Some (Redirect path) \<Rightarrow> (Redirected path, [], st)
      | Some (Serve ProbeOK vals) \<Rightarrow> (Probed, [], st)
      | Some (Serve Unmatched vals) \<Rightarrow> (Refused (Errorf StatusNotFound ''no route matches %s %s''), [], st)
      | Some (Serve (Endpoint name) vals) \<Rightarrow>
          (case find (\<lambda>route. rt_Prefix route = name) (gc_Routes g) of
             None \<Rightarrow> (Panicked, [], st)
           | Some route \<Rightarrow> handlerFor L Z g route now c r st))"

section \<open>The identity an upstream sees\<close>

lemmas identity_headers = CustomerIDHeader_def CustomerEmailHeader_def CustomerRolesHeader_def

lemma stripped [simp]:
  "rq_Header (strip_identity r) CustomerIDHeader = []" "rq_Header (strip_identity r) CustomerEmailHeader = []"
  "rq_Header (strip_identity r) CustomerRolesHeader = []"
  "rq_Path (strip_identity r) = rq_Path r" "rq_Method (strip_identity r) = rq_Method r"
  "header_Get (rq_Header (strip_identity r)) ''Authorization'' = header_Get (rq_Header r) ''Authorization''"
  by (simp_all add: strip_identity_def identity_headers header_Get_def)

lemma attached [simp]:
  "rq_Header (attach_identity c r) CustomerIDHeader = [cl_Subject c]"
  by (simp add: attach_identity_def identity_headers claims_CustomerID_def Let_def)

lemma authenticate_strip [simp]: "authenticate L g now (strip_identity r) = authenticate L g now r"
  by (simp add: authenticate_def)

text \<open>A proxied request keeps its identity headers unless the client listed them as its own hop's.\<close>

lemma newProxy_identity:
  assumes "k \<in> {CustomerIDHeader, CustomerEmailHeader, CustomerRolesHeader}"
  shows "newProxy r k = (if k \<in> set (connection_names (rq_Header r)) then [] else rq_Header r k)"
  using assms by (auto simp: newProxy_def SetXForwarded_other proxy_inbound_kept hop_headers_def identity_headers)

lemma handlerFor_forwarded:
  assumes "handlerFor L Z g route now c r st = (Forwarded route' r', hs, st')"
  shows "route' = route" and "gw_allow Z g c (fst (identify g (strip_identity r) (case authenticate L g now r of Inl _ \<Rightarrow> None | Inr cl \<Rightarrow> Some cl))) f st = (None, hs, st')"
    and "(\<exists>cl. authenticate L g now r = Inr cl \<and> r' = attach_identity cl (strip_identity r)) \<or>
         (\<exists>err. authenticate L g now r = Inl err \<and> rt_Public route \<and> r' = strip_identity r)"
  using assms
  by (auto simp: handlerFor_def Let_def gw_allow_def case_prod_unfold split: sum.splits if_splits prod.splits option.splits)

lemma gw_Routes_forwarded:
  assumes "gw_Routes L Z g now c r st = (Forwarded route r', hs, st')"
  shows "route \<in> set (gc_Routes g)" and "\<exists>vals. dispatch (gw_mux g) (rq_Method r) (rq_Path r) = Some (Serve (Endpoint (rt_Prefix route)) vals)"
    and "handlerFor L Z g route now c r st = (Forwarded route r', hs, st')"
proof -
  obtain x name vals where x: "dispatch (gw_mux g) (rq_Method r) (rq_Path r) = Some (Serve (Endpoint name) vals)"
      "find (\<lambda>route. rt_Prefix route = name) (gc_Routes g) = Some x" "handlerFor L Z g x now c r st = (Forwarded route r', hs, st')"
    using assms by (auto simp: gw_Routes_def split: option.splits dispatched.splits endpoint.splits)
  have "route = x" using handlerFor_forwarded(1) [OF x(3)] .
  with x show "route \<in> set (gc_Routes g)" "\<exists>vals. dispatch (gw_mux g) (rq_Method r) (rq_Path r) = Some (Serve (Endpoint (rt_Prefix route)) vals)"
      "handlerFor L Z g route now c r st = (Forwarded route r', hs, st')" by (auto simp: find_Some_iff)
qed

lemma authenticate_ok:
  assumes "authenticate L g now r = Inr claims"
  obtains v token where "gc_Verifier g = Some v" "BearerToken (header_Get (rq_Header r) ''Authorization'') = Some token"
    "Verify L v now token = Inr claims"
  using assms by (auto simp: authenticate_def split: option.splits sum.splits)

text \<open>The claims of a token the gateway accepts now on a request.\<close>

definition bearer_of :: "jwt \<Rightarrow> gw_Config \<Rightarrow> int \<Rightarrow> Request \<Rightarrow> Claims \<Rightarrow> bool" where
  "bearer_of L g now r claims \<longleftrightarrow>
     (\<exists>v token. gc_Verifier g = Some v \<and> BearerToken (header_Get (rq_Header r) ''Authorization'') = Some token \<and>
        jwt_Valid L ''HS256'' (vf_secret v) token claims \<and> (vf_issuer v = '''' \<or> cl_Issuer claims = vf_issuer v) \<and>
        (\<exists>x. cl_ExpiresAt claims = Some x \<and> now < x) \<and>
        (\<forall>check. vf_revoked v = Some check \<longrightarrow> cl_ID claims = '''' \<or> check (cl_ID claims) \<noteq> Inr True))"

lemma authenticate_bearer:
  assumes "jwt_ok L" and "authenticate L g now r = Inr claims"
  shows "bearer_of L g now r claims"
proof -
  obtain v token where v: "gc_Verifier g = Some v" "BearerToken (header_Get (rq_Header r) ''Authorization'') = Some token"
      "Verify L v now token = Inr claims" using authenticate_ok [OF assms(2)] .
  show ?thesis unfolding bearer_of_def using Verify_ok(1,2,4,5) [OF assms(1) v(3)] v(1,2) by blast
qed

lemma forwarded_bearer:
  assumes "jwt_ok L" and "gw_Routes L Z g now c r st = (Forwarded route r', hs, st')"
    and "header_Get (newProxy r') CustomerIDHeader \<noteq> '''' \<or> \<not> rt_Public route"
  obtains claims where "bearer_of L g now r claims"
    "header_Get (newProxy r') CustomerIDHeader \<noteq> '''' \<longrightarrow> header_Get (newProxy r') CustomerIDHeader = cl_Subject claims"
proof -
  have hdr: "header_Get (newProxy r') CustomerIDHeader =
      (if CustomerIDHeader \<in> set (connection_names (rq_Header r')) then '''' else header_Get (rq_Header r') CustomerIDHeader)"
    by (simp add: header_Get_def newProxy_identity)
  have "\<exists>cl. authenticate L g now r = Inr cl \<and> r' = attach_identity cl (strip_identity r)"
    using handlerFor_forwarded(3) [OF gw_Routes_forwarded(3) [OF assms(2)]] assms(3) hdr by (auto simp: header_Get_def split: if_splits)
  then obtain cl where cl: "authenticate L g now r = Inr cl" "r' = attach_identity cl (strip_identity r)" by blast
  show thesis
    using hdr cl(2) by (intro that [OF authenticate_bearer [OF assms(1) cl(1)]]) (auto simp: header_Get_def split: if_splits)
qed

text \<open>
  Nobody acts as somebody else. When a service behind the gateway takes a forwarded request
  for one of the customer \<open>c\<close>, the request carried a bearer token that is signed with the
  gateway's secret by its issuer, names \<open>c\<close> as its subject, has not expired and is not known to
  be revoked, whatever headers the client sent; a route that is not public forwards nothing
  without such a token.
\<close>

lemma gateway_identity_is_verified:
  assumes L: "jwt_ok L" and fwd: "gw_Routes L Z g now c r st = (Forwarded route r', hs, st')"
    and acts: "customerOf (header_Get (newProxy r') CustomerIDHeader) = Inr customer \<or> \<not> rt_Public route"
  shows "\<exists>v token claims. gc_Verifier g = Some v \<and>
           BearerToken (header_Get (rq_Header r) ''Authorization'') = Some token \<and>
           jwt_Valid L ''HS256'' (vf_secret v) token claims \<and> (vf_issuer v = '''' \<or> cl_Issuer claims = vf_issuer v) \<and>
           (\<exists>x. cl_ExpiresAt claims = Some x \<and> now < x) \<and>
           (\<forall>check. vf_revoked v = Some check \<longrightarrow> cl_ID claims = '''' \<or> check (cl_ID claims) \<noteq> Inr True) \<and>
           (customerOf (header_Get (newProxy r') CustomerIDHeader) = Inr customer \<longrightarrow> cl_Subject claims = customer)"
proof -
  have "header_Get (newProxy r') CustomerIDHeader \<noteq> '''' \<or> \<not> rt_Public route" using acts by (auto simp: customerOf_def split: if_splits)
  from forwarded_bearer [OF L fwd this] obtain claims where cl: "bearer_of L g now r claims"
    "header_Get (newProxy r') CustomerIDHeader \<noteq> '''' \<longrightarrow> header_Get (newProxy r') CustomerIDHeader = cl_Subject claims" .
  have "customerOf (header_Get (newProxy r') CustomerIDHeader) = Inr customer \<longrightarrow> cl_Subject claims = customer"
    using cl(2) by (auto simp: customerOf_def)
  with cl(1) show ?thesis unfolding bearer_of_def by blast
qed

section \<open>The route of a path\<close>

definition prefix_segs :: "Route \<Rightarrow> string list" where
  "prefix_segs route = Split (CHR ''/'') (tl (rt_Prefix route))"

definition gw_table :: "gw_Config \<Rightarrow> (string \<times> endpoint) list" where
  "gw_table g = (''GET /health'', ProbeOK) #
     concat (map (\<lambda>route. [(rt_Prefix route, Endpoint (rt_Prefix route)), (rt_Prefix route @ ''/'', Endpoint (rt_Prefix route))]) (gc_Routes g))"

lemma gw_mux_table: "gw_mux g = register (map (\<lambda>(s, h). HandleRaw s h) (gw_table g)) NewRouter"
  by (simp add: gw_mux_def gw_table_def Probe_def map_concat comp_def)

lemma gw_mux_patterns:
  assumes "gw_mux g = Some rt" and plain: "\<forall>route \<in> set (gc_Routes g). plain_prefix (rt_Prefix route)"
  shows "(p, Endpoint name) \<in> set (ro_mux rt) \<longleftrightarrow>
    (\<exists>route \<in> set (gc_Routes g). rt_Prefix route = name \<and>
       (p = \<lparr>pt_Method = '''', pt_Segs = map Lit (prefix_segs route)\<rparr> \<or> p = \<lparr>pt_Method = '''', pt_Segs = map Lit (prefix_segs route) @ [Multi]\<rparr>))"
proof -
  have "ro_mux rt = ro_mux NewRouter @ map (\<lambda>(s, h). (parsePattern s, h)) (gw_table g)"
    using register_mux(1) assms(1) by (simp add: gw_mux_table)
  then have "(p, Endpoint name) \<in> set (ro_mux rt) \<longleftrightarrow>
      (\<exists>route \<in> set (gc_Routes g). rt_Prefix route = name \<and> (p = parsePattern (rt_Prefix route) \<or> p = parsePattern (rt_Prefix route @ ''/'')))"
    by (auto simp: NewRouter_def gw_table_def)
  then show ?thesis using plain by (auto simp: parsePattern_plain prefix_segs_def)
qed

lemma gw_route_of:
  assumes "dispatch (gw_mux g) method path = Some (Serve (Endpoint name) vals)"
    and plain: "\<forall>route \<in> set (gc_Routes g). plain_prefix (rt_Prefix route)" and "method \<noteq> ''''"
  obtains route where "route \<in> set (gc_Routes g)" "rt_Prefix route = name" "prefix (prefix_segs route) (path_segs path)"
    "\<And>route'. route' \<in> set (gc_Routes g) \<Longrightarrow> prefix (prefix_segs route') (path_segs path) \<Longrightarrow>
       length (prefix_segs route') \<le> length (prefix_segs route)"
proof -
  obtain rt where rt: "gw_mux g = Some rt" and m: "mux_match (ro_mux rt) method path = Some (Endpoint name, vals)"
    using assms(1) by (auto simp: dispatch_def split: option.splits if_splits)
  obtain p where p: "(p, Endpoint name) \<in> set (ro_mux rt)" "pattern_matches p method path"
    and best: "\<And>q g. (q, g) \<in> set (ro_mux rt) \<Longrightarrow> pattern_matches q method path \<Longrightarrow>
       (if pt_Method q = pt_Method p then wins (pt_Segs p) (pt_Segs q) else compareMethods (pt_Method p) (pt_Method q) = MoreSpecific)"
    using mux_match_level [OF m assms(3)] by blast
  obtain route e where r: "route \<in> set (gc_Routes g)" "rt_Prefix route = name" "e = [] \<or> e = [Multi]"
      "p = \<lparr>pt_Method = '''', pt_Segs = map Lit (prefix_segs route) @ e\<rparr>"
    using p(1) gw_mux_patterns [OF rt plain, of p name] by force
  have pre: "matches (map Lit (prefix_segs route) @ e) (path_segs path)" using p(2) r(4) by (simp add: pattern_matches_def)
  have longest: "length (prefix_segs route') \<le> length (prefix_segs route)"
    if r': "route' \<in> set (gc_Routes g)" "prefix (prefix_segs route') (path_segs path)" for route'
  proof -
    define f where "f = (if path_segs path = prefix_segs route' then [] else [Multi])"
    have ms: "matches (map Lit (prefix_segs route') @ f) (path_segs path)"
      using r'(2) by (auto simp: f_def matches_lits prefix_def)
    let ?q = "\<lparr>pt_Method = '''', pt_Segs = map Lit (prefix_segs route') @ f\<rparr>"
    have "(?q, Endpoint (rt_Prefix route')) \<in> set (ro_mux rt)"
      using r'(1) gw_mux_patterns [OF rt plain, of ?q "rt_Prefix route'"] by (auto simp: f_def)
    moreover have "pattern_matches ?q method path" using ms by (simp add: pattern_matches_def handles_def)
    ultimately have "wins (map Lit (prefix_segs route) @ e) (map Lit (prefix_segs route') @ f)" using best r(4) by fastforce
    then show ?thesis using wins_lits [OF pre ms r(3)] by blast
  qed
  have "prefix (prefix_segs route) (path_segs path)" using pre r(3) by (auto simp: matches_lits)
  with r(1,2) longest that show thesis by blast
qed

text \<open>
  C10. The longest prefix decides who answers and whether a token is needed. Among the routes whose
  segments begin the path of a forwarded request, the route it takes has the most segments, so a public
  prefix opens nothing beneath the longer prefix of another route, nor a path that merely starts with
  the same letters.
\<close>

theorem gateway_longest_prefix:
  assumes "gw_Routes L Z g now c r st = (Forwarded route r', hs, st')" and "rq_Method r \<noteq> ''''"
    and "\<forall>route \<in> set (gc_Routes g). plain_prefix (rt_Prefix route)"
  shows "prefix (prefix_segs route) (path_segs (rq_Path r)) \<and>
    (\<forall>other \<in> set (gc_Routes g). prefix (prefix_segs other) (path_segs (rq_Path r)) \<longrightarrow> length (prefix_segs other) \<le> length (prefix_segs route))"
proof -
  obtain vals where "dispatch (gw_mux g) (rq_Method r) (rq_Path r) = Some (Serve (Endpoint (rt_Prefix route)) vals)"
    using gw_Routes_forwarded(2) [OF assms(1)] by blast
  from gw_route_of [OF this assms(3,2)] show ?thesis unfolding prefix_segs_def by metis
qed


section \<open>The rate an upstream sees\<close>

definition bucket :: "jwt \<Rightarrow> gw_Config \<Rightarrow> int \<Rightarrow> Request \<Rightarrow> string" where
  "bucket L g now r =
     fst (identify g (strip_identity r) (case authenticate L g now r of Inl err \<Rightarrow> None | Inr cl \<Rightarrow> Some cl))"

text \<open>A sequence of requests, each with the gateway's clock and its call of the limiter: the
  bucket and Redis' time of every one that is forwarded.\<close>

fun forwarded_run :: "jwt \<Rightarrow> 's zset \<Rightarrow> gw_Config \<Rightarrow> (int \<times> limiter_call \<times> Request) list \<Rightarrow> (string \<Rightarrow> 's)
    \<Rightarrow> (string \<times> int) list" where
  "forwarded_run L Z g [] st = []"
| "forwarded_run L Z g ((now, c, r) # rs) st =
     (let (out, hs, st') = gw_Routes L Z g now c r st
      in (case out of Forwarded route r' \<Rightarrow> [(bucket L g now r, lc_now c)] | _ \<Rightarrow> []) @ forwarded_run L Z g rs st')"

definition is_forwarded :: "outcome \<Rightarrow> bool" where
  "is_forwarded out \<longleftrightarrow> (\<exists>route r. out = Forwarded route r)"

lemma forwarded_run_Cons:
  "forwarded_run L Z g ((now, c, r) # rs) st =
     (if is_forwarded (fst (gw_Routes L Z g now c r st)) then [(bucket L g now r, lc_now c)] else []) @
     forwarded_run L Z g rs (snd (snd (gw_Routes L Z g now c r st)))"
  by (cases "fst (gw_Routes L Z g now c r st)") (auto simp: is_forwarded_def case_prod_unfold Let_def)

lemma gw_allow_enabled:
  assumes "gc_Limiter g = Some l" and "l_client l"
  shows "gw_allow Z g c i f st = (stop, hs, st') \<Longrightarrow>
           limiter_Allow Z l c i st = (res, st'') \<Longrightarrow> st' = st'' \<and> (stop = None \<longleftrightarrow> rs_Allowed res)"
  using assms by (auto simp: gw_allow_def limiter_Enabled_def Let_def split: if_splits)

text \<open>A request either asks the limiter once, and is forwarded exactly when it is let through, or
  never asks and is not forwarded.\<close>

lemma handlerFor_limited:
  assumes l: "gc_Limiter g = Some l" "l_client l"
    and run: "handlerFor L Z g route now c r st = (out, hs, st')"
    and ask: "limiter_Allow Z l c (bucket L g now r) st = (res, st'')"
  shows "st' = st \<and> \<not> is_forwarded out \<or> st' = st'' \<and> (is_forwarded out \<longleftrightarrow> rs_Allowed res)"
proof -
  obtain stop hs' st1 where al: "gw_allow Z g c (bucket L g now r) f st = (stop, hs', st1)" for f
    by (cases "gw_allow Z g c (bucket L g now r) 0 st") (auto simp: gw_allow_def)
  have "st1 = st'' \<and> (stop = None \<longleftrightarrow> rs_Allowed res)" using gw_allow_enabled [OF l al ask] .
  with run al show ?thesis
    by (auto simp: handlerFor_def bucket_def is_forwarded_def case_prod_unfold Let_def split: sum.splits if_splits option.splits)
qed

lemma gw_Routes_limited:
  assumes "gc_Limiter g = Some l" "l_client l"
    and "gw_Routes L Z g now c r st = (out, hs, st')"
    and "limiter_Allow Z l c (bucket L g now r) st = (res, st'')"
  shows "st' = st \<and> \<not> is_forwarded out \<or> st' = st'' \<and> (is_forwarded out \<longleftrightarrow> rs_Allowed res)"
  using assms(3) handlerFor_limited [OF assms(1,2) _ assms(4)]
  by (auto simp: gw_Routes_def is_forwarded_def split: option.splits dispatched.splits endpoint.splits)

lemma forwarded_admitted:
  assumes "gc_Limiter g = Some l" "l_client l"
  shows "\<exists>cs. subseq cs (map (\<lambda>(now, c, r). (bucket L g now r, c)) rs) \<and> forwarded_run L Z g rs st = admitted Z l cs st"
proof (induction rs arbitrary: st)
  case Nil
  show ?case by (intro exI [of _ "[]"]) simp
next
  case (Cons a rs)
  obtain now c r where a: "a = (now, c, r)" by (cases a)
  obtain out hs st1 where run: "gw_Routes L Z g now c r st = (out, hs, st1)" by (cases "gw_Routes L Z g now c r st")
  obtain res st2 where ask: "limiter_Allow Z l c (bucket L g now r) st = (res, st2)" by force
  obtain cs where cs: "subseq cs (map (\<lambda>(now, c, r). (bucket L g now r, c)) rs)" "forwarded_run L Z g rs st1 = admitted Z l cs st1"
    using Cons.IH by blast
  from gw_Routes_limited [OF assms run ask] show ?case
  proof
    assume "st1 = st \<and> \<not> is_forwarded out"
    then have "forwarded_run L Z g (a # rs) st = admitted Z l cs st"
      using cs(2) run by (simp only: a forwarded_run_Cons) simp
    then show ?thesis using cs(1) by (auto simp: a intro: list_emb_Cons)
  next
    assume st: "st1 = st2 \<and> (is_forwarded out \<longleftrightarrow> rs_Allowed res)"
    have "forwarded_run L Z g (a # rs) st =
        (if is_forwarded out then [(bucket L g now r, lc_now c)] else []) @ forwarded_run L Z g rs st1"
      by (simp only: a forwarded_run_Cons run fst_conv snd_conv)
    then have "forwarded_run L Z g (a # rs) st = admitted Z l ((bucket L g now r, c) # cs) st"
      using cs(2) st ask by simp
    then show ?thesis using cs(1) by (intro exI [of _ "(bucket L g now r, c) # cs"]) (simp add: a)
  qed
qed


text \<open>
  C32. No caller gets more than its budget through the gateway. Over any sequence of requests to
  any routes, those of one customer, or of one anonymous address, that reach an upstream within
  any span of the window are at most the limit, as long as Redis answers or the limiter fails
  closed.
\<close>

theorem gateway_rate_limit:
  assumes redis: "zset_ok Z" and l: "gc_Limiter g = Some l" "limiter_ok l"
    and empty: "\<forall>t. z_Members Z (z_At Z t (st (key_of l i))) = {}"
    and calls: "\<forall>(now, c, r) \<in> set rs. honest l c \<and> 0 \<le> lc_now c" "sorted (map (\<lambda>(now, c, r). lc_now c) rs)"
      "distinct (map (\<lambda>(now, c, r). lc_member c) rs)"
  shows "int (length (filter (\<lambda>(j, t). j = i \<and> T - window_ms l < t \<and> t \<le> T) (forwarded_run L Z g rs st))) \<le> ro_Limit (l_opts l)"
proof -
  let ?f = "\<lambda>(now, c, r). (bucket L g now r, c)"
  have "l_client l" using l(2) by (simp add: limiter_ok_def)
  then obtain cs where cs: "subseq cs (map ?f rs)" "forwarded_run L Z g rs st = admitted Z l cs st"
    using forwarded_admitted [OF l(1)] by blast
  have sub: "set cs \<subseteq> set (map ?f rs)" using subseq_set [OF cs(1)] .
  have now: "subseq (map (\<lambda>(j, c). lc_now c) cs) (map (\<lambda>(now, c, r). lc_now c) rs)"
    and mem: "subseq (map (\<lambda>(j, c). lc_member c) cs) (map (\<lambda>(now, c, r). lc_member c) rs)"
    using subseq_map [OF cs(1), of "\<lambda>(j, c). lc_now c"] subseq_map [OF cs(1), of "\<lambda>(j, c). lc_member c"]
    by (simp_all add: comp_def case_prod_unfold)
  have "sorted (map (\<lambda>(j, c). lc_now c) cs)" using subseq_sorted [OF now calls(2)] .
  moreover have "distinct (map (\<lambda>(j, c). lc_member c) cs)" using subseq_distinct [OF mem calls(3)] .
  moreover have "\<forall>(j, c) \<in> set cs. honest l c" "\<forall>(j, c) \<in> set cs. 0 \<le> lc_now c" using sub calls(1) by fastforce+
  ultimately show ?thesis using sliding_window_bound [where st = st and i = i, OF redis l(2) empty] cs(2) by simp
qed


section \<open>Concrete runs\<close>

text \<open>The routes of \<^verbatim>\<open>src/cmd/gatewaysvc/main.go\<close>, with a library that knows one token.\<close>

definition gw_routes :: "Route list" where
  "gw_routes =
     [\<lparr>rt_Prefix = ''/identity'', rt_Upstream = ''http://localhost:8085'', rt_Public = True, rt_Name = ''identity''\<rparr>,
      \<lparr>rt_Prefix = ''/product'', rt_Upstream = ''http://localhost:8081'', rt_Public = True, rt_Name = ''product''\<rparr>,
      \<lparr>rt_Prefix = ''/shopping-cart'', rt_Upstream = ''http://localhost:8082'', rt_Public = False, rt_Name = ''shopping-cart''\<rparr>,
      \<lparr>rt_Prefix = ''/orders'', rt_Upstream = ''http://localhost:8086'', rt_Public = False, rt_Name = ''orders''\<rparr>,
      \<lparr>rt_Prefix = ''/notifications'', rt_Upstream = ''http://localhost:8087'', rt_Public = False, rt_Name = ''notifications''\<rparr>]"

definition gw_claims :: Claims where
  "gw_claims = \<lparr>cl_Subject = ''cust-1'', cl_Issuer = ''shop'', cl_IssuedAt = 0, cl_NotBefore = 0,
     cl_ExpiresAt = Some 900000000000, cl_ID = ''sess-1'', cl_Email = ''a@b.c'', cl_Roles = [''customer'']\<rparr>"

definition gw_jwt :: jwt where
  "gw_jwt = \<lparr>jwt_Sign = (\<lambda>key c. if key = ''k'' \<and> c = gw_claims then Some ''tok'' else None),
     jwt_Parse = (\<lambda>kf ms iss req now tok. if tok = ''tok'' \<and> ''HS256'' \<in> set ms \<and> kf ''HS256'' = Inr ''k'' \<and>
         iss = ''shop'' \<and> 0 \<le> now \<and> now < 900000000000 then Some gw_claims else None),
     jwt_Valid = (\<lambda>alg key tok c. alg = ''HS256'' \<and> key = ''k'' \<and> tok = ''tok'' \<and> c = gw_claims)\<rparr>"

lemma gw_jwt_ok: "jwt_ok gw_jwt"
  by (auto simp: jwt_ok_def jwt_checks_def jwt_accepts_def jwt_signs_def jwt_payload_def gw_jwt_def gw_claims_def
      split: if_splits)

definition gw_config :: "Limiter option \<Rightarrow> gw_Config" where
  "gw_config l = \<lparr>gc_Routes = gw_routes, gc_Verifier = Some \<lparr>vf_secret = ''k'', vf_issuer = ''shop'', vf_revoked = None\<rparr>,
     gc_Limiter = l, gc_AnonymousLimitFactor = 1, gc_UpstreamTimeout = 30000000000\<rparr>"

text \<open>A request that claims to be somebody else's.\<close>

definition gw_request :: "string \<Rightarrow> string \<Rightarrow> string \<Rightarrow> Request" where
  "gw_request m path authz =
     \<lparr>rq_Method = m, rq_Path = path, rq_Host = ''shop'', rq_RemoteAddr = ''10.0.0.1:5000'', rq_TLS = False,
      rq_Header = (\<lambda>k. if k = ''Authorization'' \<and> authz \<noteq> '''' then [authz]
                       else if k = ''X-Customer-Id'' then [''cust-victim''] else [])\<rparr>"

lemma bearer_tok: "BearerToken ''Bearer tok'' = Some ''tok''"
proof -
  have "TrimSpace ''tok'' = ''tok''" by (simp add: TrimSpace_def trim_front.simps space_encodings_def)
  moreover have "map ascii_lower (take 7 ''Bearer tok'') = ''bearer ''" by code_simp
  ultimately show ?thesis by (simp add: BearerToken_def)
qed

lemma gw_auth: "authenticate gw_jwt (gw_config l) 0 (gw_request m path ''Bearer tok'') = Inr gw_claims"
  by (simp add: authenticate_def gw_request_def header_Get_def bearer_tok gw_config_def Verify_def gw_jwt_def verify_key_def gw_claims_def)

lemma gw_noauth: "authenticate gw_jwt (gw_config l) 0 (gw_request m path '''') = Inl (Unauthorized ''a bearer token is required'')"
  by (simp add: authenticate_def gw_request_def header_Get_def BearerToken_def)

lemma gw_dispatched:
  "dispatch (gw_mux (gw_config l)) ''GET'' ''/orders'' = Some (Serve (Endpoint ''/orders'') [])"
  "dispatch (gw_mux (gw_config l)) ''PUT'' ''/product/1'' = Some (Serve (Endpoint ''/product'') [])"
  "dispatch (gw_mux (gw_config l)) ''GET'' ''/shopping-cart/cart-cust-1'' = Some (Serve (Endpoint ''/shopping-cart'') [])"
  "dispatch (gw_mux (gw_config l)) ''GET'' ''/shopping-cart/cart-victim'' = Some (Serve (Endpoint ''/shopping-cart'') [])"
  by code_simp+

lemma gw_forwards:
  "\<exists>route r' hs st'. gw_Routes gw_jwt Z (gw_config None) 0 c (gw_request ''GET'' ''/orders'' ''Bearer tok'') st =
      (Forwarded route r', hs, st') \<and> \<not> rt_Public route"
proof -
  let ?r = "gw_request ''GET'' ''/orders'' ''Bearer tok''"
  obtain route where route: "find (\<lambda>route. rt_Prefix route = ''/orders'') (gc_Routes (gw_config None)) = Some route" "\<not> rt_Public route"
    by (simp add: gw_config_def gw_routes_def)
  have "handlerFor gw_jwt Z (gw_config None) route 0 c ?r st = (Forwarded route (attach_identity gw_claims (strip_identity ?r)), [], st)"
    by (simp add: handlerFor_def gw_auth gw_allow_def case_prod_unfold Let_def) (simp add: gw_config_def)
  moreover have "rq_Method ?r = ''GET''" "rq_Path ?r = ''/orders''" by (simp_all add: gw_request_def)
  ultimately show ?thesis using route by (simp add: gw_Routes_def gw_dispatched)
qed

lemma gateway_identity_is_verified_witness:
  "\<exists>route r' hs st' v token claims.
     gw_Routes gw_jwt list_zset (gw_config None) 0 (demo_call 0 ''m'') (gw_request ''GET'' ''/orders'' ''Bearer tok'') (\<lambda>k. ([], None)) =
       (Forwarded route r', hs, st') \<and>
     gc_Verifier (gw_config None) = Some v \<and> jwt_Valid gw_jwt ''HS256'' (vf_secret v) token claims"
proof -
  obtain route r' hs st' where fwd: "gw_Routes gw_jwt list_zset (gw_config None) 0 (demo_call 0 ''m'')
      (gw_request ''GET'' ''/orders'' ''Bearer tok'') (\<lambda>k. ([], None)) = (Forwarded route r', hs, st')" and "\<not> rt_Public route"
    using gw_forwards by blast
  from gateway_identity_is_verified [OF gw_jwt_ok fwd, of "''''"] this show ?thesis by blast
qed

theorem gateway_longest_prefix_witness:
  "\<exists>route r' hs st'.
     gw_Routes gw_jwt list_zset (gw_config None) 0 (demo_call 0 ''m'') (gw_request ''GET'' ''/orders'' ''Bearer tok'') (\<lambda>k. ([], None)) =
       (Forwarded route r', hs, st') \<and> prefix (prefix_segs route) (path_segs ''/orders'')"
proof -
  obtain route r' hs st' where fwd: "gw_Routes gw_jwt list_zset (gw_config None) 0 (demo_call 0 ''m'')
      (gw_request ''GET'' ''/orders'' ''Bearer tok'') (\<lambda>k. ([], None)) = (Forwarded route r', hs, st')"
    using gw_forwards by blast
  have "\<forall>route \<in> set (gc_Routes (gw_config None)). plain_prefix (rt_Prefix route)"
    by (simp add: gw_config_def gw_routes_def plain_prefix_def)
  moreover have "rq_Method (gw_request ''GET'' ''/orders'' ''Bearer tok'') \<noteq> ''''" "rq_Path (gw_request ''GET'' ''/orders'' ''Bearer tok'') = ''/orders''"
    by (simp_all add: gw_request_def)
  ultimately show ?thesis using gateway_longest_prefix [OF fwd] fwd by auto
qed

theorem gateway_rate_limit_witness:
  "int (length (filter (\<lambda>(j, t). j = ''anon:10.0.0.1'' \<and> 0 - 1000 < t \<and> t \<le> 0)
     (forwarded_run gw_jwt list_zset (gw_config (Some demo_limiter))
        [(0, demo_call 0 ''m1'', gw_request ''GET'' ''/product/1'' ''''), (0, demo_call 0 ''m2'', gw_request ''GET'' ''/product/2'' '''')]
        (\<lambda>k. ([], None))))) \<le> 1"
proof -
  let ?rs = "[(0, demo_call 0 ''m1'', gw_request ''GET'' ''/product/1'' ''''), (0, demo_call 0 ''m2'', gw_request ''GET'' ''/product/2'' '''')]"
  have "gc_Limiter (gw_config (Some demo_limiter)) = Some demo_limiter" by (simp add: gw_config_def)
  moreover have "\<forall>t. z_Members list_zset (z_At list_zset t ([], None)) = {}" by (simp add: list_zset_def list_at_def)
  moreover have "\<forall>(now, c, r) \<in> set ?rs. honest demo_limiter c \<and> 0 \<le> lc_now c" by (simp add: demo_call_def honest_def)
  moreover have "sorted (map (\<lambda>(now, c, r). lc_now c) ?rs)" "distinct (map (\<lambda>(now, c, r). lc_member c) ?rs)"
    by (simp_all add: demo_call_def)
  moreover have "window_ms demo_limiter = 1000" "ro_Limit (l_opts demo_limiter) = 1"
    by (simp_all add: demo_limiter_def limiter_New_def limiter_withDefaults_def)
  ultimately show ?thesis
    using gateway_rate_limit [OF list_zset_ok _ demo_limiter_ok, of "gw_config (Some demo_limiter)" "\<lambda>k. ([], None)" "''anon:10.0.0.1''" ?rs 0 gw_jwt]
    by simp
qed

text \<open>
  Writing to the catalogue needs no account: a public route is public for every method, so the
  gateway of the default configuration forwards a \<open>PUT\<close> of a product that carries no token, and
  the handler of the catalogue asks for none.
\<close>

lemma anonymous_put_reaches_catalogue:
  "\<exists>route r' st'. gw_Routes gw_jwt Z (gw_config None) 0 c (gw_request ''PUT'' ''/product/1'' '''') st = (Forwarded route r', [], st') \<and>
     rt_Name route = ''product'' \<and> rq_Method r' = ''PUT'' \<and> newProxy r' CustomerIDHeader = []"
proof -
  let ?r = "gw_request ''PUT'' ''/product/1'' ''''"
  obtain route where route: "find (\<lambda>route. rt_Prefix route = ''/product'') (gc_Routes (gw_config None)) = Some route"
      "rt_Public route" "rt_Name route = ''product''"
    by (simp add: gw_config_def gw_routes_def)
  have "handlerFor gw_jwt Z (gw_config None) route 0 c ?r st = (Forwarded route (strip_identity ?r), [], st)"
    using route(2) by (simp add: handlerFor_def gw_noauth gw_allow_def case_prod_unfold Let_def) (simp add: gw_config_def)
  moreover have "rq_Path ?r = ''/product/1''" "rq_Method ?r = ''PUT''" by (simp_all add: gw_request_def)
  ultimately show ?thesis using route(1,3) by (simp add: gw_Routes_def gw_dispatched newProxy_identity)
qed


end
