(* ===== verification/Notification.thy ===== *)
theory Notification
  imports Order_Service
begin

text \<open>
  \<^verbatim>\<open>src/internal/notification/notification.go\<close> and \<^verbatim>\<open>server.go\<close>: events become messages in a capped
  list per customer. The lists of Redis are a record of commands given as an argument, with
  \<open>rlist_ok\<close> for what is documented of them; \<open>rl_At\<close> is a key as it is at a time (milliseconds),
  gone once its deadline has passed. The encoding of events and messages as JSON is given too.
\<close>

record 's rlist =
  rl_LPush :: "string \<Rightarrow> 's \<Rightarrow> 's"
  rl_LTrim :: "int \<Rightarrow> int \<Rightarrow> 's \<Rightarrow> 's"
  rl_Expire :: "int \<Rightarrow> int \<Rightarrow> 's \<Rightarrow> 's"
  rl_LRange :: "int \<Rightarrow> int \<Rightarrow> 's \<Rightarrow> string list"
  rl_At :: "int \<Rightarrow> 's \<Rightarrow> 's"
  rl_Items :: "'s \<Rightarrow> string list"

text \<open>The deadline of \<open>Expire\<close> has the precision of a second.\<close>

definition rlist_ok :: "'s rlist \<Rightarrow> bool" where
  "rlist_ok R \<longleftrightarrow>
     (\<forall>v s. rl_Items R (rl_LPush R v s) = v # rl_Items R s) \<and>
     (\<forall>stop s. 0 \<le> stop \<longrightarrow> rl_Items R (rl_LTrim R 0 stop s) = take (nat stop + 1) (rl_Items R s)) \<and>
     (\<forall>stop s. 0 \<le> stop \<longrightarrow> rl_LRange R 0 stop s = take (nat stop + 1) (rl_Items R s)) \<and>
     (\<forall>now ttl t s. 1000000000 \<le> ttl \<longrightarrow> now \<le> t \<longrightarrow> t < now + ttl div 1000000000 * 1000 \<longrightarrow>
        rl_Items R (rl_At R t (rl_Expire R now ttl s)) = rl_Items R s)"

section \<open>Messages\<close>

definition inboxPrefix :: string where "inboxPrefix = ''notifications:''"

record Notification =
  n_ID :: string
  n_CustomerID :: string
  n_OrderID :: string
  n_Channel :: string
  n_Subject :: string
  n_Body :: string
  n_EventType :: string
  n_CreatedAt :: int

record note_codecs =
  nj_placed :: "string \<Rightarrow> OrderPlacedData option"
  nj_shipped :: "string \<Rightarrow> OrderShippedData option"
  nj_cancelled :: "string \<Rightarrow> OrderCancelledData option"
  nj_enc :: "Notification \<Rightarrow> string option"
  nj_dec :: "string \<Rightarrow> Notification option"

record note_service =
  ns_inboxSize :: int
  ns_inboxTTL :: int

definition note_NewService :: "int \<Rightarrow> int \<Rightarrow> note_service" where
  "note_NewService inboxSize inboxTTL =
     \<lparr>ns_inboxSize = (if inboxSize \<le> 0 then 50 else inboxSize),
      ns_inboxTTL = (if inboxTTL \<le> 0 then 2592000000000000 else inboxTTL)\<rparr>"

definition note_short :: "string \<Rightarrow> string" where
  "note_short orderID = (if length orderID \<le> 12 then orderID else drop (length orderID - 12) orderID)"

text \<open>The verb \<open>%.2f\<close>: two decimals, ties to even on the exact value.\<close>

fun fmt2 :: "float64 \<Rightarrow> string" where
  "fmt2 NaN = ''NaN''"
| "fmt2 (Inf neg) = (if neg then ''-Inf'' else ''+Inf'')"
| "fmt2 (Fin a) =
     (let c = round_even (\<bar>a\<bar> * 100); f = c mod 100
      in (if a < 0 then ''-'' else '''') @ itoa (c div 100) @ ''.'' @ (if f < 10 then ''0'' else '''') @ itoa f)"

definition note_render :: "note_codecs \<Rightarrow> Envelope \<Rightarrow> Notification option" where
  "note_render J e =
     (let base = \<lparr>n_ID = v_ID e, n_CustomerID = v_CustomerID e, n_OrderID = v_OrderID e, n_Channel = ''email'',
                  n_Subject = '''', n_Body = '''', n_EventType = v_Type e, n_CreatedAt = v_OccurredAt e\<rparr>
      in if v_Type e = OrderPlaced
         then (case Decode (nj_placed J) e of
                 Inl err \<Rightarrow> None
               | Inr d \<Rightarrow> Some (base\<lparr>n_Subject := ''Order '' @ note_short (pd_OrderID d) @ '' confirmed'',
                   n_Body := ''Thanks for your order. '' @ itoa (int (length (pd_Items d))) @ '' item(s), '' @ fmt2 (pd_TotalPrice d) @
                             '' total. We will let you know when it ships.''\<rparr>))
         else if v_Type e = OrderShipped
         then (case Decode (nj_shipped J) e of
                 Inl err \<Rightarrow> None
               | Inr d \<Rightarrow> Some (base\<lparr>n_Subject := ''Order '' @ note_short (sd_OrderID d) @ '' is on its way'',
                   n_Body := itoa (int (length (sd_Items d))) @ '' item(s) have left the warehouse.''\<rparr>))
         else if v_Type e = OrderCancelled
         then (case Decode (nj_cancelled J) e of
                 Inl err \<Rightarrow> None
               | Inr d \<Rightarrow>
                   (let reason = (if cd_Reason d = '''' then ''no reason given'' else cd_Reason d)
                    in Some (base\<lparr>n_Subject := ''Order '' @ note_short (cd_OrderID d) @ '' cancelled'',
                         n_Body := ''Your order has been cancelled ('' @ reason @ ''). Any hold on your card will be released.''\<rparr>)))
         else None)"

section \<open>The inbox\<close>

text \<open>One delivery: Redis' clock, the error of the transaction and whether it ran in spite of it.\<close>

record note_call =
  nc_now :: int
  nc_err :: "go_error option"
  nc_ran :: bool

definition note_push :: "'s rlist \<Rightarrow> note_service \<Rightarrow> int \<Rightarrow> string \<Rightarrow> 's \<Rightarrow> 's" where
  "note_push R s now raw l =
     rl_Expire R now (ns_inboxTTL s) (rl_LTrim R 0 (ns_inboxSize s - 1) (rl_LPush R raw (rl_At R now l)))"

definition note_deliver :: "note_codecs \<Rightarrow> 's rlist \<Rightarrow> note_service \<Rightarrow> note_call \<Rightarrow> Notification \<Rightarrow> (string \<Rightarrow> 's)
    \<Rightarrow> go_error option \<times> (string \<Rightarrow> 's)" where
  "note_deliver J R s c n st =
     (if n_CustomerID n = '''' then (Some (Wrapped ''%w: notification has no recipient'' [ErrUndeliverable]), st)
      else (case nj_enc J n of
              None \<Rightarrow> (Some (Wrapped ''%w: encoding notification: %w'' [ErrUndeliverable, Sentinel ''json'']), st)
            | Some raw \<Rightarrow>
                (let key = inboxPrefix @ n_CustomerID n; st' = st(key := note_push R s (nc_now c) raw (st key))
                 in case nc_err c of
                      Some err \<Rightarrow> (Some (Wrapped ''delivering notification: %w'' [err]), if nc_ran c then st' else st)
                    | None \<Rightarrow> (None, st'))))"

definition note_Handle :: "note_codecs \<Rightarrow> 's rlist \<Rightarrow> note_service \<Rightarrow> note_call \<Rightarrow> Envelope \<Rightarrow> (string \<Rightarrow> 's)
    \<Rightarrow> go_error option \<times> (string \<Rightarrow> 's)" where
  "note_Handle J R s c e st = (case note_render J e of None \<Rightarrow> (None, st) | Some n \<Rightarrow> note_deliver J R s c n st)"

definition note_Inbox :: "note_codecs \<Rightarrow> 's rlist \<Rightarrow> note_service \<Rightarrow> note_call \<Rightarrow> string \<Rightarrow> int \<Rightarrow> (string \<Rightarrow> 's)
    \<Rightarrow> Notification list res" where
  "note_Inbox J R s c customerID limit0 st =
     (let limit = (if limit0 \<le> 0 \<or> limit0 > ns_inboxSize s then ns_inboxSize s else limit0)
      in if customerID = '''' then Inl (Errorf StatusBadRequest ''customerId is required'')
         else (case nc_err c of
                 Some err \<Rightarrow> Inl (Wrap StatusServiceUnavailable err ''notification store unavailable'')
               | None \<Rightarrow> Inr (List.map_filter (nj_dec J)
                                (rl_LRange R 0 (limit - 1) (rl_At R (nc_now c) (st (inboxPrefix @ customerID)))))))"

definition note_handleInbox :: "note_codecs \<Rightarrow> 's rlist \<Rightarrow> note_service \<Rightarrow> note_call \<Rightarrow> string \<Rightarrow> string \<Rightarrow> (string \<Rightarrow> 's)
    \<Rightarrow> (int \<times> string \<times> nat \<times> Notification list) res" where
  "note_handleInbox J R s c header limitq st =
     (if header = '''' then Inl (Unauthorized ''this endpoint requires an authenticated customer'')
      else (case note_Inbox J R s c header (case Atoi limitq of None \<Rightarrow> 0 | Some n \<Rightarrow> n) st of
              Inl err \<Rightarrow> Inl err
            | Inr ms \<Rightarrow> Inr (StatusOK, header, length ms, ms)))"

section \<open>The inbox is the newest messages\<close>

lemma rlist_okD:
  assumes "rlist_ok R"
  shows "rl_Items R (rl_LPush R v s) = v # rl_Items R s"
    and "0 \<le> stop \<Longrightarrow> rl_Items R (rl_LTrim R 0 stop s) = take (nat stop + 1) (rl_Items R s)"
    and "0 \<le> stop \<Longrightarrow> rl_LRange R 0 stop s = take (nat stop + 1) (rl_Items R s)"
    and "1000000000 \<le> ttl \<Longrightarrow> now \<le> t \<Longrightarrow> t < now + ttl div 1000000000 * 1000 \<Longrightarrow>
           rl_Items R (rl_At R t (rl_Expire R now ttl s)) = rl_Items R s"
  using assms by (simp_all add: rlist_ok_def)

text \<open>The messages of a customer in a sequence of events, oldest first.\<close>

definition note_for :: "note_codecs \<Rightarrow> string \<Rightarrow> Envelope \<Rightarrow> Notification list" where
  "note_for J customerID e = filter (\<lambda>n. n_CustomerID n = customerID) (case note_render J e of None \<Rightarrow> [] | Some n \<Rightarrow> [n])"

fun note_run :: "note_codecs \<Rightarrow> 's rlist \<Rightarrow> note_service \<Rightarrow> (note_call \<times> Envelope) list \<Rightarrow> (string \<Rightarrow> 's)
    \<Rightarrow> go_error option \<times> (string \<Rightarrow> 's)" where
  "note_run J R s [] st = (None, st)"
| "note_run J R s ((c, e) # es) st =
     (case note_Handle J R s c e st of
        (Some err, st') \<Rightarrow> (Some err, st')
      | (None, st') \<Rightarrow> note_run J R s es st')"

text \<open>From \<open>t\<close> until \<open>u\<close> the key holds the messages \<open>xs\<close>.\<close>

definition inbox_holds :: "note_codecs \<Rightarrow> 's rlist \<Rightarrow> int \<Rightarrow> int \<Rightarrow> Notification list \<Rightarrow> 's \<Rightarrow> bool" where
  "inbox_holds J R t u xs l \<longleftrightarrow>
     (\<exists>raws. map (nj_dec J) raws = map Some xs \<and> (\<forall>t'. t \<le> t' \<and> t' < u \<longrightarrow> rl_Items R (rl_At R t' l) = raws))"

lemma inbox_push:
  assumes R: "rlist_ok R" and J: "codec_ok (nj_enc J) (nj_dec J)" and s: "0 < ns_inboxSize s" "1000000000 \<le> ns_inboxTTL s"
    and h: "inbox_holds J R t u xs l" and now: "t \<le> now" "now < u" "u \<le> now + ns_inboxTTL s div 1000000000 * 1000"
    and raw: "nj_enc J n = Some raw"
  shows "inbox_holds J R now u (take (nat (ns_inboxSize s)) (n # xs)) (note_push R s now raw l)"
proof -
  obtain raws where raws: "map (nj_dec J) raws = map Some xs" "\<And>t'. t \<le> t' \<Longrightarrow> t' < u \<Longrightarrow> rl_Items R (rl_At R t' l) = raws"
    using h by (auto simp: inbox_holds_def)
  have size: "nat (ns_inboxSize s - 1) + 1 = nat (ns_inboxSize s)" using s(1) by simp
  have "rl_Items R (rl_At R t' (note_push R s now raw l)) = take (nat (ns_inboxSize s)) (raw # raws)"
    if "now \<le> t'" "t' < u" for t'
    using rlist_okD(4) [OF R s(2) that(1)] rlist_okD(1) [OF R] rlist_okD(2) [OF R, of "ns_inboxSize s - 1"] raws(2) [OF now(1,2)] s(1) that(2) now(3) size
    by (simp add: note_push_def)
  moreover have "map (nj_dec J) (take (nat (ns_inboxSize s)) (raw # raws)) = map Some (take (nat (ns_inboxSize s)) (n # xs))"
    using raws(1) codec_okD [OF J raw] by (metis list.map(2) take_map)
  ultimately show ?thesis unfolding inbox_holds_def by blast
qed

lemma inbox_step:
  assumes R: "rlist_ok R" and J: "codec_ok (nj_enc J) (nj_dec J)" and s: "0 < ns_inboxSize s" "1000000000 \<le> ns_inboxTTL s"
    and h: "inbox_holds J R t u xs (st (inboxPrefix @ customerID))"
    and now: "t \<le> nc_now c" "nc_now c < u" "u \<le> nc_now c + ns_inboxTTL s div 1000000000 * 1000"
    and ok: "note_Handle J R s c e st = (None, st')" and len: "length xs \<le> nat (ns_inboxSize s)"
  shows "inbox_holds J R (nc_now c) u (take (nat (ns_inboxSize s)) (note_for J customerID e @ xs)) (st' (inboxPrefix @ customerID))"
proof (cases "note_render J e")
  case None
  then have "st' = st" "note_for J customerID e = []" using ok by (simp_all add: note_Handle_def note_for_def)
  with h now(1) len show ?thesis by (auto simp: inbox_holds_def)
next
  case (Some n)
  then obtain raw where raw: "nj_enc J n = Some raw" and
    st': "st' = st(inboxPrefix @ n_CustomerID n := note_push R s (nc_now c) raw (st (inboxPrefix @ n_CustomerID n)))"
    using ok by (auto simp: note_Handle_def note_deliver_def Let_def split: option.splits if_splits)
  show ?thesis
  proof (cases "n_CustomerID n = customerID")
    case True
    then show ?thesis using inbox_push [OF R J s h now raw] Some st' by (simp add: note_for_def)
  next
    case False
    then show ?thesis using h now(1) len Some st' by (auto simp: inbox_holds_def note_for_def)
  qed
qed

lemma take_take_append: "take n (xs @ take n ys) = take n (xs @ ys)"
  by (simp add: min_def)

lemma inbox_run:
  assumes R: "rlist_ok R" and J: "codec_ok (nj_enc J) (nj_dec J)" and s: "0 < ns_inboxSize s" "1000000000 \<le> ns_inboxTTL s"
    and "inbox_holds J R t u xs (st (inboxPrefix @ customerID))" "length xs \<le> nat (ns_inboxSize s)"
    and "sorted (map (\<lambda>(c, e). nc_now c) es)"
    and "\<forall>(c, e) \<in> set es. t \<le> nc_now c \<and> nc_now c < u \<and> u \<le> nc_now c + ns_inboxTTL s div 1000000000 * 1000"
    and "note_run J R s es st = (None, st')"
  shows "\<exists>t'. (t' = t \<or> t' \<in> (\<lambda>(c, e). nc_now c) ` set es) \<and>
    inbox_holds J R t' u (take (nat (ns_inboxSize s)) (rev (concat (map (\<lambda>(c, e). note_for J customerID e) es)) @ xs))
      (st' (inboxPrefix @ customerID))"
  using assms(5-)
proof (induction es arbitrary: st xs t)
  case Nil
  then show ?case by auto
next
  case (Cons ce es)
  obtain c e where ce: "ce = (c, e)" by force
  obtain st1 where ok: "note_Handle J R s c e st = (None, st1)" "note_run J R s es st1 = (None, st')"
    using Cons.prems(5) by (auto simp: ce split: prod.splits option.splits)
  let ?ys = "take (nat (ns_inboxSize s)) (note_for J customerID e @ xs)"
  have step: "inbox_holds J R (nc_now c) u ?ys (st1 (inboxPrefix @ customerID))"
    using inbox_step [OF R J s Cons.prems(1) _ _ _ ok(1) Cons.prems(2)] Cons.prems(4) ce by auto
  have later: "sorted (map (\<lambda>(c, e). nc_now c) es)"
    "\<forall>(c', e) \<in> set es. nc_now c \<le> nc_now c' \<and> nc_now c' < u \<and> u \<le> nc_now c' + ns_inboxTTL s div 1000000000 * 1000"
    using Cons.prems(3,4) ce by auto
  obtain t' where t': "t' = nc_now c \<or> t' \<in> (\<lambda>(c, e). nc_now c) ` set es"
      "inbox_holds J R t' u (take (nat (ns_inboxSize s)) (rev (concat (map (\<lambda>(c, e). note_for J customerID e) es)) @ ?ys))
        (st' (inboxPrefix @ customerID))"
    using Cons.IH [OF step _ later ok(2)] by (metis length_take min.cobounded2)
  have one: "rev (note_for J customerID e) = note_for J customerID e" by (simp add: note_for_def split: option.split)
  from t' show ?case unfolding take_take_append by (intro exI [of _ t']) (auto simp: ce one simp del: take_append)
qed

lemma inbox_after_run:
  assumes R: "rlist_ok R" and J: "codec_ok (nj_enc J) (nj_dec J)" and s: "0 < ns_inboxSize s" "1000000000 \<le> ns_inboxTTL s"
    and empty: "\<And>t. rl_Items R (rl_At R t (st (inboxPrefix @ customerID))) = []"
    and run: "note_run J R s es st = (None, st')" "sorted (map (\<lambda>(c, e). nc_now c) es)"
    and times: "\<forall>(c, e) \<in> set es. t0 \<le> nc_now c \<and> nc_now c \<le> t" "t0 \<le> t"
      "t < t0 + ns_inboxTTL s div 1000000000 * 1000"
  shows "map (nj_dec J) (rl_Items R (rl_At R t (st' (inboxPrefix @ customerID)))) =
         map Some (take (nat (ns_inboxSize s)) (rev (concat (map (\<lambda>(c, e). note_for J customerID e) es))))"
proof -
  let ?u = "t0 + ns_inboxTTL s div 1000000000 * 1000" and ?new = "rev (concat (map (\<lambda>(c, e). note_for J customerID e) es))"
  have "inbox_holds J R t0 ?u [] (st (inboxPrefix @ customerID))" using empty by (simp add: inbox_holds_def)
  moreover have "\<forall>(c, e) \<in> set es. t0 \<le> nc_now c \<and> nc_now c < ?u \<and> ?u \<le> nc_now c + ns_inboxTTL s div 1000000000 * 1000"
    using times by fastforce
  ultimately obtain t' where t': "t' = t0 \<or> t' \<in> (\<lambda>(c, e). nc_now c) ` set es"
      "inbox_holds J R t' ?u (take (nat (ns_inboxSize s)) (?new @ [])) (st' (inboxPrefix @ customerID))"
    using inbox_run [OF R J s, of t0 ?u "[]" st customerID es st'] run by auto
  have "t' \<le> t" using t'(1) times by auto
  then show ?thesis using t'(2) times(3) by (auto simp: inbox_holds_def)
qed

section \<open>An inbox holds its owner's messages only\<close>

definition own_inboxes :: "note_codecs \<Rightarrow> 's rlist \<Rightarrow> int \<Rightarrow> (string \<Rightarrow> 's) \<Rightarrow> bool" where
  "own_inboxes J R t st \<longleftrightarrow>
     (\<forall>customerID raw n. raw \<in> set (rl_Items R (rl_At R t (st (inboxPrefix @ customerID)))) \<and> nj_dec J raw = Some n \<longrightarrow>
        n_CustomerID n = customerID)"

text \<open>So it is after the service has handled any events.\<close>

lemma note_run_own_inboxes:
  assumes R: "rlist_ok R" and J: "codec_ok (nj_enc J) (nj_dec J)" and s: "0 < ns_inboxSize s" "1000000000 \<le> ns_inboxTTL s"
    and empty: "\<And>t customerID. rl_Items R (rl_At R t (st (inboxPrefix @ customerID))) = []"
    and run: "note_run J R s es st = (None, st')" "sorted (map (\<lambda>(c, e). nc_now c) es)"
    and times: "\<forall>(c, e) \<in> set es. t0 \<le> nc_now c \<and> nc_now c \<le> t" "t0 \<le> t" "t < t0 + ns_inboxTTL s div 1000000000 * 1000"
  shows "own_inboxes J R t st'"
  unfolding own_inboxes_def
proof (intro allI impI, elim conjE)
  fix customerID raw n
  let ?new = "rev (concat (map (\<lambda>(c, e). note_for J customerID e) es))"
  assume "raw \<in> set (rl_Items R (rl_At R t (st' (inboxPrefix @ customerID))))" "nj_dec J raw = Some n"
  then have "Some n \<in> set (map (nj_dec J) (rl_Items R (rl_At R t (st' (inboxPrefix @ customerID)))))" by force
  then have "n \<in> set ?new"
    unfolding inbox_after_run [OF R J s empty run times] by (auto dest: in_set_takeD)
  then show "n_CustomerID n = customerID" by (auto simp: note_for_def)
qed

lemma note_Inbox_own:
  assumes R: "rlist_ok R" and s: "0 < ns_inboxSize s" and own: "own_inboxes J R (nc_now c) st"
    and read: "note_Inbox J R s c customerID limit st = Inr ms" and m: "m \<in> set ms"
  shows "n_CustomerID m = customerID"
proof -
  define n where "n = (if limit \<le> 0 \<or> limit > ns_inboxSize s then ns_inboxSize s else limit) - 1"
  have "0 \<le> n" using s by (auto simp: n_def)
  moreover obtain raw where "raw \<in> set (rl_LRange R 0 n (rl_At R (nc_now c) (st (inboxPrefix @ customerID))))" "nj_dec J raw = Some m"
    using read m by (auto simp: note_Inbox_def Let_def n_def List.map_filter_def split: if_splits option.splits)
  ultimately have "raw \<in> set (rl_Items R (rl_At R (nc_now c) (st (inboxPrefix @ customerID))))"
    using rlist_okD(3) [OF R] by (auto dest: in_set_takeD)
  with own \<open>nj_dec J raw = Some m\<close> show ?thesis by (auto simp: own_inboxes_def)
qed

lemma note_Inbox_newest:
  assumes R: "rlist_ok R" and J: "codec_ok (nj_enc J) (nj_dec J)" and s: "0 < ns_inboxSize s" "1000000000 \<le> ns_inboxTTL s"
    and empty: "\<And>t. rl_Items R (rl_At R t (st (inboxPrefix @ customerID))) = []"
    and run: "note_run J R s es st = (None, st')" "sorted (map (\<lambda>(c, e). nc_now c) es)"
    and times: "\<forall>(c, e) \<in> set es. t0 \<le> nc_now c \<and> nc_now c \<le> nc_now rc" "t0 \<le> nc_now rc"
      "nc_now rc < t0 + ns_inboxTTL s div 1000000000 * 1000"
    and read: "nc_err rc = None" "customerID \<noteq> ''''"
  shows "note_Inbox J R s rc customerID limit st' =
    Inr (take (nat (if limit \<le> 0 \<or> limit > ns_inboxSize s then ns_inboxSize s else limit))
           (rev (concat (map (\<lambda>(c, e). note_for J customerID e) es))))"
proof -
  let ?new = "rev (concat (map (\<lambda>(c, e). note_for J customerID e) es))"
  let ?lim = "if limit \<le> 0 \<or> limit > ns_inboxSize s then ns_inboxSize s else limit"
  let ?raws = "rl_Items R (rl_At R (nc_now rc) (st' (inboxPrefix @ customerID)))"
  have raws: "map (nj_dec J) ?raws = map Some (take (nat (ns_inboxSize s)) ?new)"
    by (rule inbox_after_run [OF R J s empty run times])
  have lim: "0 \<le> ?lim - 1" "nat (?lim - 1) + 1 = nat ?lim" "nat ?lim \<le> nat (ns_inboxSize s)" using s(1) by auto
  have some: "List.map_filter (nj_dec J) ws = ys" if "map (nj_dec J) ws = map Some ys" for ws ys
    using that by (induction ws arbitrary: ys) (auto simp: List.map_filter_simps)
  have "map (nj_dec J) (take (nat ?lim) ?raws) = map Some (take (nat ?lim) (take (nat (ns_inboxSize s)) ?new))"
    using raws by (metis take_map)
  also have "take (nat ?lim) (take (nat (ns_inboxSize s)) ?new) = take (nat ?lim) ?new" using lim(3) by (simp add: min_absorb1)
  finally have "List.map_filter (nj_dec J) (take (nat ?lim) ?raws) = take (nat ?lim) ?new" by (rule some)
  moreover have "rl_LRange R 0 (?lim - 1) (rl_At R (nc_now rc) (st' (inboxPrefix @ customerID))) = take (nat ?lim) ?raws"
    using rlist_okD(3) [OF R lim(1)] lim(2) by simp
  ultimately show ?thesis using read by (simp add: note_Inbox_def Let_def)
qed

text \<open>
  C34. A customer's inbox is the newest messages, newest first. After any sequence of events whose
  handling succeeded, within the lifetime of the inbox, reading it gives the messages rendered
  for that customer in reverse order, cut to the limit that is asked for and to the size of the
  inbox: none of another customer, none missing, none out of order.
\<close>

theorem inbox_newest_first:
  assumes R: "rlist_ok R" and J: "codec_ok (nj_enc J) (nj_dec J)" and s: "0 < ns_inboxSize s" "1000000000 \<le> ns_inboxTTL s"
    and empty: "\<And>t. rl_Items R (rl_At R t (st (inboxPrefix @ customerID))) = []"
    and run: "note_run J R s es st = (None, st')" "sorted (map (\<lambda>(c, e). nc_now c) es)"
    and times: "\<forall>(c, e) \<in> set es. t0 \<le> nc_now c \<and> nc_now c \<le> nc_now rc" "t0 \<le> nc_now rc"
      "nc_now rc < t0 + ns_inboxTTL s div 1000000000 * 1000"
    and read: "nc_err rc = None" "customerID \<noteq> ''''"
  shows "note_Inbox J R s rc customerID limit st' =
    Inr (take (nat (if limit \<le> 0 \<or> limit > ns_inboxSize s then ns_inboxSize s else limit))
           (rev (concat (map (\<lambda>(c, e). note_for J customerID e) es))))"
  by (rule note_Inbox_newest [OF assms])


section \<open>A concrete inbox\<close>

definition plain_rlist :: "(string list \<times> int option) rlist" where
  "plain_rlist = \<lparr>rl_LPush = (\<lambda>v s. (v # fst s, snd s)), rl_LTrim = (\<lambda>a b s. (take (nat b + 1) (fst s), snd s)),
     rl_Expire = (\<lambda>now ttl s. (fst s, Some (now + ttl div 1000000000 * 1000))), rl_LRange = (\<lambda>a b s. take (nat b + 1) (fst s)),
     rl_At = (\<lambda>t s. case snd s of None \<Rightarrow> s | Some d \<Rightarrow> if d \<le> t then ([], None) else s), rl_Items = fst\<rparr>"

lemma plain_rlist_ok: "rlist_ok plain_rlist"
  by (auto simp: rlist_ok_def plain_rlist_def)

definition note_event :: Envelope where
  "note_event = \<lparr>v_ID = ''evt-1'', v_Type = OrderShipped, v_OccurredAt = 5, v_CorrelationID = '''', v_OrderID = ''ord-1'',
     v_CustomerID = ''cust-1'', v_Data = ''d''\<rparr>"

definition note_message :: Notification where
  "note_message = \<lparr>n_ID = ''evt-1'', n_CustomerID = ''cust-1'', n_OrderID = ''ord-1'', n_Channel = ''email'',
     n_Subject = ''Order ord-1 is on its way'', n_Body = itoa 0 @ '' item(s) have left the warehouse.'',
     n_EventType = OrderShipped, n_CreatedAt = 5\<rparr>"

definition note_J :: note_codecs where
  "note_J = \<lparr>nj_placed = (\<lambda>_. None),
     nj_shipped = (\<lambda>_. Some \<lparr>sd_OrderID = ''ord-1'', sd_CustomerID = ''cust-1'', sd_Items = [], sd_Outcome = ''shipped'', sd_ShippedAt = 5\<rparr>),
     nj_cancelled = (\<lambda>_. None), nj_enc = table_enc [(note_message, ''m'')], nj_dec = table_dec [(note_message, ''m'')]\<rparr>"

lemma note_J_ok: "codec_ok (nj_enc note_J) (nj_dec note_J)"
  using table_codec_ok [of "[(note_message, ''m'')]"] by (simp add: note_J_def)

lemma note_J_render: "note_render note_J note_event = Some note_message"
  by (simp add: note_render_def note_event_def note_J_def Decode_def note_message_def note_short_def OrderShipped_def OrderPlaced_def Let_def)

definition note_at :: "int \<Rightarrow> note_call" where "note_at t = \<lparr>nc_now = t, nc_err = None, nc_ran = True\<rparr>"

lemma note_demo_run:
  "\<exists>st'. note_run note_J plain_rlist (note_NewService 1 0) [(note_at 0, note_event), (note_at 1, note_event)] (\<lambda>k. ([], None)) = (None, st')"
proof -
  have "\<exists>st'. note_Handle note_J plain_rlist (note_NewService 1 0) (note_at t) note_event st = (None, st')" for t st
    by (simp add: note_Handle_def note_J_render note_deliver_def note_at_def)
      (simp add: note_message_def note_J_def table_enc_def Let_def)
  then show ?thesis by (metis (no_types, lifting) note_run.simps option.case(1) prod.case)
qed

lemma note_for_demo: "note_for note_J ''cust-1'' note_event = [note_message]"
  by (simp add: note_for_def note_J_render note_message_def)

lemma note_demo_inbox:
  assumes "note_run note_J plain_rlist (note_NewService 1 0) [(note_at 0, note_event), (note_at 1, note_event)] (\<lambda>k. ([], None)) = (None, st')"
  shows "note_Inbox note_J plain_rlist (note_NewService 1 0) (note_at 2) ''cust-1'' 0 st' = Inr [note_message]"
  by (subst note_Inbox_newest [OF plain_rlist_ok note_J_ok _ _ _ assms, where ?t0.0 = 0])
    (simp_all add: note_NewService_def note_at_def plain_rlist_def note_for_demo)

theorem inbox_newest_first_witness:
  "\<exists>st'. note_run note_J plain_rlist (note_NewService 1 0) [(note_at 0, note_event), (note_at 1, note_event)] (\<lambda>k. ([], None)) = (None, st') \<and>
     note_Inbox note_J plain_rlist (note_NewService 1 0) (note_at 2) ''cust-1'' 0 st' = Inr [note_message]"
proof -
  let ?s = "note_NewService 1 0" and ?es = "[(note_at 0, note_event), (note_at 1, note_event)]"
  obtain st' where run: "note_run note_J plain_rlist ?s ?es (\<lambda>k. ([], None)) = (None, st')" using note_demo_run by blast
  have "note_Inbox note_J plain_rlist ?s (note_at 2) ''cust-1'' 0 st' =
      Inr (take (nat (if (0 :: int) \<le> 0 \<or> 0 > ns_inboxSize ?s then ns_inboxSize ?s else 0))
        (rev (concat (map (\<lambda>(c, e). note_for note_J ''cust-1'' e) ?es))))"
    by (rule inbox_newest_first [OF plain_rlist_ok note_J_ok _ _ _ run, where ?t0.0 = 0])
      (simp_all add: note_NewService_def note_at_def plain_rlist_def)
  then show ?thesis using run by (simp add: note_NewService_def note_for_demo)
qed


end
