(* ===== verification/Rmq_Publisher.thy ===== *)
theory Rmq_Publisher
  imports Httpx_Errors "HOL-Library.Multiset"
begin

text \<open>
  \<^verbatim>\<open>src/internal/rmq/publisher.go\<close>: the pool of confirming channels. A channel is a number; the
  library's channels are seen through what they answer: whether a channel is closed, what opening
  one gives, how a publish ends. An empty slot is the allowance to open a channel.
\<close>

definition ErrPoolExhausted :: go_error where "ErrPoolExhausted = Sentinel ''rmq: channel pool exhausted''"
definition ErrClosed :: go_error where "ErrClosed = Sentinel ''rmq: connection closed''"

record Publisher =
  pb_cap :: nat
  pb_pool :: "nat option list"
  pb_closed :: bool

definition newPublisher :: "int \<Rightarrow> Publisher" where
  "newPublisher poolSize =
     (let size = nat (if poolSize < 1 then 1 else poolSize)
      in \<lparr>pb_cap = size, pb_pool = replicate size None, pb_closed = False\<rparr>)"

text \<open>Which case of a \<open>select\<close> is taken when several are ready is not determined.\<close>

datatype choice = TakeSlot | TimedOut | SawClosed

record borrow_env =
  be_choice :: choice
  be_isClosed :: "nat \<Rightarrow> bool"
  be_open :: "nat res"

definition borrow :: "borrow_env \<Rightarrow> Publisher \<Rightarrow> nat res \<times> Publisher" where
  "borrow ev p =
     (case be_choice ev of
        TimedOut \<Rightarrow> (Inl ErrPoolExhausted, p)
      | SawClosed \<Rightarrow> (Inl (if pb_closed p then ErrClosed else ErrPoolExhausted), p)
      | TakeSlot \<Rightarrow>
          (case pb_pool p of
             [] \<Rightarrow> (Inl ErrPoolExhausted, p)
           | slot # rest \<Rightarrow>
               (case slot of
                  Some ch \<Rightarrow>
                    (if \<not> be_isClosed ev ch then (Inr ch, p\<lparr>pb_pool := rest\<rparr>)
                     else (case be_open ev of
                             Inl err \<Rightarrow> (Inl err, p\<lparr>pb_pool := rest @ [None]\<rparr>)
                           | Inr new \<Rightarrow> (Inr new, p\<lparr>pb_pool := rest\<rparr>)))
                | None \<Rightarrow>
                    (case be_open ev of
                       Inl err \<Rightarrow> (Inl err, p\<lparr>pb_pool := rest @ [None]\<rparr>)
                     | Inr new \<Rightarrow> (Inr new, p\<lparr>pb_pool := rest\<rparr>)))))"

definition giveBack :: "nat \<Rightarrow> bool \<Rightarrow> bool \<Rightarrow> Publisher \<Rightarrow> Publisher" where
  "giveBack ch healthy closed p =
     (let slot = (if \<not> healthy \<or> closed then None else Some ch)
      in if length (pb_pool p) < pb_cap p then p\<lparr>pb_pool := pb_pool p @ [slot]\<rparr> else p)"

text \<open>The outcome of a publish on a borrowed channel: an error of sending, an error of waiting
  for the confirmation, or the broker's answer.\<close>

record publish_env =
  pe_pubErr :: "go_error option"
  pe_confirm :: "bool res"

definition publish_on :: "publish_env \<Rightarrow> go_error option" where
  "publish_on ev =
     (case pe_pubErr ev of
        Some e \<Rightarrow> Some (Wrapped ''rmq: publishing to %q: %w'' [e])
      | None \<Rightarrow>
          (case pe_confirm ev of
             Inl e \<Rightarrow> Some (Wrapped ''rmq: waiting for confirm on %q: %w'' [e])
           | Inr acked \<Rightarrow> if acked then None else Some (Wrapped ''rmq: broker nacked message on %q'' [])))"

text \<open>\<open>PublishKey\<close> without other publishers in between.\<close>

definition PublishKey :: "borrow_env \<Rightarrow> publish_env \<Rightarrow> bool \<Rightarrow> Publisher \<Rightarrow> go_error option \<times> Publisher" where
  "PublishKey bev pev dead p =
     (if pb_closed p then (Some ErrClosed, p)
      else (case borrow bev p of
              (Inl err, p1) \<Rightarrow> (Some err, p1)
            | (Inr ch, p1) \<Rightarrow> (let err = publish_on pev in (err, giveBack ch (err = None) dead p1))))"

text \<open>\<open>Close\<close>: \<open>got\<close> slots are reclaimed before it gives up waiting.\<close>

definition publisher_Close :: "nat \<Rightarrow> Publisher \<Rightarrow> Publisher" where
  "publisher_Close got p = p\<lparr>pb_closed := True, pb_pool := drop (min got (pb_cap p)) (pb_pool p)\<rparr>"

section \<open>Concurrent publishers\<close>

text \<open>The pool with the channels that are lent out. Other publishers may run between a borrow and
  its return. A channel that is opened is a new one.\<close>

record pool_state =
  ps_pub :: Publisher
  ps_lent :: "nat list"
  ps_next :: nat

definition pool_channels :: "Publisher \<Rightarrow> nat list" where
  "pool_channels p = concat (map (case_option [] (\<lambda>ch. [ch])) (pb_pool p))"

inductive pool_step :: "pool_state \<Rightarrow> pool_state \<Rightarrow> bool" where
  borrowed: "borrow ev (ps_pub s) = (Inr ch, p) \<Longrightarrow> (\<And>new. be_open ev = Inr new \<Longrightarrow> new = ps_next s) \<Longrightarrow>
     pool_step s (s\<lparr>ps_pub := p, ps_lent := ch # ps_lent s, ps_next := Suc (ps_next s)\<rparr>)"
| refused: "borrow ev (ps_pub s) = (Inl err, p) \<Longrightarrow> pool_step s (s\<lparr>ps_pub := p\<rparr>)"
| returned: "ch \<in> set (ps_lent s) \<Longrightarrow>
     pool_step s (s\<lparr>ps_pub := giveBack ch healthy dead (ps_pub s), ps_lent := remove1 ch (ps_lent s)\<rparr>)"

definition pool_inv :: "pool_state \<Rightarrow> bool" where
  "pool_inv s \<longleftrightarrow>
     length (pb_pool (ps_pub s)) + length (ps_lent s) = pb_cap (ps_pub s) \<and>
     distinct (pool_channels (ps_pub s) @ ps_lent s) \<and>
     (\<forall>ch \<in> set (pool_channels (ps_pub s)) \<union> set (ps_lent s). ch < ps_next s)"

lemma pool_channels_simps [simp]:
  "pb_pool p = xs \<Longrightarrow> pool_channels (p\<lparr>pb_pool := xs\<rparr>) = pool_channels p"
  "pool_channels (p\<lparr>pb_pool := xs @ [None]\<rparr>) = pool_channels (p\<lparr>pb_pool := xs\<rparr>)"
  "pool_channels (p\<lparr>pb_pool := xs @ [Some ch]\<rparr>) = pool_channels (p\<lparr>pb_pool := xs\<rparr>) @ [ch]"
  by (auto simp: pool_channels_def)

lemma pool_channels_Cons:
  "pb_pool p = slot # rest \<Longrightarrow> pool_channels p = (case slot of None \<Rightarrow> [] | Some ch \<Rightarrow> [ch]) @ pool_channels (p\<lparr>pb_pool := rest\<rparr>)"
  by (auto simp: pool_channels_def split: option.split)

lemma borrow_cases:
  "borrow ev p = (case be_choice ev of
     TakeSlot \<Rightarrow> (case pb_pool p of
        [] \<Rightarrow> (Inl ErrPoolExhausted, p)
      | slot # rest \<Rightarrow>
          (if \<exists>ch. slot = Some ch \<and> \<not> be_isClosed ev ch then (Inr (the slot), p\<lparr>pb_pool := rest\<rparr>)
           else (case be_open ev of Inl err \<Rightarrow> (Inl err, p\<lparr>pb_pool := rest @ [None]\<rparr>) | Inr new \<Rightarrow> (Inr new, p\<lparr>pb_pool := rest\<rparr>))))
   | TimedOut \<Rightarrow> (Inl ErrPoolExhausted, p)
   | SawClosed \<Rightarrow> (Inl (if pb_closed p then ErrClosed else ErrPoolExhausted), p))"
  by (simp add: borrow_def split: choice.split list.split option.split)

lemma borrow_Inr:
  assumes "borrow ev p = (Inr ch, p')"
  shows "\<exists>slot rest. pb_pool p = slot # rest \<and> p' = p\<lparr>pb_pool := rest\<rparr> \<and> (slot = Some ch \<or> be_open ev = Inr ch)"
  using assms
  by (cases "be_choice ev"; cases "pb_pool p"; cases "be_open ev") (auto simp: borrow_cases split: if_splits)

lemma borrow_Inl:
  assumes "borrow ev p = (Inl err, p')"
  shows "p' = p \<or> (\<exists>slot rest. pb_pool p = slot # rest \<and> p' = p\<lparr>pb_pool := rest @ [None]\<rparr>)"
  using assms
  by (cases "be_choice ev"; cases "pb_pool p"; cases "be_open ev") (auto simp: borrow_cases split: if_splits)

lemma pool_step_inv:
  assumes "pool_step s s'" and inv: "pool_inv s"
  shows "pool_inv s' \<and> pb_cap (ps_pub s') = pb_cap (ps_pub s)"
  using assms(1)
proof cases
  case (borrowed ev ch p)
  from borrowed(2) obtain slot rest where b: "pb_pool (ps_pub s) = slot # rest" "p = (ps_pub s)\<lparr>pb_pool := rest\<rparr>"
      "slot = Some ch \<or> be_open ev = Inr ch" using borrow_Inr by blast
  note chans = pool_channels_Cons [OF b(1)]
  have "ch = ps_next s \<or> slot = Some ch" using b(3) borrowed(3) by blast
  with inv b chans show ?thesis
    unfolding borrowed(1) pool_inv_def by (auto simp: less_Suc_eq split: option.splits)
next
  case (refused ev err p)
  from borrow_Inl [OF refused(2)] show ?thesis
  proof (elim disjE exE conjE)
    assume "p = ps_pub s"
    with inv show ?thesis unfolding refused(1) by (simp add: pool_inv_def)
  next
    fix slot rest assume b: "pb_pool (ps_pub s) = slot # rest" "p = (ps_pub s)\<lparr>pb_pool := rest @ [None]\<rparr>"
    note chans = pool_channels_Cons [OF b(1)]
    from inv b chans show ?thesis unfolding refused(1) pool_inv_def by (auto split: option.splits)
  qed
next
  case (returned ch healthy dead)
  have room: "length (pb_pool (ps_pub s)) < pb_cap (ps_pub s)"
    using inv returned(2) by (auto simp: pool_inv_def) (metis add_eq_self_zero le_add1 le_neq_implies_less length_0_conv list.set(1) empty_iff)
  have len: "Suc (length (remove1 ch (ps_lent s))) = length (ps_lent s)"
    using returned(2) by (simp add: length_remove1) (metis Suc_pred length_pos_if_in_set)
  have "set (remove1 ch (ps_lent s)) = set (ps_lent s) - {ch}" using inv by (auto simp: pool_inv_def set_remove1_eq)
  with inv room len returned(2) show ?thesis
    unfolding returned(1) pool_inv_def by (auto simp: giveBack_def Let_def)
qed

interpretation publisher_pool: invariant_system "\<lambda>s. \<exists>n. s = \<lparr>ps_pub = newPublisher n, ps_lent = [], ps_next = 0\<rparr>"
  pool_step pool_inv
proof unfold_locales
  show "pool_inv s" if "\<exists>n. s = \<lparr>ps_pub = newPublisher n, ps_lent = [], ps_next = 0\<rparr>" for s
    using that by (auto simp: pool_inv_def newPublisher_def pool_channels_def Let_def)
qed (use pool_step_inv in blast)

text \<open>
  C35. The pool of channels neither leaks nor overlends. Whatever publishers run concurrently, fail
  and give channels back in whatever order before the publisher is closed, no channel is lent to two of
  them at once, and slots and loans always add up to the size of the pool: giving back always finds a free slot, and with
  nothing lent out the pool has all its slots.
\<close>

theorem pool_conserved:
  assumes "pool_step\<^sup>*\<^sup>* \<lparr>ps_pub = newPublisher n, ps_lent = [], ps_next = 0\<rparr> s"
  shows "distinct (ps_lent s) \<and> set (ps_lent s) \<inter> set (pool_channels (ps_pub s)) = {} \<and>
         length (pb_pool (ps_pub s)) + length (ps_lent s) = pb_cap (ps_pub s) \<and>
         (ch \<in> set (ps_lent s) \<longrightarrow>
            length (pb_pool (giveBack ch healthy dead (ps_pub s))) = Suc (length (pb_pool (ps_pub s))))"
proof -
  have inv: "pool_inv s" using publisher_pool.reachable_inv [OF _ assms] by blast
  then have "length (pb_pool (ps_pub s)) < pb_cap (ps_pub s)" if "ch \<in> set (ps_lent s)"
    using that by (cases "ps_lent s") (auto simp: pool_inv_def)
  with inv show ?thesis by (auto simp: pool_inv_def giveBack_def Let_def)
qed


theorem pool_conserved_witness:
  "\<exists>s. pool_step\<^sup>*\<^sup>* \<lparr>ps_pub = newPublisher 2, ps_lent = [], ps_next = 0\<rparr> s \<and> ps_lent s = [0] \<and>
     length (pb_pool (giveBack 0 True False (ps_pub s))) = 2"
proof -
  let ?s0 = "\<lparr>ps_pub = newPublisher 2, ps_lent = [], ps_next = 0\<rparr>"
  let ?ev = "\<lparr>be_choice = TakeSlot, be_isClosed = (\<lambda>_. False), be_open = Inr 0\<rparr>"
  let ?s1 = "?s0\<lparr>ps_pub := (newPublisher 2)\<lparr>pb_pool := [None]\<rparr>, ps_lent := 0 # ps_lent ?s0, ps_next := Suc (ps_next ?s0)\<rparr>"
  have "pool_step ?s0 ?s1"
    by (rule pool_step.borrowed [of ?ev]) (simp_all add: borrow_def newPublisher_def numeral_2_eq_2)
  then have run: "pool_step\<^sup>*\<^sup>* ?s0 ?s1" by blast
  from pool_conserved [OF this, of 0 True False] run show ?thesis by (intro exI [of _ ?s1]) simp
qed


end
