(* ===== verification/Rmq_Conn.thy ===== *)
theory Rmq_Conn
  imports Rmq_Publisher Redis
begin

text \<open>
  \<^verbatim>\<open>src/internal/rmq/conn.go\<close>: the connection that redials itself. A library connection is a number;
  those that are open at the moment are a set, since they live outside the process' own state. The
  goroutine of \<open>watch\<close> and the callers of \<open>Close\<close> interleave: each step below is one critical
  section of theirs or one event of the network.
\<close>

section \<open>Dialling\<close>

text \<open>One attempt: the context's error before it, the answer of \<open>amqp.DialConfig\<close>, the context's
  error while it backs off.\<close>

record amqp_try =
  at_ctx :: "go_error option"
  at_dial :: "nat res"
  at_wait :: "go_error option"

fun rmq_dial_loop :: "nat \<Rightarrow> (nat \<Rightarrow> amqp_try) \<Rightarrow> nat \<Rightarrow> go_error option \<Rightarrow> nat res" where
  "rmq_dial_loop 0 tries i lastErr =
     Inl (Wrapped ''rmq: could not reach broker after %d attempts: %w'' (case lastErr of None \<Rightarrow> [] | Some e \<Rightarrow> [e]))"
| "rmq_dial_loop (Suc n) tries i lastErr =
     (case at_ctx (tries i) of
        Some err \<Rightarrow> Inl err
      | None \<Rightarrow>
          (case at_dial (tries i) of
             Inr conn \<Rightarrow> Inr conn
           | Inl err \<Rightarrow>
               (case at_wait (tries i) of
                  Some e \<Rightarrow> Inl e
                | None \<Rightarrow> rmq_dial_loop n tries (Suc i) (Some err))))"

definition rmq_dial :: "int \<Rightarrow> (nat \<Rightarrow> amqp_try) \<Rightarrow> nat res" where
  "rmq_dial dialAttempts tries = rmq_dial_loop (nat dialAttempts) tries 0 None"

text \<open>A dial makes at most \<open>DialAttempts\<close> attempts: if none of them is answered it gives up.\<close>

lemma rmq_dial_loop_gives_up:
  "\<forall>j < n. \<not> is_ok (at_dial (tries (i + j))) \<Longrightarrow> \<exists>err. rmq_dial_loop n tries i e = Inl err"
proof (induction n arbitrary: i e)
  case (Suc n)
  have "\<forall>j < n. \<not> is_ok (at_dial (tries (Suc i + j)))" using Suc.prems by (auto dest: spec [of _ "Suc _"])
  then have "\<exists>err'. rmq_dial_loop n tries (Suc i) e' = Inl err'" for e' by (rule Suc.IH)
  moreover obtain err where "at_dial (tries i) = Inl err" using Suc.prems by (cases "at_dial (tries i)") (auto dest: spec [of _ 0])
  ultimately show ?case by (simp split: option.splits)
qed simp

section \<open>The connection\<close>

record Conn =
  cc_attempts :: int
  cc_conn :: "nat option"
  cc_closed :: bool
  cc_done :: bool

definition rmq_Channel :: "Conn \<Rightarrow> (nat \<Rightarrow> nat res) \<Rightarrow> nat res" where
  "rmq_Channel c opens =
     (if cc_closed c \<or> cc_conn c = None then Inl ErrClosed else opens (the (cc_conn c)))"

definition Healthy :: "nat set \<Rightarrow> Conn \<Rightarrow> go_error option" where
  "Healthy open_conns c =
     (if cc_closed c then Some ErrClosed
      else if cc_conn c = None \<or> the (cc_conn c) \<notin> open_conns then Some (Sentinel ''rmq: not connected to the broker'')
      else None)"

definition conn_Close :: "nat set \<Rightarrow> Conn \<Rightarrow> nat set \<times> Conn" where
  "conn_Close open_conns c =
     (let c' = c\<lparr>cc_done := True, cc_closed := True\<rparr>
      in case cc_conn c' of
           None \<Rightarrow> (open_conns, c')
         | Some conn \<Rightarrow> (open_conns - {conn}, c'))"

text \<open>Where the goroutine of \<open>watch\<close> is: waiting for the connection to drop, redialling, holding a
  fresh connection it has not installed yet, or gone.\<close>

datatype watching = Waiting | Redialling | Fresh nat | Gone

record conn_sys =
  ws_conn :: Conn
  ws_watch :: watching
  ws_open :: "nat set"

definition rmq_Dial :: "int \<Rightarrow> (nat \<Rightarrow> amqp_try) \<Rightarrow> conn_sys res" where
  "rmq_Dial dialAttempts tries =
     (case rmq_dial dialAttempts tries of
        Inl err \<Rightarrow> Inl err
      | Inr conn \<Rightarrow> Inr \<lparr>ws_conn = \<lparr>cc_attempts = dialAttempts, cc_conn = Some conn, cc_closed = False, cc_done = False\<rparr>,
                        ws_watch = Waiting, ws_open = {conn}\<rparr>)"

text \<open>The last critical section of an iteration of \<open>watch\<close>.\<close>

definition install :: "nat \<Rightarrow> conn_sys \<Rightarrow> conn_sys" where
  "install fresh s =
     (if cc_closed (ws_conn s) then s\<lparr>ws_open := ws_open s - {fresh}, ws_watch := Gone\<rparr>
      else s\<lparr>ws_conn := (ws_conn s)\<lparr>cc_conn := Some fresh\<rparr>, ws_watch := Waiting\<rparr>)"

definition redialled :: "nat res \<Rightarrow> conn_sys \<Rightarrow> conn_sys" where
  "redialled got s =
     (case got of
        Inl err \<Rightarrow> s\<lparr>ws_watch := Gone\<rparr>
      | Inr fresh \<Rightarrow> s\<lparr>ws_watch := Fresh fresh, ws_open := insert fresh (ws_open s)\<rparr>)"

text \<open>\<open>NotifyClose\<close> reports a connection that dropped with a reason; one that was closed deliberately
  is reported without, which ends \<open>watch\<close> as a cancelled context or \<open>done\<close> does.\<close>

inductive conn_step :: "conn_sys \<Rightarrow> conn_sys \<Rightarrow> bool" where
  drop: "conn_step s (s\<lparr>ws_open := ws_open s - {conn}\<rparr>)"
| notified: "\<lbrakk>ws_watch s = Waiting; cc_conn (ws_conn s) = Some conn; conn \<notin> ws_open s\<rbrakk> \<Longrightarrow>
     conn_step s (s\<lparr>ws_watch := Redialling\<rparr>)"
| stopped: "ws_watch s \<noteq> Gone \<Longrightarrow> \<forall>fresh. ws_watch s \<noteq> Fresh fresh \<Longrightarrow> conn_step s (s\<lparr>ws_watch := Gone\<rparr>)"
| redial: "\<lbrakk>ws_watch s = Redialling; rmq_dial (cc_attempts (ws_conn s)) tries = got; \<forall>conn. got = Inr conn \<longrightarrow> conn \<notin> ws_open s\<rbrakk> \<Longrightarrow>
     conn_step s (redialled got s)"
| install: "ws_watch s = Fresh fresh \<Longrightarrow> conn_step s (install fresh s)"
| close: "conn_step s (s\<lparr>ws_open := fst (conn_Close (ws_open s) (ws_conn s)), ws_conn := snd (conn_Close (ws_open s) (ws_conn s))\<rparr>)"

inductive_cases conn_stepE: "conn_step s s'"

text \<open>Every open connection belongs to someone: it is the current one or the one \<open>watch\<close> is about
  to install, and once the connection is closed only the latter.\<close>

definition held :: "conn_sys \<Rightarrow> nat set" where
  "held s = (if cc_closed (ws_conn s) then {} else set_option (cc_conn (ws_conn s))) \<union>
            (case ws_watch s of Fresh fresh \<Rightarrow> {fresh} | _ \<Rightarrow> {})"

definition conn_inv :: "conn_sys \<Rightarrow> bool" where
  "conn_inv s \<longleftrightarrow> ws_open s \<subseteq> held s \<and>
     ((ws_watch s = Redialling \<or> (\<exists>fresh. ws_watch s = Fresh fresh)) \<longrightarrow>
        (\<forall>conn. cc_conn (ws_conn s) = Some conn \<longrightarrow> conn \<notin> ws_open s \<or> ws_watch s = Fresh conn))"

lemma conn_step_inv:
  assumes "conn_step s s'" and inv: "conn_inv s"
  shows "conn_inv s'"
  using assms(1)
proof cases
  case (drop conn)
  with inv show ?thesis by (auto simp: conn_inv_def held_def)
next
  case (notified conn)
  with inv show ?thesis by (auto simp: conn_inv_def held_def)
next
  case stopped
  with inv show ?thesis by (cases "ws_watch s") (auto simp: conn_inv_def held_def)
next
  case (redial tries got)
  with inv show ?thesis by (cases got) (auto simp: conn_inv_def held_def redialled_def)
next
  case (install fresh)
  with inv show ?thesis by (cases "cc_closed (ws_conn s)"; cases "cc_conn (ws_conn s)") (auto simp: conn_inv_def held_def install_def)
next
  case close
  with inv show ?thesis
    by (cases "cc_closed (ws_conn s)"; cases "cc_conn (ws_conn s)"; cases "ws_watch s") (auto simp: conn_inv_def held_def conn_Close_def)
qed

interpretation conn_run: invariant_system "\<lambda>s. \<exists>n tries. rmq_Dial n tries = Inr s" conn_step conn_inv
proof unfold_locales
  fix s assume "\<exists>n tries. rmq_Dial n tries = Inr s"
  then obtain n tries where "rmq_Dial n tries = Inr s" by blast
  then show "conn_inv s" by (cases "rmq_dial n tries") (auto simp: rmq_Dial_def conn_inv_def held_def)
qed (rule conn_step_inv)

text \<open>
  A closed connection leaks nothing. However \<open>Close\<close> races with a redial, once the connection
  is closed and the goroutine that watches it is gone, no connection of it to the broker is open;
  and a connection is reported healthy only while the one it uses is open.
\<close>

lemma conn_close_leaks_nothing:
  assumes "rmq_Dial n tries = Inr s" and "conn_step\<^sup>*\<^sup>* s t"
  shows "cc_closed (ws_conn t) \<and> ws_watch t = Gone \<Longrightarrow> ws_open t = {}"
    and "Healthy (ws_open t) (ws_conn t) = None \<longleftrightarrow> \<not> cc_closed (ws_conn t) \<and> (\<exists>conn \<in> ws_open t. cc_conn (ws_conn t) = Some conn)"
  using conn_run.reachable_inv [of s t] assms by (auto simp: conn_inv_def held_def Healthy_def)

text \<open>
  A connection that was lost for longer than the budget of attempts never comes back: the
  goroutine of \<open>watch\<close> has ended, no later step connects again, and the service stays without a
  broker although nothing has closed the connection.
\<close>

lemma gone_stays_unhealthy:
  assumes "conn_step\<^sup>*\<^sup>* s t" and "ws_watch s = Gone" and "cc_conn (ws_conn s) = Some conn" and "conn \<notin> ws_open s"
  shows "ws_watch t = Gone \<and> cc_conn (ws_conn t) = Some conn \<and> conn \<notin> ws_open t \<and> Healthy (ws_open t) (ws_conn t) \<noteq> None"
  using assms(1)
proof (induction rule: rtranclp_induct)
  case base
  then show ?case using assms by (simp add: Healthy_def)
next
  case (step t u)
  then show ?case by (auto elim!: conn_stepE simp: conn_Close_def Healthy_def Let_def)
qed

lemma reconnect_gives_up:
  assumes "ws_watch s = Waiting" and "cc_conn (ws_conn s) = Some conn" and "\<not> cc_closed (ws_conn s)"
    and "\<forall>j < nat (cc_attempts (ws_conn s)). \<not> is_ok (at_dial ((tries :: nat \<Rightarrow> amqp_try) j))"
  shows "\<exists>t. conn_step\<^sup>*\<^sup>* s t \<and> \<not> cc_closed (ws_conn t) \<and> (\<forall>u. conn_step\<^sup>*\<^sup>* t u \<longrightarrow> Healthy (ws_open u) (ws_conn u) \<noteq> None)"
proof -
  let ?s1 = "s\<lparr>ws_open := ws_open s - {conn}\<rparr>"
  let ?s2 = "?s1\<lparr>ws_watch := Redialling\<rparr>"
  let ?t = "?s2\<lparr>ws_watch := Gone\<rparr>"
  obtain err where err: "rmq_dial (cc_attempts (ws_conn s)) tries = Inl err"
    using rmq_dial_loop_gives_up [of "nat (cc_attempts (ws_conn s))" tries 0 None] assms(4) by (auto simp: rmq_dial_def)
  have "conn_step s ?s1" by (rule drop)
  moreover have "conn_step ?s1 ?s2" using notified [of ?s1 conn] assms by simp
  moreover have "conn_step ?s2 ?t" using redial [of ?s2 tries "Inl err"] err by (simp add: redialled_def)
  ultimately have "conn_step\<^sup>*\<^sup>* s ?t" by (meson rtranclp.rtrancl_into_rtrancl rtranclp.rtrancl_refl)
  moreover have "\<forall>u. conn_step\<^sup>*\<^sup>* ?t u \<longrightarrow> Healthy (ws_open u) (ws_conn u) \<noteq> None"
    using gone_stays_unhealthy [of ?t _ conn] assms(2) by auto
  ultimately show ?thesis using assms(3) by (intro exI [of _ ?t]) simp
qed

end
