(* ===== verification/Rmq_Consumer.thy ===== *)
theory Rmq_Consumer
  imports Events "HOL-Library.Multiset"
begin

text \<open>
  \<^verbatim>\<open>src/internal/rmq/consumer.go\<close>: what a worker does with one delivery, and a worker at a queue.
  The broker is a record of what it does when a delivery is settled, given as an argument;
  \<open>broker_ok\<close> is what the AMQP documentation promises of a queue declared with a dead-letter
  exchange (\<^verbatim>\<open>src/internal/rmq/topology.go\<close>).
\<close>

definition DeadLetterSuffix :: string where "DeadLetterSuffix = ''.dlq''"

definition DeadLetterExchange :: "string \<Rightarrow> string" where "DeadLetterExchange queue = queue @ ''.dlx''"

definition DeadLetterQueue :: "string \<Rightarrow> string" where "DeadLetterQueue queue = queue @ DeadLetterSuffix"

record delivery =
  d_Body :: string
  d_Redelivered :: bool

datatype settlement = Ack | Requeue | Reject

record Consumer =
  cn_workers :: int
  cn_prefetch :: int
  cn_processed :: "64 word"
  cn_deadLettered :: "64 word"
  cn_requeued :: "64 word"

definition NewConsumer :: "int \<Rightarrow> int \<Rightarrow> Consumer" where
  "NewConsumer workers prefetch =
     \<lparr>cn_workers = (if workers < 1 then 1 else workers), cn_prefetch = (if prefetch < 1 then 1 else prefetch),
      cn_processed = 0, cn_deadLettered = 0, cn_requeued = 0\<rparr>"

definition deadLetter :: "Consumer \<Rightarrow> settlement \<times> Consumer" where
  "deadLetter c = (Reject, c\<lparr>cn_deadLettered := cn_deadLettered c + 1\<rparr>)"

text \<open>\<open>handle\<close>: the handler runs first, the delivery is settled by its outcome.\<close>

definition consumer_handle :: "(string \<Rightarrow> 's \<Rightarrow> go_error option \<times> 's) \<Rightarrow> delivery \<Rightarrow> 's \<Rightarrow> Consumer
    \<Rightarrow> settlement \<times> 's \<times> Consumer" where
  "consumer_handle handler d s c =
     (case handler (d_Body d) s of
        (None, s') \<Rightarrow> (Ack, s', c\<lparr>cn_processed := cn_processed c + 1\<rparr>)
      | (Some err, s') \<Rightarrow>
          (if errors_is err ''rmq.ErrDrop'' then (case deadLetter c of (a, c') \<Rightarrow> (a, s', c'))
           else if d_Redelivered d then (case deadLetter c of (a, c') \<Rightarrow> (a, s', c'))
           else (Requeue, s', c\<lparr>cn_requeued := cn_requeued c + 1\<rparr>)))"

section \<open>A worker at its queue\<close>

text \<open>\<open>bk_Next\<close> is the delivery the broker pushes next, \<open>bk_Waiting\<close> every one that waits, \<open>bk_Parked\<close>
  the bodies on the dead-letter queue.\<close>

record 'b broker =
  bk_Next :: "'b \<Rightarrow> delivery option"
  bk_Settle :: "delivery \<Rightarrow> settlement \<Rightarrow> 'b \<Rightarrow> 'b"
  bk_Waiting :: "'b \<Rightarrow> delivery multiset"
  bk_Parked :: "'b \<Rightarrow> string multiset"

definition broker_next_ok :: "'b broker \<Rightarrow> bool" where
  "broker_next_ok B \<longleftrightarrow>
     (\<forall>b. bk_Next B b = None \<longleftrightarrow> bk_Waiting B b = {#}) \<and>
     (\<forall>b d. bk_Next B b = Some d \<longrightarrow> d \<in># bk_Waiting B b)"

definition broker_settle_ok :: "'b broker \<Rightarrow> bool" where
  "broker_settle_ok B \<longleftrightarrow>
     (\<forall>b d. d \<in># bk_Waiting B b \<longrightarrow>
        bk_Waiting B (bk_Settle B d Ack b) = bk_Waiting B b - {#d#} \<and>
        bk_Parked B (bk_Settle B d Ack b) = bk_Parked B b \<and>
        bk_Waiting B (bk_Settle B d Requeue b) = bk_Waiting B b - {#d#} + {#d\<lparr>d_Redelivered := True\<rparr>#} \<and>
        bk_Parked B (bk_Settle B d Requeue b) = bk_Parked B b \<and>
        bk_Waiting B (bk_Settle B d Reject b) = bk_Waiting B b - {#d#} \<and>
        bk_Parked B (bk_Settle B d Reject b) = bk_Parked B b + {#d_Body d#})"

definition broker_ok :: "'b broker \<Rightarrow> bool" where
  "broker_ok B \<longleftrightarrow> broker_next_ok B \<and> broker_settle_ok B"

text \<open>\<open>subscribe\<close> for \<open>n\<close> deliveries on a channel that stays open, so that the broker takes every settlement:
  each run of the handler is logged with what the handler returned.\<close>

type_synonym run = "delivery \<times> go_error option"

fun worker_loop :: "'b broker \<Rightarrow> (string \<Rightarrow> 's \<Rightarrow> go_error option \<times> 's) \<Rightarrow> nat \<Rightarrow> run list \<times> 's \<times> Consumer \<times> 'b
    \<Rightarrow> run list \<times> 's \<times> Consumer \<times> 'b" where
  "worker_loop B handler 0 st = st"
| "worker_loop B handler (Suc n) (runs, s, c, b) =
     (case bk_Next B b of
        None \<Rightarrow> (runs, s, c, b)
      | Some d \<Rightarrow>
          (case consumer_handle handler d s c of
             (a, s', c') \<Rightarrow> worker_loop B handler n (runs @ [(d, fst (handler (d_Body d) s))], s', c', bk_Settle B d a b)))"

section \<open>The queue drains and nothing is lost\<close>

lemma broker_okD:
  assumes "broker_ok B"
  shows "bk_Next B b = None \<Longrightarrow> bk_Waiting B b = {#}" and "bk_Next B b = Some d \<Longrightarrow> d \<in># bk_Waiting B b"
    and "bk_Waiting B b = {#} \<Longrightarrow> bk_Next B b = None"
    and "d \<in># bk_Waiting B b \<Longrightarrow> bk_Waiting B (bk_Settle B d a b) = bk_Waiting B b - {#d#} +
           (if a = Requeue then {#d\<lparr>d_Redelivered := True\<rparr>#} else {#})"
    and "d \<in># bk_Waiting B b \<Longrightarrow> bk_Parked B (bk_Settle B d a b) = bk_Parked B b + (if a = Reject then {#d_Body d#} else {#})"
proof -
  have n: "broker_next_ok B" and st: "broker_settle_ok B" using assms by (simp_all add: broker_ok_def)
  show "bk_Next B b = None \<Longrightarrow> bk_Waiting B b = {#}" "bk_Waiting B b = {#} \<Longrightarrow> bk_Next B b = None"
    "bk_Next B b = Some d \<Longrightarrow> d \<in># bk_Waiting B b" using n by (simp_all add: broker_next_ok_def)
  show "d \<in># bk_Waiting B b \<Longrightarrow> bk_Waiting B (bk_Settle B d a b) = bk_Waiting B b - {#d#} +
           (if a = Requeue then {#d\<lparr>d_Redelivered := True\<rparr>#} else {#})"
    "d \<in># bk_Waiting B b \<Longrightarrow> bk_Parked B (bk_Settle B d a b) = bk_Parked B b + (if a = Reject then {#d_Body d#} else {#})"
    using st by (cases a; simp add: broker_settle_ok_def)+
qed

text \<open>A delivery that was not retried yet counts twice.\<close>

definition tries :: "delivery multiset \<Rightarrow> nat" where
  "tries ds = (\<Sum>d \<in># ds. if d_Redelivered d then 1 else 2)"

lemma tries_0: "tries ds = 0 \<Longrightarrow> ds = {#}"
  by (cases ds) (auto simp: tries_def split: if_splits)

lemma tries_settled:
  assumes "d \<in># ds" and "a = Requeue \<Longrightarrow> \<not> d_Redelivered d"
  shows "tries (ds - {#d#} + (if a = Requeue then {#d\<lparr>d_Redelivered := True\<rparr>#} else {#})) < tries ds"
proof -
  obtain es where "ds = add_mset d es" using assms(1) by (metis multi_member_split)
  with assms(2) show ?thesis by (auto simp: tries_def)
qed

text \<open>The runs that end a message: the handler returned no error, or its error says that no retry can help or
  came on a retry.\<close>

definition succeeded :: "run \<Rightarrow> bool" where "succeeded r \<longleftrightarrow> snd r = None"

definition hopeless :: "run \<Rightarrow> bool" where
  "hopeless r \<longleftrightarrow> (case snd r of None \<Rightarrow> False | Some err \<Rightarrow> errors_is err ''rmq.ErrDrop'' \<or> d_Redelivered (fst r))"

definition bodies :: "(run \<Rightarrow> bool) \<Rightarrow> run list \<Rightarrow> string multiset" where
  "bodies P runs = mset (map (\<lambda>r. d_Body (fst r)) (filter P runs))"

definition stats_after :: "run list \<Rightarrow> Consumer \<Rightarrow> Consumer" where
  "stats_after runs c =
     c\<lparr>cn_processed := cn_processed c + of_nat (length (filter succeeded runs)),
       cn_deadLettered := cn_deadLettered c + of_nat (length (filter hopeless runs)),
       cn_requeued := cn_requeued c + of_nat (length (filter (\<lambda>r. \<not> succeeded r \<and> \<not> hopeless r) runs))\<rparr>"

lemma handle_settlement:
  assumes "consumer_handle handler d s c = (a, s', c')"
  shows "a = (if succeeded (d, fst (handler (d_Body d) s)) then Ack else if hopeless (d, fst (handler (d_Body d) s)) then Reject else Requeue)"
    and "c' = stats_after [(d, fst (handler (d_Body d) s))] c"
  using assms
  by (auto simp: consumer_handle_def deadLetter_def succeeded_def hopeless_def stats_after_def split: prod.splits option.splits if_splits)

lemma not_both: "\<not> (succeeded r \<and> hopeless r)"
  by (auto simp: succeeded_def hopeless_def split: option.splits)

lemma stats_after_Cons: "stats_after runs (stats_after [r] c) = stats_after (r # runs) c"
  by (cases c) (simp add: stats_after_def algebra_simps)

text \<open>How often a message with body \<open>x\<close> can still be run.\<close>

definition tries_of :: "string \<Rightarrow> delivery multiset \<Rightarrow> nat" where
  "tries_of x ds = tries (filter_mset (\<lambda>d. d_Body d = x) ds)"

lemma tries_of_settled:
  assumes "d \<in># ds" and "a = Requeue \<Longrightarrow> \<not> d_Redelivered d"
  shows "tries_of x (ds - {#d#} + (if a = Requeue then {#d\<lparr>d_Redelivered := True\<rparr>#} else {#})) + (if d_Body d = x then 1 else 0) \<le> tries_of x ds"
proof -
  obtain es where "ds = add_mset d es" using assms(1) by (metis multi_member_split)
  with assms(2) show ?thesis by (auto simp: tries_of_def tries_def)
qed

definition drained :: "'b broker \<Rightarrow> 'b \<Rightarrow> Consumer \<Rightarrow> run list \<Rightarrow> Consumer \<Rightarrow> 'b \<Rightarrow> bool" where
  "drained B b c runs c' b' \<longleftrightarrow>
     bk_Waiting B b' = {#} \<and> image_mset d_Body (bk_Waiting B b) = bodies succeeded runs + bodies hopeless runs \<and>
     bk_Parked B b' = bk_Parked B b + bodies hopeless runs \<and> c' = stats_after runs c \<and>
     (\<forall>x. length (filter (\<lambda>r. d_Body (fst r) = x) runs) \<le> tries_of x (bk_Waiting B b))"

lemma drained_Cons:
  assumes B: "broker_ok B" and d: "d \<in># bk_Waiting B b" and h: "consumer_handle handler d s c = (a, s', c1)"
    and rest: "drained B (bk_Settle B d a b) c1 runs c' b'"
  shows "drained B b c ((d, fst (handler (d_Body d) s)) # runs) c' b'"
proof -
  let ?r = "(d, fst (handler (d_Body d) s))"
  obtain es where es: "bk_Waiting B b = add_mset d es" using d by (metis multi_member_split)
  note a = handle_settlement [OF h]
  note w = broker_okD(4,5) [OF B d, of a]
  have req: "a = Requeue \<Longrightarrow> \<not> d_Redelivered d"
    using a(1) by (auto simp: succeeded_def hopeless_def split: if_splits option.splits)
  have "image_mset d_Body (bk_Waiting B b) = bodies succeeded (?r # runs) + bodies hopeless (?r # runs)"
    "bk_Parked B b' = bk_Parked B b + bodies hopeless (?r # runs)"
    using rest w a(1) not_both [of ?r] es by (auto simp: drained_def bodies_def split: if_splits)
  moreover have "length (filter (\<lambda>r. d_Body (fst r) = x) (?r # runs)) \<le> tries_of x (bk_Waiting B b)" for x
  proof -
    have "length (filter (\<lambda>r. d_Body (fst r) = x) runs) \<le> tries_of x (bk_Waiting B (bk_Settle B d a b))"
      using rest by (simp add: drained_def)
    with tries_of_settled [OF d req, of a x] show ?thesis unfolding w(1) by (simp split: if_splits)
  qed
  moreover have "c' = stats_after (?r # runs) c" using rest a(2) by (simp add: drained_def stats_after_Cons)
  ultimately show ?thesis using rest by (simp add: drained_def)
qed

lemma worker_loop_drains:
  assumes "broker_ok B" and "tries (bk_Waiting B b) \<le> n"
  shows "\<exists>runs s' c' b'. worker_loop B handler n (past, s, c, b) = (past @ runs, s', c', b') \<and> drained B b c runs c' b'"
  using assms(2)
proof (induction n arbitrary: past s c b)
  case 0
  then have "bk_Waiting B b = {#}" using tries_0 by simp
  then show ?case by (simp add: drained_def bodies_def stats_after_def)
next
  case (Suc n)
  show ?case
  proof (cases "bk_Next B b")
    case None
    then have "bk_Waiting B b = {#}" using broker_okD(1) [OF assms(1)] by simp
    with None show ?thesis by (simp add: drained_def bodies_def stats_after_def)
  next
    case (Some d)
    obtain a s' c' where h: "consumer_handle handler d s c = (a, s', c')" by (metis prod_cases3)
    have d: "d \<in># bk_Waiting B b" using broker_okD(2) [OF assms(1) Some] .
    have "a = Requeue \<Longrightarrow> \<not> d_Redelivered d"
      using handle_settlement(1) [OF h] by (auto simp: succeeded_def hopeless_def split: if_splits option.splits)
    then have "tries (bk_Waiting B (bk_Settle B d a b)) < tries (bk_Waiting B b)"
      unfolding broker_okD(4) [OF assms(1) d] by (rule tries_settled [OF d])
    with Suc.prems have "tries (bk_Waiting B (bk_Settle B d a b)) \<le> n" by simp
    from Suc.IH [OF this, of "past @ [(d, fst (handler (d_Body d) s))]" s' c'] obtain runs s2 c2 b2 where
      "worker_loop B handler n (past @ [(d, fst (handler (d_Body d) s))], s', c', bk_Settle B d a b) =
        ((past @ [(d, fst (handler (d_Body d) s))]) @ runs, s2, c2, b2)" "drained B (bk_Settle B d a b) c' runs c2 b2" by blast
    with drained_Cons [OF assms(1) d h] Some h show ?thesis
      by (intro exI [of _ "(d, fst (handler (d_Body d) s)) # runs"] exI [of _ s2] exI [of _ c2] exI [of _ b2]) simp
  qed
qed

lemma tries_le: "tries ds \<le> 2 * size ds"
  by (induction ds) (auto simp: tries_def)

lemma tries_of_le: "tries_of x ds \<le> 2 * count (image_mset d_Body ds) x"
  by (induction ds) (auto simp: tries_of_def tries_def)

text \<open>
  C36. A worker empties its queue and loses nothing, as long as its channel stays open and its settlements
  reach the broker. With twice as many deliveries as there are messages the queue is empty, whatever the
  handler does: the handler has run at most twice for each message; the messages are exactly those of the
  runs in which the handler returned no error and of the runs in which its error ruled out a retry, because
  it wraps \<open>ErrDrop\<close> or came on a redelivery; the latter, and nothing else, have been added to the
  dead-letter queue; and the counters have advanced by the numbers of those runs and of the requeued ones.
\<close>

theorem consumer_drains:
  assumes "broker_ok B"
  shows "\<exists>runs s' c' b'. worker_loop B handler (2 * size (bk_Waiting B b)) ([], s, c, b) = (runs, s', c', b') \<and>
     bk_Waiting B b' = {#} \<and>
     image_mset d_Body (bk_Waiting B b) = bodies succeeded runs + bodies hopeless runs \<and>
     bk_Parked B b' = bk_Parked B b + bodies hopeless runs \<and> c' = stats_after runs c \<and>
     (\<forall>x. length (filter (\<lambda>r. d_Body (fst r) = x) runs) \<le> 2 * count (image_mset d_Body (bk_Waiting B b)) x)"
proof -
  obtain runs s' c' b' where "worker_loop B handler (2 * size (bk_Waiting B b)) ([], s, c, b) = (runs, s', c', b')"
      "drained B b c runs c' b'"
    using worker_loop_drains [OF assms tries_le, of handler b "[]" s c] by auto
  moreover from this(2) have "length (filter (\<lambda>r. d_Body (fst r) = x) runs) \<le> 2 * count (image_mset d_Body (bk_Waiting B b)) x" for x
    using tries_of_le [of x "bk_Waiting B b"] unfolding drained_def by (meson order_trans)
  ultimately show ?thesis unfolding drained_def by blast
qed

text \<open>A broker that keeps its queue in a list.\<close>

definition list_settle :: "delivery \<Rightarrow> settlement \<Rightarrow> delivery list \<times> string list \<Rightarrow> delivery list \<times> string list" where
  "list_settle d a b =
     (case a of
        Ack \<Rightarrow> (remove1 d (fst b), snd b)
      | Requeue \<Rightarrow> (d\<lparr>d_Redelivered := True\<rparr> # remove1 d (fst b), snd b)
      | Reject \<Rightarrow> (remove1 d (fst b), d_Body d # snd b))"

definition list_broker :: "(delivery list \<times> string list) broker" where
  "list_broker = \<lparr>bk_Next = (\<lambda>b. case fst b of [] \<Rightarrow> None | d # ds \<Rightarrow> Some d), bk_Settle = list_settle,
     bk_Waiting = (\<lambda>b. mset (fst b)), bk_Parked = (\<lambda>b. mset (snd b))\<rparr>"

lemma list_broker_ok: "broker_ok list_broker"
  by (auto simp: broker_ok_def broker_next_ok_def broker_settle_ok_def list_broker_def list_settle_def split: list.splits)

text \<open>One message that is processed, one that is malformed, one that fails twice.\<close>

definition demo_handler :: "string \<Rightarrow> nat \<Rightarrow> go_error option \<times> nat" where
  "demo_handler body n = (if body = ''good'' then None else if body = ''bad'' then Some (Wrapped ''parsing'' [ErrDrop])
     else Some (Sentinel ''down''), n + 1)"

theorem consumer_drains_witness:
  "\<exists>runs s' c' b'. worker_loop list_broker demo_handler 6 ([], 0, NewConsumer 1 1,
       (map (\<lambda>x. \<lparr>d_Body = x, d_Redelivered = False\<rparr>) [''good'', ''bad'', ''slow''], [])) = (runs, s', c', b') \<and> fst b' = [] \<and>
     bodies succeeded runs + mset (snd b') = {#''good'', ''bad'', ''slow''#}"
  using consumer_drains [OF list_broker_ok, of demo_handler
      "(map (\<lambda>x. \<lparr>d_Body = x, d_Redelivered = False\<rparr>) [''good'', ''bad'', ''slow''], [])" 0 "NewConsumer 1 1"]
  by (auto simp: list_broker_def)

text \<open>A delivery carries the mark also when a worker vanished before its handler ran: then the
  first failure already parks it.\<close>

lemma first_failure_may_park:
  "fst (consumer_handle (\<lambda>body n. (Some (Sentinel ''down''), n + 1)) \<lparr>d_Body = ''m'', d_Redelivered = True\<rparr> (0 :: nat) (NewConsumer 1 1)) = Reject"
  by (simp add: consumer_handle_def deadLetter_def)


end
