(* ===== verification/Rmq_Topology.thy ===== *)
theory Rmq_Topology
  imports Rmq_Consumer
begin

text \<open>
  \<^verbatim>\<open>src/internal/rmq/topology.go\<close>: what producers and consumers declare at the broker before they use
  it. The broker is an argument: \<open>am_Run\<close> is its answer to a declaration and \<open>am_Has\<close> whether a
  declaration is in effect; \<open>amqp_ok\<close> is what AMQP promises of declarations.
\<close>

datatype amqp_decl =
    ExchangeDeclare string string
  | QueueDeclare string "string option"
  | QueueBind string string string

text \<open>Everything is declared durable; the option of a queue is its \<open>x-dead-letter-exchange\<close>.\<close>

record 'b amqp =
  am_Run :: "amqp_decl \<Rightarrow> 'b \<Rightarrow> go_error option \<times> 'b"
  am_Has :: "amqp_decl \<Rightarrow> 'b \<Rightarrow> bool"

definition amqp_ok :: "'b amqp \<Rightarrow> bool" where
  "amqp_ok A \<longleftrightarrow>
     (\<forall>d b b'. am_Run A d b = (None, b') \<longrightarrow> am_Has A d b' \<and> (\<forall>d'. am_Has A d' b \<longrightarrow> am_Has A d' b')) \<and>
     (\<forall>d b. am_Has A d b \<longrightarrow> am_Run A d b = (None, b))"

text \<open>Declarations in order, each with the text its error is wrapped in, up to the first that fails.\<close>

fun declare_all :: "'b amqp \<Rightarrow> (string \<times> amqp_decl) list \<Rightarrow> 'b \<Rightarrow> go_error option \<times> 'b" where
  "declare_all A [] b = (None, b)"
| "declare_all A ((what, d) # ds) b =
     (case am_Run A d b of
        (Some err, b') \<Rightarrow> (Some (Wrapped what [err]), b')
      | (None, b') \<Rightarrow> declare_all A ds b')"

definition dead_letter_path :: "string \<Rightarrow> (string \<times> amqp_decl) list" where
  "dead_letter_path queue =
     [(''rmq: declaring dead-letter exchange %q: %w'', ExchangeDeclare (DeadLetterExchange queue) ''fanout''),
      (''rmq: declaring dead-letter queue %q: %w'', QueueDeclare (DeadLetterQueue queue) None),
      (''rmq: binding %q to %q: %w'', QueueBind (DeadLetterQueue queue) '''' (DeadLetterExchange queue))]"

definition DeclareTopology :: "'b amqp \<Rightarrow> string \<Rightarrow> 'b \<Rightarrow> go_error option \<times> 'b" where
  "DeclareTopology A queue b =
     declare_all A (dead_letter_path queue @
       [(''rmq: declaring queue %q: %w'', QueueDeclare queue (Some (DeadLetterExchange queue)))]) b"

definition DeclareTopic :: "'b amqp \<Rightarrow> string \<Rightarrow> 'b \<Rightarrow> go_error option \<times> 'b" where
  "DeclareTopic A exchange b = declare_all A [(''rmq: declaring topic exchange %q: %w'', ExchangeDeclare exchange ''topic'')] b"

definition DeclareSubscription :: "'b amqp \<Rightarrow> string \<Rightarrow> string \<Rightarrow> string list \<Rightarrow> 'b \<Rightarrow> go_error option \<times> 'b" where
  "DeclareSubscription A exchange queue patterns b =
     (case DeclareTopic A exchange b of
        (Some err, b') \<Rightarrow> (Some err, b')
      | (None, b') \<Rightarrow>
          declare_all A (dead_letter_path queue @
            [(''rmq: declaring subscription queue %q: %w'', QueueDeclare queue (Some (DeadLetterExchange queue)))] @
            map (\<lambda>pattern. (''rmq: binding %q to %q on %q: %w'', QueueBind queue pattern exchange)) patterns) b')"

section \<open>Declaring is idempotent and complete\<close>

lemma declare_all_ok:
  assumes "amqp_ok A" and "declare_all A ds b = (None, b')"
  shows "(\<forall>d \<in> snd ` set ds. am_Has A d b') \<and> (\<forall>d. am_Has A d b \<longrightarrow> am_Has A d b')"
  using assms(2)
proof (induction ds arbitrary: b)
  case (Cons x ds)
  obtain b1 where b1: "am_Run A (snd x) b = (None, b1)" "declare_all A ds b1 = (None, b')"
    using Cons.prems by (cases x) (auto split: prod.splits option.splits)
  have "am_Has A (snd x) b1 \<and> (\<forall>d'. am_Has A d' b \<longrightarrow> am_Has A d' b1)"
    using assms(1) b1(1) unfolding amqp_ok_def by blast
  with Cons.IH [OF b1(2)] show ?case by auto
qed simp

lemma declare_all_present:
  assumes "amqp_ok A" and "\<forall>d \<in> snd ` set ds. am_Has A d b"
  shows "declare_all A ds b = (None, b)"
  using assms(2)
proof (induction ds)
  case (Cons x ds)
  have "am_Has A (snd x) b" using Cons.prems by simp
  then have "am_Run A (snd x) b = (None, b)" using assms(1) unfolding amqp_ok_def by blast
  with Cons show ?case by (cases x) simp
qed simp

lemma DeclareSubscription_list:
  "DeclareSubscription A exchange queue patterns b =
     declare_all A ((''rmq: declaring topic exchange %q: %w'', ExchangeDeclare exchange ''topic'') # dead_letter_path queue @
       [(''rmq: declaring subscription queue %q: %w'', QueueDeclare queue (Some (DeadLetterExchange queue)))] @
       map (\<lambda>pattern. (''rmq: binding %q to %q on %q: %w'', QueueBind queue pattern exchange)) patterns) b"
  by (simp add: DeclareSubscription_def DeclareTopic_def split: prod.splits option.splits)

text \<open>
  Whichever of the producer and the consumer starts first creates the topology and the other
  finds it: once one declaration has succeeded, the same one again succeeds and changes nothing, and
  the work queue, its dead-letter queue and the way from one to the other all exist.
\<close>

lemma topology_declared_once:
  assumes A: "amqp_ok A" and first: "DeclareTopology A queue b = (None, b')"
  shows "DeclareTopology A queue b' = (None, b')"
    and "am_Has A (QueueDeclare queue (Some (DeadLetterExchange queue))) b'"
    and "am_Has A (QueueBind (DeadLetterQueue queue) '''' (DeadLetterExchange queue)) b'"
proof -
  note ok = declare_all_ok [OF A first [unfolded DeclareTopology_def]]
  show "DeclareTopology A queue b' = (None, b')"
    unfolding DeclareTopology_def using declare_all_present [OF A] ok by blast
  show "am_Has A (QueueDeclare queue (Some (DeadLetterExchange queue))) b'"
    "am_Has A (QueueBind (DeadLetterQueue queue) '''' (DeadLetterExchange queue)) b'"
    using ok by (auto simp: dead_letter_path_def)
qed

text \<open>
  A subscriber gets every pattern it asked for, on a queue of its own, and its declarations take
  nothing away from the subscribers that came before it.
\<close>

lemma subscription_declared:
  assumes A: "amqp_ok A" and first: "DeclareSubscription A exchange queue patterns b = (None, b')"
  shows "pattern \<in> set patterns \<Longrightarrow> am_Has A (QueueBind queue pattern exchange) b'"
    and "am_Has A d b \<Longrightarrow> am_Has A d b'"
    and "DeclareSubscription A exchange queue patterns b' = (None, b')"
proof -
  note ok = declare_all_ok [OF A first [unfolded DeclareSubscription_list]]
  show "pattern \<in> set patterns \<Longrightarrow> am_Has A (QueueBind queue pattern exchange) b'" "am_Has A d b \<Longrightarrow> am_Has A d b'"
    using ok by (force simp: image_Un image_image)+
  show "DeclareSubscription A exchange queue patterns b' = (None, b')"
    unfolding DeclareSubscription_list using declare_all_present [OF A] ok by blast
qed

text \<open>A broker that keeps the promises: the declarations it has accepted.\<close>

definition list_amqp :: "amqp_decl list amqp" where
  "list_amqp = \<lparr>am_Run = (\<lambda>d b. (None, List.insert d b)), am_Has = (\<lambda>d b. d \<in> set b)\<rparr>"

lemma list_amqp_ok: "amqp_ok list_amqp"
  by (simp add: amqp_ok_def list_amqp_def)

lemma topology_example:
  "snd (DeclareTopology list_amqp ''ship'' (snd (DeclareTopology list_amqp ''ship'' []))) = snd (DeclareTopology list_amqp ''ship'' [])"
  using topology_declared_once(1) [OF list_amqp_ok, of "''ship''" "[]"]
  by (simp add: DeclareTopology_def dead_letter_path_def list_amqp_def)

end
