(* ===== verification/Envx.thy ===== *)
theory Envx
  imports Http_Headers Go_Strconv Go_Strings Kv_Config
begin

text \<open>
  \<^verbatim>\<open>src/internal/envx/envx.go\<close> and the settings of a store node read through it
  (\<open>ConfigFromEnv\<close> of \<^verbatim>\<open>src/internal/kv/config.go\<close>). The environment is a map; Go's parsers of
  durations and the name of the host are arguments.
\<close>

type_synonym env = "string \<rightharpoonup> string"

definition env_String :: "env \<Rightarrow> string \<Rightarrow> string \<Rightarrow> string" where
  "env_String env key def = (case env key of Some v \<Rightarrow> if v \<noteq> '''' then v else def | None \<Rightarrow> def)"

definition env_parsed :: "(string \<Rightarrow> 'a option) \<Rightarrow> env \<Rightarrow> string \<Rightarrow> 'a \<Rightarrow> 'a" where
  "env_parsed parse env key def =
     (case env key of
        Some v \<Rightarrow> if v \<noteq> '''' then (case parse (TrimSpace v) of Some x \<Rightarrow> x | None \<Rightarrow> def) else def
      | None \<Rightarrow> def)"

definition env_Int :: "env \<Rightarrow> string \<Rightarrow> int \<Rightarrow> int" where
  "env_Int = env_parsed Atoi"

definition ParseBool :: "string \<Rightarrow> bool option" where
  "ParseBool s =
     (if s \<in> {''1'', ''t'', ''T'', ''TRUE'', ''true'', ''True''} then Some True
      else if s \<in> {''0'', ''f'', ''F'', ''FALSE'', ''false'', ''False''} then Some False
      else None)"

definition env_Bool :: "env \<Rightarrow> string \<Rightarrow> bool \<Rightarrow> bool" where
  "env_Bool = env_parsed ParseBool"

definition millis_parse :: "(string \<Rightarrow> int option) \<Rightarrow> string \<Rightarrow> int option" where
  "millis_parse ParseDuration v =
     (case Atoi v of Some n \<Rightarrow> Some (wrap64 (n * 1000000)) | None \<Rightarrow> ParseDuration v)"

definition env_Millis :: "(string \<Rightarrow> int option) \<Rightarrow> env \<Rightarrow> string \<Rightarrow> int \<Rightarrow> int" where
  "env_Millis ParseDuration = env_parsed (millis_parse ParseDuration)"

definition TrimSlash :: "string \<Rightarrow> string" where
  "TrimSlash p = (if p \<noteq> '''' \<and> List.last p = CHR ''/'' then butlast p else p)"

text \<open>A nil slice and an empty one are the same list.\<close>

definition env_List :: "env \<Rightarrow> string \<Rightarrow> string list" where
  "env_List env key =
     (let raw = (case env key of Some v \<Rightarrow> v | None \<Rightarrow> '''')
      in if TrimSpace raw = '''' then []
         else map TrimSlash (filter (\<lambda>p. p \<noteq> '''') (map TrimSpace (Split (CHR '','') raw))))"

definition defaultNodeID :: "string res \<Rightarrow> string" where
  "defaultNodeID hostname = (case hostname of Inr h \<Rightarrow> if h \<noteq> '''' then h else ''kv-node'' | Inl _ \<Rightarrow> ''kv-node'')"

definition kv_ConfigFromEnv :: "(string \<Rightarrow> int option) \<Rightarrow> string res \<Rightarrow> env \<Rightarrow> Config" where
  "kv_ConfigFromEnv ParseDuration hostname env =
     (let mode = env_String env ''NODE_MODE'' ModeLeaderFollower;
          peers = env_List env ''PEER_URLS'';
          followers = env_List env ''FOLLOWER_URLS'';
          (peers, followers) = (if mode = ModeLeaderFollower then (followers, peers) else (peers, followers));
          peers = (if length peers = 0 then followers else peers)
      in \<lparr>c_NodeID = env_String env ''NODE_ID'' (defaultNodeID hostname), c_Mode = mode,
          c_Role = env_String env ''ROLE'' ''leader'', c_Peers = peers,
          c_WriteQuorum = env_Int env ''WRITE_QUORUM_SIZE'' 1, c_ReadQuorum = env_Int env ''READ_QUORUM_SIZE'' 1,
          c_WriteDelay = env_Millis ParseDuration env ''WRITE_DELAY_MS'' 0,
          c_ReadDelay = env_Millis ParseDuration env ''READ_DELAY_MS'' 0,
          c_Sequential = env_Bool env ''REPLICATION_SEQUENTIAL'' False, c_ReadRepair = env_Bool env ''READ_REPAIR'' True,
          c_RPCTimeout = env_Millis ParseDuration env ''REPLICATION_TIMEOUT_MS'' 5000000000\<rparr>)"

section \<open>What is written into the environment is read back\<close>

text \<open>Trimming leaves a string alone in which no byte of a space occurs.\<close>

definition no_space :: "string \<Rightarrow> bool" where
  "no_space s \<longleftrightarrow> (\<forall>c \<in> set s. c \<notin> set (concat space_encodings))"

lemma trim_front_id:
  assumes "\<forall>c \<in> set s. \<forall>w \<in> set ps. c \<notin> set w"
  shows "trim_front ps s = s"
proof -
  obtain p where p: "s = p @ trim_front ps s" "\<forall>c \<in> set p. \<exists>w \<in> set ps. c \<in> set w" using trim_front_suffix by blast
  have "p = []"
  proof (rule ccontr)
    assume "p \<noteq> []"
    then obtain c where "c \<in> set p" by (cases p) auto
    then have "c \<in> set s" by (subst p(1)) simp
    with \<open>c \<in> set p\<close> p(2) assms show False by blast
  qed
  with p(1) show ?thesis by simp
qed

lemma TrimSpace_id: "no_space s \<Longrightarrow> TrimSpace s = s"
  unfolding TrimSpace_def no_space_def by (simp add: trim_front_id)

lemma no_space_digits: "\<forall>c \<in> set s. is_digit c \<or> c = CHR ''-'' \<Longrightarrow> no_space s"
proof -
  have "\<forall>c \<in> set (concat space_encodings). \<not> is_digit c \<and> c \<noteq> CHR ''-''" by code_simp
  then show "\<forall>c \<in> set s. is_digit c \<or> c = CHR ''-'' \<Longrightarrow> no_space s" unfolding no_space_def by blast
qed

lemma nat_digits_digits: "c \<in> set (nat_digits n) \<Longrightarrow> is_digit c"
proof (induction n rule: nat_digits.induct)
  case (1 n)
  then show ?case by (cases "n < 10") (auto simp: nat_digits.simps [of n] digit_char_props(1))
qed

lemma TrimSpace_itoa [simp]: "TrimSpace (itoa i) = itoa i" and itoa_nonempty [simp]: "itoa i \<noteq> ''''"
proof -
  have "\<forall>c \<in> set (itoa i). is_digit c \<or> c = CHR ''-''" using nat_digits_digits by (auto simp: itoa_def)
  then show "TrimSpace (itoa i) = itoa i" by (intro TrimSpace_id no_space_digits)
  show "itoa i \<noteq> ''''" using nat_digits_hd by (simp add: itoa_def)
qed

lemma env_Int_itoa: "env key = Some (itoa i) \<Longrightarrow> in_int64 i \<Longrightarrow> env_Int env key def = i"
  by (simp add: env_Int_def env_parsed_def Atoi_itoa)

text \<open>A clean entry is one that trimming leaves alone: a URL without a trailing slash.\<close>

definition clean_entry :: "string \<Rightarrow> bool" where
  "clean_entry w \<longleftrightarrow> w \<noteq> '''' \<and> CHR '','' \<notin> set w \<and> TrimSpace w = w \<and> TrimSlash w = w"

lemma Join_not_blank:
  assumes "ws \<noteq> []" and "\<forall>w \<in> set ws. clean_entry w"
  shows "TrimSpace (Join '','' ws) \<noteq> ''''"
proof (cases "\<exists>w. ws = [w]")
  case True
  then show ?thesis using assms by (auto simp: clean_entry_def)
next
  case False
  then obtain w v vs where ws: "ws = w # v # vs" using assms(1) by (metis neq_Nil_conv)
  have "CHR '','' \<in> set (Join '','' ws)" by (simp add: ws)
  moreover have "\<forall>w \<in> set space_encodings. CHR '','' \<notin> set w" by code_simp
  ultimately have "CHR '','' \<in> set (TrimSpace (Join '','' ws))" by (rule TrimSpace_mem)
  then show ?thesis by auto
qed

text \<open>A list of peers written with commas is read back as that list, in order and complete.\<close>

lemma env_List_roundtrip:
  assumes clean: "\<forall>w \<in> set ws. clean_entry w" and env: "env key = Some (Join '','' ws)"
  shows "env_List env key = ws"
proof (cases "ws = []")
  case False
  have "Split (CHR '','') (Join '','' ws) = ws" using clean False by (intro Split_Join) (auto simp: clean_entry_def)
  moreover have "filter (\<lambda>p. p \<noteq> '''') (map TrimSpace ws) = ws" "map TrimSlash ws = ws"
    using clean by (simp_all add: clean_entry_def filter_id_conv map_idI)
  ultimately show ?thesis using env Join_not_blank [OF False clean] by (simp add: env_List_def)
qed (use env in \<open>simp add: env_List_def\<close>)

text \<open>
  What a deployment writes for a node is what the node runs with: the mode, the role, the peers
  under the name that belongs to the mode, and the sizes of the quorums. So a node whose quorums
  intersect in the plan has intersecting quorums when it runs.
\<close>

lemma kv_config_roundtrip:
  fixes cfg :: Config and PD :: "string \<Rightarrow> int option" and hostname :: "string res"
  assumes env: "env ''NODE_MODE'' = Some (c_Mode cfg)" "env ''ROLE'' = Some (c_Role cfg)" "env ''NODE_ID'' = Some (c_NodeID cfg)"
      "env (if c_Mode cfg = ModeLeaderFollower then ''FOLLOWER_URLS'' else ''PEER_URLS'') = Some (Join '','' (c_Peers cfg))"
      "env (if c_Mode cfg = ModeLeaderFollower then ''PEER_URLS'' else ''FOLLOWER_URLS'') = None"
      "env ''WRITE_QUORUM_SIZE'' = Some (itoa (c_WriteQuorum cfg))" "env ''READ_QUORUM_SIZE'' = Some (itoa (c_ReadQuorum cfg))"
    and cfg: "c_Mode cfg \<noteq> ''''" "c_Role cfg \<noteq> ''''" "c_NodeID cfg \<noteq> ''''" "\<forall>w \<in> set (c_Peers cfg). clean_entry w"
      "in_int64 (c_WriteQuorum cfg)" "in_int64 (c_ReadQuorum cfg)"
  defines "got \<equiv> kv_ConfigFromEnv PD hostname env"
  shows "c_Mode got = c_Mode cfg \<and> c_Role got = c_Role cfg \<and> c_NodeID got = c_NodeID cfg \<and> c_Peers got = c_Peers cfg \<and>
         c_WriteQuorum got = c_WriteQuorum cfg \<and> c_ReadQuorum got = c_ReadQuorum cfg \<and>
         Validate got = Validate cfg \<and> QuorumsIntersect got = QuorumsIntersect cfg"
proof -
  let ?mine = "if c_Mode cfg = ModeLeaderFollower then ''FOLLOWER_URLS'' else ''PEER_URLS''"
  let ?other = "if c_Mode cfg = ModeLeaderFollower then ''PEER_URLS'' else ''FOLLOWER_URLS''"
  have mode: "env_String env ''NODE_MODE'' ModeLeaderFollower = c_Mode cfg" using env(1) cfg(1) by (simp add: env_String_def)
  have peers: "env_List env ?mine = c_Peers cfg" "env_List env ?other = []"
    using env_List_roundtrip [of "c_Peers cfg" env ?mine, OF cfg(4) env(4)] env(5) by (simp_all add: env_List_def)
  have c_Peers: "c_Peers got = c_Peers cfg"
    using peers by (auto simp: got_def kv_ConfigFromEnv_def mode split: if_splits)
  have rest: "c_Mode got = c_Mode cfg" "c_Role got = c_Role cfg" "c_NodeID got = c_NodeID cfg"
      "c_WriteQuorum got = c_WriteQuorum cfg" "c_ReadQuorum got = c_ReadQuorum cfg"
    using env(1-3) cfg(1-3) env_Int_itoa [of env "''WRITE_QUORUM_SIZE''", OF env(6) cfg(5)]
      env_Int_itoa [of env "''READ_QUORUM_SIZE''", OF env(7) cfg(6)]
    by (simp_all add: got_def kv_ConfigFromEnv_def Let_def case_prod_unfold env_String_def)
  show ?thesis using c_Peers rest by (simp add: Validate_def QuorumsIntersect_def ClusterSize_def)
qed

text \<open>An entry that is only a slash is not dropped: it becomes a peer with an empty name, which
  counts for the size of the cluster.\<close>

lemma env_List_slash: "env_List [''PEER_URLS'' \<mapsto> ''/''] ''PEER_URLS'' = ['''']"
proof -
  have "TrimSpace ''/'' = ''/''" by (intro TrimSpace_id) code_simp
  then show ?thesis by (simp add: env_List_def TrimSlash_def)
qed

end
