(* ===== verification/Rmq_Config.thy ===== *)
theory Rmq_Config
  imports Envx
begin

text \<open>
  \<^verbatim>\<open>src/internal/rmq/config.go\<close>: the broker settings and the connection string built from them, with
  \<open>url.QueryEscape\<close> and \<open>url.PathEscape\<close> of the Go library on bytes. Durations are nanoseconds.
\<close>

record rmq_Config =
  rc_Host :: string
  rc_Port :: int
  rc_User :: string
  rc_Password :: string
  rc_VHost :: string
  rc_Queue :: string
  rc_DialTimeout :: int
  rc_DialAttempts :: int
  rc_DialBackoff :: int
  rc_ConfirmTimeout :: int
  rc_PoolSize :: int
  rc_PoolWait :: int
  rc_Workers :: int
  rc_Prefetch :: int

fun rmq_first :: "string list \<Rightarrow> string" where
  "rmq_first [] = ''''"
| "rmq_first (v # vals) = (if v \<noteq> '''' then v else rmq_first vals)"

fun firstInt :: "int list \<Rightarrow> int" where
  "firstInt [] = 0"
| "firstInt (v # vals) = (if v \<noteq> 0 then v else firstInt vals)"

definition rmq_ConfigFromEnv :: "(string \<Rightarrow> int option) \<Rightarrow> env \<Rightarrow> string \<Rightarrow> rmq_Config" where
  "rmq_ConfigFromEnv PD env defaultQueue =
     \<lparr>rc_Host = rmq_first [env_String env ''RABBITMQ_HOST'' '''', env_String env ''RMQ_HOST'' ''localhost''],
      rc_Port = firstInt [env_Int env ''RABBITMQ_PORT'' 0, env_Int env ''RMQ_PORT'' 5672],
      rc_User = rmq_first [env_String env ''RABBITMQ_USER'' '''', env_String env ''RMQ_USER'' ''guest''],
      rc_Password = rmq_first [env_String env ''RABBITMQ_PASS'' '''', env_String env ''RMQ_PASS'' ''guest''],
      rc_VHost = rmq_first [env_String env ''RABBITMQ_VHOST'' '''', env_String env ''RMQ_VHOST'' ''/''],
      rc_Queue = rmq_first [env_String env ''RABBITMQ_QUEUE'' '''', env_String env ''RMQ_QUEUE'' defaultQueue],
      rc_DialTimeout = env_Millis PD env ''RMQ_DIAL_TIMEOUT_MS'' 10000000000,
      rc_DialAttempts = env_Int env ''RMQ_DIAL_ATTEMPTS'' 30,
      rc_DialBackoff = env_Millis PD env ''RMQ_DIAL_BACKOFF_MS'' 2000000000,
      rc_ConfirmTimeout = env_Millis PD env ''RMQ_CONFIRM_TIMEOUT_MS'' 5000000000,
      rc_PoolSize = env_Int env ''RMQ_POOL_MAX_TOTAL'' 50,
      rc_PoolWait = env_Millis PD env ''RMQ_POOL_MAX_WAIT_MS'' 1000000000,
      rc_Workers = env_Int env ''RMQ_CONSUMER_WORKERS'' 10,
      rc_Prefetch = env_Int env ''RMQ_PREFETCH_COUNT'' 10\<rparr>"

section \<open>Escaping\<close>

definition unreserved :: "char \<Rightarrow> bool" where
  "unreserved c \<longleftrightarrow> is_lower c \<or> is_upper c \<or> is_digit c \<or> c \<in> {CHR ''-'', CHR ''_'', CHR ''.'', CHR ''~''}"

definition upper_hex :: "nat \<Rightarrow> char" where
  "upper_hex n = char_of (if n < 10 then n + 48 else n + 55)"

definition percent :: "char \<Rightarrow> string" where
  "percent c = [CHR ''%'', upper_hex (of_char c div 16), upper_hex (of_char c mod 16)]"

definition QueryEscape :: "string \<Rightarrow> string" where
  "QueryEscape s = concat (map (\<lambda>c. if unreserved c then [c] else if c = CHR '' '' then ''+'' else percent c) s)"

definition PathEscape :: "string \<Rightarrow> string" where
  "PathEscape s = concat (map (\<lambda>c. if unreserved c \<or> c \<in> set ''$&+:=@'' then [c] else percent c) s)"

definition rmq_URL :: "rmq_Config \<Rightarrow> string" where
  "rmq_URL c =
     (let vhost = (if rc_VHost c = ''/'' then '''' else rc_VHost c)
      in ''amqp://'' @ QueryEscape (rc_User c) @ '':'' @ QueryEscape (rc_Password c) @ ''@'' @
         rc_Host c @ '':'' @ itoa (rc_Port c) @ ''/'' @ PathEscape vhost)"

definition Redacted :: "rmq_Config \<Rightarrow> string" where
  "Redacted c = ''amqp://'' @ rc_User c @ '':***@'' @ rc_Host c @ '':'' @ itoa (rc_Port c) @ ''/'' @ rc_VHost c"

text \<open>How a URL parser reads the user information back: \<open>%XX\<close> is a byte, all else stands for
  itself.\<close>

definition hex_value :: "char \<Rightarrow> nat" where
  "hex_value c = (let n = of_char c in if n < 58 then n - 48 else n - 55)"

fun userinfo_unescape :: "string \<Rightarrow> string" where
  "userinfo_unescape [] = []"
| "userinfo_unescape (c # h # l # s) =
     (if c = CHR ''%'' then char_of (16 * hex_value h + hex_value l) # userinfo_unescape s
      else c # userinfo_unescape (h # l # s))"
| "userinfo_unescape (c # s) = c # userinfo_unescape s"

section \<open>The connection string\<close>

lemma of_char_bound: "of_char c < (256 :: nat)"
proof -
  have "of_char c mod 256 = (of_char c :: nat)" by (rule of_char_mod_256)
  then show ?thesis by (metis mod_less_divisor zero_less_numeral)
qed

lemma char_halves: "of_char c div 16 < (16 :: nat)" "of_char c mod 16 < (16 :: nat)"
  using of_char_bound [of c] by (simp_all add: less_mult_imp_div_less)

lemma upper_hex_code: "n < 16 \<Longrightarrow> of_char (upper_hex n) = (if n < 10 then n + 48 else n + 55 :: nat)"
  by (simp add: upper_hex_def)

lemma upper_hex_value: "n < 16 \<Longrightarrow> hex_value (upper_hex n) = n"
  by (simp add: hex_value_def upper_hex_code)

lemma upper_hex_safe:
  assumes "n < 16"
  shows "upper_hex n \<notin> {CHR '':'', CHR ''@'', CHR ''/''}"
proof -
  have "(of_char (upper_hex n) :: nat) \<notin> {58, 64, 47}" using assms by (auto simp: upper_hex_code)
  then show ?thesis by auto
qed

lemma unescape_percent: "userinfo_unescape (percent c @ s) = c # userinfo_unescape s"
  by (simp add: percent_def upper_hex_value char_halves)

lemma unescape_plain: "c \<noteq> CHR ''%'' \<Longrightarrow> userinfo_unescape (c # s) = c # userinfo_unescape s"
  by (cases s rule: userinfo_unescape.cases) simp_all

lemma unreserved_not: "unreserved c \<Longrightarrow> c \<notin> {CHR ''%'', CHR '':'', CHR ''@'', CHR ''/'', CHR '' ''}"
  by (auto simp: unreserved_def is_digit_def is_lower_def is_upper_def less_eq_char_def)

lemma percent_safe: "d \<in> set (percent c) \<Longrightarrow> d \<notin> {CHR '':'', CHR ''@'', CHR ''/''}"
  using upper_hex_safe [OF char_halves(1) [of c]] upper_hex_safe [OF char_halves(2) [of c]] by (auto simp: percent_def)

lemma QueryEscape_safe: "d \<in> set (QueryEscape s) \<Longrightarrow> d \<notin> {CHR '':'', CHR ''@'', CHR ''/''}"
  by (auto simp: QueryEscape_def split: if_splits dest: unreserved_not percent_safe)

text \<open>
  A password cannot corrupt the connection string: whatever the user name and the password
  contain, the part before the first \<open>@\<close> is theirs and the first \<open>:\<close> in it separates them.
\<close>

lemma rmq_URL_credentials:
  defines "creds c \<equiv> takeWhile (\<lambda>d. d \<noteq> CHR ''@'') (drop 7 (rmq_URL c))"
  shows "takeWhile (\<lambda>d. d \<noteq> CHR '':'') (creds c) = QueryEscape (rc_User c)"
    and "drop 1 (dropWhile (\<lambda>d. d \<noteq> CHR '':'') (creds c)) = QueryEscape (rc_Password c)"
proof -
  have "creds c = QueryEscape (rc_User c) @ '':'' @ QueryEscape (rc_Password c)"
    using QueryEscape_safe
    by (auto simp: creds_def rmq_URL_def Let_def takeWhile_append2 simp del: takeWhile_append takeWhile_eq_all_conv)
  then show "takeWhile (\<lambda>d. d \<noteq> CHR '':'') (creds c) = QueryEscape (rc_User c)"
    "drop 1 (dropWhile (\<lambda>d. d \<noteq> CHR '':'') (creds c)) = QueryEscape (rc_Password c)"
    using QueryEscape_safe by (auto simp: takeWhile_append2 dropWhile_append2)
qed

text \<open>
  What the broker receives is the password, except that a space arrives as a plus sign:
  \<open>QueryEscape\<close> writes spaces the way query strings do, and user information is not read that way.
\<close>

lemma password_received: "userinfo_unescape (QueryEscape s) = map (\<lambda>c. if c = CHR '' '' then CHR ''+'' else c) s"
proof (induction s)
  case (Cons c s)
  have step: "QueryEscape (c # s) = (if unreserved c then [c] else if c = CHR '' '' then ''+'' else percent c) @ QueryEscape s"
    by (simp add: QueryEscape_def)
  consider "unreserved c" | "\<not> unreserved c" "c = CHR '' ''" | "\<not> unreserved c" "c \<noteq> CHR '' ''" by blast
  then show ?case
  proof cases
    case 1
    then show ?thesis using unreserved_not [OF 1] Cons by (simp add: step unescape_plain)
  next
    case 2
    then show ?thesis using Cons unfolding step by (simp add: unescape_plain)
  next
    case 3
    then show ?thesis using Cons by (simp add: step unescape_percent)
  qed
qed (simp add: QueryEscape_def)

end
