(* ===== verification/Middleware.thy ===== *)
theory Middleware
  imports Http_Headers Go_Strconv
begin

text \<open>
  \<^verbatim>\<open>src/internal/httpx/middleware.go\<close> and the stack \<^verbatim>\<open>src/internal/httpx/router.go\<close> builds of it:
  request ids (\<^verbatim>\<open>src/internal/obs/logging.go\<close>), the cap on requests in flight, and what becomes of
  a panic. A handler gets the request id its context carries and answers or panics; what it has
  put into the header of the response so far is kept either way.
\<close>

section \<open>Request ids\<close>

definition RequestIDHeader :: string where "RequestIDHeader = ''X-Request-Id''"

definition NewRequestID :: "8 word list option \<Rightarrow> string" where
  "NewRequestID bytes = (case bytes of None \<Rightarrow> ''unknown'' | Some b \<Rightarrow> hex_EncodeToString b)"

text \<open>A byte of a multi-byte rune is none of the characters that are allowed.\<close>

definition id_char :: "char \<Rightarrow> bool" where
  "id_char c \<longleftrightarrow> is_lower c \<or> is_upper c \<or> is_digit c \<or> c = CHR ''-'' \<or> c = CHR ''_''"

definition validRequestID :: "string \<Rightarrow> bool" where
  "validRequestID rid \<longleftrightarrow> \<not> (length rid = 0 \<or> length rid > 64) \<and> list_all id_char rid"

section \<open>The stack\<close>

datatype handled = Answer int string | Panic bool

text \<open>The \<open>X-Request-Id\<close> a handler sets on the response (empty if it sets none), with the status and
  the request id in its body; a panic says whether it is \<open>http.ErrAbortHandler\<close>.\<close>

type_synonym http_handler = "string \<Rightarrow> string \<times> handled"

definition Recoverer :: "http_handler \<Rightarrow> http_handler" where
  "Recoverer next ctx =
     (case next ctx of
        (hdr, Panic abort) \<Rightarrow> if abort then (hdr, Panic abort) else (hdr, Answer StatusInternalServerError ctx)
      | (hdr, Answer status body) \<Rightarrow> (hdr, Answer status body))"

definition mw_RequestID :: "string \<Rightarrow> string \<Rightarrow> http_handler \<Rightarrow> http_handler" where
  "mw_RequestID inbound fresh next ctx =
     (let rid = (if validRequestID inbound then inbound else fresh); (hdr, res) = next rid
      in (if hdr = '''' then rid else hdr, res))"

definition isProbe :: "string \<Rightarrow> bool" where
  "isProbe path \<longleftrightarrow> length path \<ge> 7 \<and> drop (length path - 7) path = ''/health''"

text \<open>The logger and the recorder inside it change nothing of a response.\<close>

definition RequestLogger :: "http_handler \<Rightarrow> http_handler" where
  "RequestLogger next ctx = next ctx"

text \<open>\<open>Limiter\<close> around a handler, given how many slots are taken: a slot is taken only by the request
  that runs. A saturated server answers 503 and asks to retry after a second.\<close>

definition mw_Limiter :: "int \<Rightarrow> nat \<Rightarrow> string \<Rightarrow> http_handler \<Rightarrow> http_handler" where
  "mw_Limiter limit taken path next ctx =
     (if limit \<le> 0 then next ctx
      else if isProbe path then next ctx
      else if taken < nat limit then next ctx
      else ('''', Answer StatusServiceUnavailable ctx))"

definition Chain :: "http_handler \<Rightarrow> (http_handler \<Rightarrow> http_handler) list \<Rightarrow> http_handler" where
  "Chain h mw = foldr (\<lambda>m. m) mw h"

definition router_Build :: "int \<Rightarrow> nat \<Rightarrow> string \<Rightarrow> string \<Rightarrow> string \<Rightarrow> http_handler \<Rightarrow> http_handler" where
  "router_Build maxInFlight taken path inbound fresh mux =
     Chain mux [Recoverer, mw_RequestID inbound fresh, RequestLogger, mw_Limiter maxInFlight taken path]"

definition responseRecorder_WriteHeader :: "int \<Rightarrow> int \<times> bool \<Rightarrow> int \<times> bool" where
  "responseRecorder_WriteHeader code r = (if snd r then r else (code, True))"

definition responseRecorder_Write :: "int \<times> bool \<Rightarrow> int \<times> bool" where
  "responseRecorder_Write r = (if \<not> snd r then (StatusOK, True) else r)"

definition clientIP :: "Request \<Rightarrow> string" where
  "clientIP r =
     (let forwarded = header_Get (rq_Header r) ''X-Forwarded-For''
      in if forwarded \<noteq> '''' then takeWhile (\<lambda>c. c \<noteq> CHR '','') forwarded else rq_RemoteAddr r)"

lemma hex_digit_id: "n < 16 \<Longrightarrow> id_char (hex_digit n)"
proof -
  have "\<forall>n < 16. id_char (hex_digit n)" by code_simp
  then show "n < 16 \<Longrightarrow> id_char (hex_digit n)" by blast
qed

lemma NewRequestID_valid:
  assumes "case bytes of None \<Rightarrow> True | Some b \<Rightarrow> length b = 8"
  shows "validRequestID (NewRequestID bytes)"
proof (cases bytes)
  case None
  have "validRequestID ''unknown''" by code_simp
  with None show ?thesis by (simp add: NewRequestID_def)
next
  case (Some b)
  have "list_all id_char (hex_EncodeToString bs) \<and> length (hex_EncodeToString bs) = 2 * length bs" for bs
  proof (induction bs)
    case (Cons a bs)
    have "unat a div 16 < 16" "unat a mod 16 < 16" using unsigned_less [of a, where 'a = nat] by (simp_all add: less_mult_imp_div_less)
    then show ?case using Cons by (simp add: hex_EncodeToString_def hex_byte_def hex_digit_id)
  qed (simp add: hex_EncodeToString_def)
  with Some assms show ?thesis by (simp add: validRequestID_def NewRequestID_def)
qed

text \<open>
  Every response carries a safe request id. Whatever id a client sends, the response of every
  handler that does not set the header itself, one that panicked included, has an id of at most 64 letters, digits, dashes and
  underscores in its header: the client's own if it is of that form, a fresh one otherwise.
\<close>

lemma request_id_safe:
  assumes "case bytes of None \<Rightarrow> True | Some b \<Rightarrow> length b = 8" and "\<And>rid. fst (mux rid) = ''''"
  shows "validRequestID (fst (router_Build maxInFlight taken path inbound (NewRequestID bytes) mux ctx)) \<and>
         (validRequestID inbound \<longrightarrow> fst (router_Build maxInFlight taken path inbound (NewRequestID bytes) mux ctx) = inbound)"
  using NewRequestID_valid [OF assms(1)] assms(2)
  by (auto simp: router_Build_def Chain_def Recoverer_def mw_RequestID_def RequestLogger_def mw_Limiter_def Let_def
      case_prod_unfold validRequestID_def split: handled.split)

lemma request_id_safe_witness:
  "validRequestID (fst (router_Build 0 0 ''/orders'' (''a'' @ [CHR 0x0A] @ ''b'') (NewRequestID None) (\<lambda>ctx. ('''', Answer 200 ctx)) ''''))"
  using request_id_safe [of None "\<lambda>ctx. ('''', Answer 200 ctx)"] by simp

text \<open>
  The response to a panic has no request id in its body. The recovery is the outermost layer and
  reads the id from the context it was given, before the layer that establishes the id: the
  header has one, the body and the line in the log do not.
\<close>

lemma panic_answer_has_no_id:
  "router_Build 0 0 ''/orders'' ''req-1'' (NewRequestID None) (\<lambda>ctx. ('''', Panic False)) '''' =
     (''req-1'', Answer StatusInternalServerError '''')"
proof -
  have "validRequestID ''req-1''" by code_simp
  then show ?thesis by (simp add: router_Build_def Chain_def Recoverer_def mw_RequestID_def RequestLogger_def mw_Limiter_def)
qed

section \<open>Requests in flight\<close>

text \<open>The channel of slots and the requests that run, each with whether it holds a slot. A request
  that ends, by returning or by a panic, gives its slot back.\<close>

record flight =
  fl_limit :: int
  fl_slots :: nat
  fl_running :: "bool list"

definition admit :: "string \<Rightarrow> flight \<Rightarrow> bool \<times> flight" where
  "admit path f =
     (if fl_limit f \<le> 0 \<or> isProbe path then (True, f\<lparr>fl_running := False # fl_running f\<rparr>)
      else if fl_slots f < nat (fl_limit f) then (True, f\<lparr>fl_slots := fl_slots f + 1, fl_running := True # fl_running f\<rparr>)
      else (False, f))"

inductive flight_step :: "flight \<Rightarrow> flight \<Rightarrow> bool" where
  arrive: "flight_step f (snd (admit path f))"
| finish: "slot \<in> set (fl_running f) \<Longrightarrow>
     flight_step f (f\<lparr>fl_slots := (if slot then fl_slots f - 1 else fl_slots f), fl_running := remove1 slot (fl_running f)\<rparr>)"

definition flight_inv :: "int \<Rightarrow> flight \<Rightarrow> bool" where
  "flight_inv limit f \<longleftrightarrow>
     fl_limit f = limit \<and> fl_slots f = length (filter id (fl_running f)) \<and> (0 < limit \<longrightarrow> fl_slots f \<le> nat limit)"

lemma filter_remove1_length: "slot \<in> set xs \<Longrightarrow> length (filter id (remove1 slot xs)) = length (filter id xs) - (if slot then 1 else 0)"
  by (induction xs) (auto simp: Suc_diff_le dest: split_list)

interpretation in_flight: invariant_system "\<lambda>f. f = \<lparr>fl_limit = limit, fl_slots = 0, fl_running = []\<rparr>" flight_step "flight_inv limit" for limit
proof unfold_locales
  fix f f' assume inv: "flight_inv limit f" and st: "flight_step f f'"
  from st show "flight_inv limit f'"
  proof cases
    case (arrive path)
    with inv show ?thesis by (auto simp: flight_inv_def admit_def)
  next
    case (finish slot)
    with inv filter_remove1_length [OF finish(2)] show ?thesis by (auto simp: flight_inv_def)
  qed
qed (simp add: flight_inv_def)

text \<open>
  The cap on concurrent requests holds and no slot leaks. However requests arrive and end, at
  most \<open>limit\<close> requests other than probes run at once, one is turned away only while exactly that
  many run, and a probe is never turned away.
\<close>

lemma in_flight_bounded:
  assumes "0 < limit" and "flight_step\<^sup>*\<^sup>* \<lparr>fl_limit = limit, fl_slots = 0, fl_running = []\<rparr> f"
  shows "length (filter id (fl_running f)) \<le> nat limit \<and> fl_slots f = length (filter id (fl_running f)) \<and>
         (\<not> fst (admit path f) \<longrightarrow> length (filter id (fl_running f)) = nat limit \<and> \<not> isProbe path)"
proof -
  have "flight_inv limit f" by (rule in_flight.reachable_inv [OF refl assms(2)])
  with assms(1) show ?thesis by (auto simp: flight_inv_def admit_def split: if_splits)
qed

lemma in_flight_bounded_witness:
  "\<exists>f. flight_step\<^sup>*\<^sup>* \<lparr>fl_limit = 1, fl_slots = 0, fl_running = []\<rparr> f \<and> fl_running f = [True] \<and> \<not> fst (admit ''/orders'' f) \<and>
     length (filter id (fl_running f)) \<le> nat 1"
proof -
  let ?f = "\<lparr>fl_limit = 1, fl_slots = 1, fl_running = [True]\<rparr>"
  have "snd (admit ''/orders'' \<lparr>fl_limit = 1, fl_slots = 0, fl_running = []\<rparr>) = ?f" by (simp add: admit_def isProbe_def)
  then have run: "flight_step\<^sup>*\<^sup>* \<lparr>fl_limit = 1, fl_slots = 0, fl_running = []\<rparr> ?f"
    using flight_step.arrive [of "\<lparr>fl_limit = 1, fl_slots = 0, fl_running = []\<rparr>" "''/orders''"] by simp
  have "\<not> fst (admit ''/orders'' ?f)" by (simp add: admit_def isProbe_def)
  with in_flight_bounded [OF _ run, of "''/orders''"] run show ?thesis by auto
qed


end
