(* ===== verification/Metrics.thy ===== *)
theory Metrics
  imports Middleware Mux
begin

text \<open>
  The metrics of \<^verbatim>\<open>src/internal/obs/metrics.go\<close> and the wrapper \<open>Instrument\<close> of
  \<^verbatim>\<open>src/internal/httpx/middleware.go\<close> that records them for a route. The Prometheus client is a
  registry of counters, gauges and histograms, each a function of its name and the values of its
  labels: a label value that was never used is a series that does not exist.
\<close>

section \<open>The registry\<close>

type_synonym series = "string \<times> string list"

record registry =
  mx_counters :: "series \<Rightarrow> nat"
  mx_gauges :: "series \<Rightarrow> int"
  mx_observed :: "series \<Rightarrow> int list"

definition counter_Inc :: "string \<Rightarrow> string list \<Rightarrow> registry \<Rightarrow> registry" where
  "counter_Inc name labels m = m\<lparr>mx_counters := (mx_counters m)((name, labels) := mx_counters m (name, labels) + 1)\<rparr>"

definition gauge_Add :: "string \<Rightarrow> string list \<Rightarrow> int \<Rightarrow> registry \<Rightarrow> registry" where
  "gauge_Add name labels delta m = m\<lparr>mx_gauges := (mx_gauges m)((name, labels) := mx_gauges m (name, labels) + delta)\<rparr>"

definition gauge_Set :: "string \<Rightarrow> string list \<Rightarrow> int \<Rightarrow> registry \<Rightarrow> registry" where
  "gauge_Set name labels v m = m\<lparr>mx_gauges := (mx_gauges m)((name, labels) := v)\<rparr>"

definition histogram_Observe :: "string \<Rightarrow> string list \<Rightarrow> int \<Rightarrow> registry \<Rightarrow> registry" where
  "histogram_Observe name labels v m = m\<lparr>mx_observed := (mx_observed m)((name, labels) := v # mx_observed m (name, labels))\<rparr>"

section \<open>Recording\<close>

definition statusClass :: "int \<Rightarrow> string" where
  "statusClass status =
     (if status \<ge> 500 then ''5xx''
      else if status \<ge> 400 then ''4xx''
      else if status \<ge> 300 then ''3xx''
      else if status \<ge> 200 then ''2xx''
      else if status > 0 then itoa (status div 100) @ ''xx''
      else ''error'')"

definition ObserveServerRequest :: "string \<Rightarrow> string \<Rightarrow> int \<Rightarrow> int \<Rightarrow> registry \<Rightarrow> registry" where
  "ObserveServerRequest method route status elapsed m =
     histogram_Observe ''quorum_http_server_request_duration_seconds'' [method, route] elapsed
       (counter_Inc ''quorum_http_server_requests_total'' [method, route, statusClass status] m)"

definition ServerInFlightAdd :: "int \<Rightarrow> registry \<Rightarrow> registry" where
  "ServerInFlightAdd delta = gauge_Add ''quorum_http_server_in_flight_requests'' [] delta"

definition ObserveShedRequest :: "registry \<Rightarrow> registry" where
  "ObserveShedRequest = counter_Inc ''quorum_http_server_shed_requests_total'' []"

definition ObserveClientRequest :: "string \<Rightarrow> string \<Rightarrow> int \<Rightarrow> int \<Rightarrow> registry \<Rightarrow> registry" where
  "ObserveClientRequest dependency method status elapsed m =
     histogram_Observe ''quorum_http_client_request_duration_seconds'' [dependency, method] elapsed
       (counter_Inc ''quorum_http_client_requests_total'' [dependency, method, statusClass status] m)"

definition ObserveClientRetry :: "string \<Rightarrow> registry \<Rightarrow> registry" where
  "ObserveClientRetry dependency = counter_Inc ''quorum_http_client_retries_total'' [dependency]"

definition SetBreakerState :: "string \<Rightarrow> int \<Rightarrow> registry \<Rightarrow> registry" where
  "SetBreakerState dependency state = gauge_Set ''quorum_circuit_breaker_state'' [dependency] state"

definition ObserveBreakerRejection :: "string \<Rightarrow> registry \<Rightarrow> registry" where
  "ObserveBreakerRejection dependency = counter_Inc ''quorum_circuit_breaker_rejected_total'' [dependency]"

definition ObserveBusinessEvent :: "string \<Rightarrow> string \<Rightarrow> registry \<Rightarrow> registry" where
  "ObserveBusinessEvent event outcome = counter_Inc ''quorum_domain_events_total'' [event, outcome]"

definition QueueInFlightAdd :: "string \<Rightarrow> int \<Rightarrow> registry \<Rightarrow> registry" where
  "QueueInFlightAdd queue delta = gauge_Add ''quorum_queue_messages_in_flight'' [queue] delta"

definition ObserveQueueMessage :: "string \<Rightarrow> string \<Rightarrow> registry \<Rightarrow> registry" where
  "ObserveQueueMessage queue disposition = counter_Inc ''quorum_queue_messages_total'' [queue, disposition]"

definition ObserveQueuePublish :: "string \<Rightarrow> int \<Rightarrow> go_error option \<Rightarrow> registry \<Rightarrow> registry" where
  "ObserveQueuePublish queue elapsed err m =
     (let m1 = histogram_Observe ''quorum_queue_publish_duration_seconds'' [queue] elapsed m
      in if err \<noteq> None then counter_Inc ''quorum_queue_messages_total'' [queue, ''publish_failed''] m1
         else counter_Inc ''quorum_queue_messages_total'' [queue, ''published''] m1)"

definition ObserveReplication :: "string \<Rightarrow> go_error option \<Rightarrow> registry \<Rightarrow> registry" where
  "ObserveReplication operation err =
     (let outcome = (if err \<noteq> None then ''error'' else ''ok'') in counter_Inc ''quorum_kv_replication_total'' [operation, outcome])"

definition ObserveQuorumFailure :: "string \<Rightarrow> registry \<Rightarrow> registry" where
  "ObserveQuorumFailure operation = counter_Inc ''quorum_kv_quorum_failures_total'' [operation]"

definition ObserveReadRepair :: "registry \<Rightarrow> registry" where
  "ObserveReadRepair = counter_Inc ''quorum_kv_read_repairs_total'' []"

definition ObserveCache :: "string \<Rightarrow> string \<Rightarrow> registry \<Rightarrow> registry" where
  "ObserveCache cache result = counter_Inc ''quorum_cache_operations_total'' [cache, result]"

definition ObserveRateLimit :: "string \<Rightarrow> string \<Rightarrow> registry \<Rightarrow> registry" where
  "ObserveRateLimit scope decision = counter_Inc ''quorum_ratelimit_decisions_total'' [scope, decision]"

definition ObserveAuth :: "string \<Rightarrow> string \<Rightarrow> registry \<Rightarrow> registry" where
  "ObserveAuth operation result = counter_Inc ''quorum_auth_attempts_total'' [operation, result]"

text \<open>\<open>Instrument\<close> around a handler that leaves a status in the recorder, or panics (\<open>None\<close>): the deferred
  decrement runs in both cases, the observation only when the handler returned.\<close>

definition Instrument :: "string \<Rightarrow> string \<Rightarrow> string \<Rightarrow> int \<Rightarrow> (registry \<Rightarrow> int option \<times> registry) \<Rightarrow> registry \<Rightarrow> int option \<times> registry" where
  "Instrument route method path elapsed next m =
     (if isProbe path then next m
      else (case next (ServerInFlightAdd 1 m) of
              (None, m1) \<Rightarrow> (None, ServerInFlightAdd (- 1) m1)
            | (Some status, m1) \<Rightarrow> (Some status, ServerInFlightAdd (- 1) (ObserveServerRequest method route status elapsed m1))))"

lemmas metric_defs = counter_Inc_def gauge_Add_def gauge_Set_def histogram_Observe_def

section \<open>What the gauges and counters say\<close>

abbreviation in_flight_gauge :: "registry \<Rightarrow> int" where
  "in_flight_gauge m \<equiv> mx_gauges m (''quorum_http_server_in_flight_requests'', [])"

text \<open>The gauge of requests in flight is back where it was when a request ends, by a panic as well.\<close>

lemma Instrument_gauge:
  assumes "\<And>m. in_flight_gauge (snd (next m)) = in_flight_gauge m"
  shows "in_flight_gauge (snd (Instrument route method path elapsed next m)) = in_flight_gauge m"
  using assms [of m] assms [of "ServerInFlightAdd 1 m"]
  by (auto simp: Instrument_def ServerInFlightAdd_def ObserveServerRequest_def metric_defs split: prod.split option.split)

text \<open>The label of a status takes seven values, whatever an upstream answers.\<close>

lemma statusClass_range: "statusClass status \<in> {''error'', ''0xx'', ''1xx'', ''2xx'', ''3xx'', ''4xx'', ''5xx''}"
proof (cases "0 < status \<and> status < 200")
  case True
  then have "status div 100 = 0 \<or> status div 100 = 1" by presburger
  moreover have "itoa 0 = ''0''" "itoa 1 = ''1''" by code_simp+
  ultimately show ?thesis using True by (auto simp: statusClass_def)
qed (auto simp: statusClass_def)

section \<open>The labels of a service\<close>

text \<open>One request to a router: the route that serves it decides the label. \<open>label\<close> gives the template of
  the route behind an endpoint.\<close>

definition metered :: "(endpoint \<Rightarrow> string) \<Rightarrow> Router \<Rightarrow> string \<times> string \<times> int \<Rightarrow> registry \<Rightarrow> registry" where
  "metered label rt rq m =
     (case rq of (method, path, status) \<Rightarrow>
        case dispatch (Some rt) method path of
          Some (Serve ProbeOK vals) \<Rightarrow> m
        | Some (Serve Unmatched vals) \<Rightarrow> snd (Instrument ''unmatched'' method path 0 (\<lambda>m. (Some StatusNotFound, m)) m)
        | Some (Serve (Endpoint h) vals) \<Rightarrow> snd (Instrument (label (Endpoint h)) method path 0 (\<lambda>m. (Some status, m)) m)
        | _ \<Rightarrow> m)"

definition request_series :: "registry \<Rightarrow> series set" where
  "request_series m = {s. fst s = ''quorum_http_server_requests_total'' \<and> 0 < mx_counters m s}"

definition status_classes :: "string set" where
  "status_classes = {''error'', ''0xx'', ''1xx'', ''2xx'', ''3xx'', ''4xx'', ''5xx''}"

definition series_of :: "string set \<Rightarrow> string set \<Rightarrow> series set" where
  "series_of methods routes = (\<lambda>(method, route, class). (''quorum_http_server_requests_total'', [method, route, class])) ` (methods \<times> routes \<times> status_classes)"

lemma series_of_iff:
  "s \<in> series_of M R \<longleftrightarrow> (\<exists>method \<in> M. \<exists>route \<in> R. \<exists>class \<in> status_classes. s = (''quorum_http_server_requests_total'', [method, route, class]))"
  unfolding series_of_def by force

lemma request_series_Instrument:
  "request_series (snd (Instrument route method path e (\<lambda>m. (Some status, m)) m)) =
     (if isProbe path then request_series m
      else insert (''quorum_http_server_requests_total'', [method, route, statusClass status]) (request_series m))"
  by (auto simp: Instrument_def ServerInFlightAdd_def ObserveServerRequest_def metric_defs request_series_def)

text \<open>The labels a table of routes can produce.\<close>

definition route_labels :: "(endpoint \<Rightarrow> string) \<Rightarrow> Router \<Rightarrow> string set" where
  "route_labels label rt = insert ''unmatched'' (label ` (snd ` set (ro_mux rt)))"

lemma mux_match_endpoint: "mux_match t method path = Some (h, vals) \<Longrightarrow> h \<in> snd ` set t"
proof -
  have "h \<in> snd ` set (with_method m t)" if "matchPath (with_method m t) ws = Some (h, vals)" for m ws
    using matchPath_best [of "with_method m t" ws] that by force
  moreover have "snd ` set (with_method m t) \<subseteq> snd ` set t" for m by (force simp: with_method_def)
  ultimately show "mux_match t method path = Some (h, vals) \<Longrightarrow> h \<in> snd ` set t"
    unfolding mux_match_def by (auto split: option.splits if_splits) blast+
qed

lemma metered_series:
  "request_series (metered label rt (method, path, status) m) \<subseteq> request_series m \<union> series_of {method} (route_labels label rt)"
proof -
  have cls: "statusClass s \<in> status_classes" for s using statusClass_range by (simp add: status_classes_def)
  show ?thesis
  proof (cases "dispatch (Some rt) method path")
    case (Some d)
    show ?thesis
    proof (cases d)
      case (Serve h vals)
      then have "h \<in> snd ` set (ro_mux rt)" using Some mux_match_endpoint by (fastforce simp: dispatch_def split: if_splits)
      then have "label h \<in> route_labels label rt" "''unmatched'' \<in> route_labels label rt" by (auto simp: route_labels_def)
      with Some Serve cls show ?thesis
        by (cases h) (auto simp: metered_def request_series_Instrument series_of_iff)
    qed (use Some in \<open>simp add: metered_def\<close>)
  qed (simp add: metered_def)
qed

lemma metered_run_series:
  "request_series (fold (metered label rt) rqs m) \<subseteq> request_series m \<union> series_of (fst ` set rqs) (route_labels label rt)"
proof (induction rqs arbitrary: m)
  case (Cons rq rqs)
  obtain meth pth status where rq: "rq = (meth, pth, status)" by (cases rq)
  have "series_of {meth} R \<union> series_of (fst ` set rqs) R \<subseteq> series_of (fst ` set (rq # rqs)) R" for R
    by (auto simp: series_of_iff rq)
  with Cons.IH [of "metered label rt rq m"] metered_series [of label rt meth pth status m] show ?case
    by (auto simp: rq) blast
qed simp

definition empty_registry :: registry where
  "empty_registry = \<lparr>mx_counters = (\<lambda>s. 0), mx_gauges = (\<lambda>s. 0), mx_observed = (\<lambda>s. [])\<rparr>"

text \<open>
  The time series of a service do not grow with its customers. After any sequence of requests, with
  whatever identifiers in their paths and whatever statuses answered, the series of the request counter
  are at most seven for each method that was used and each registered route.
\<close>

lemma series_bounded:
  "card (request_series (fold (metered label rt) rqs empty_registry)) \<le> card (fst ` set rqs) * Suc (length (ro_mux rt)) * 7"
proof -
  let ?R = "route_labels label rt" and ?M = "fst ` set rqs"
  have fin: "finite ?R" "finite status_classes" by (simp_all add: route_labels_def status_classes_def)
  have "card (snd ` set (ro_mux rt)) \<le> length (ro_mux rt)" using card_image_le [of "set (ro_mux rt)" snd] card_length [of "ro_mux rt"] by simp
  then have "card (label ` snd ` set (ro_mux rt)) \<le> length (ro_mux rt)" using card_image_le [of "snd ` set (ro_mux rt)" label] by simp
  then have R: "card ?R \<le> Suc (length (ro_mux rt))" unfolding route_labels_def
    using card_insert_le_m1 by (simp add: card_insert_if)
  have C: "card status_classes \<le> 7" by (simp add: status_classes_def)
  have "request_series empty_registry = {}" by (simp add: request_series_def empty_registry_def)
  then have "request_series (fold (metered label rt) rqs empty_registry) \<subseteq> series_of ?M ?R"
    using metered_run_series [of label rt rqs empty_registry] by simp
  moreover have "finite (series_of ?M ?R)" using fin by (simp add: series_of_def)
  ultimately have "card (request_series (fold (metered label rt) rqs empty_registry)) \<le> card (series_of ?M ?R)" by (rule card_mono [rotated])
  also have "\<dots> \<le> card (?M \<times> ?R \<times> status_classes)" unfolding series_of_def using fin by (intro card_image_le) simp
  also have "\<dots> = card ?M * (card ?R * card status_classes)" by (simp add: card_cartesian_product)
  also have "\<dots> \<le> card ?M * (Suc (length (ro_mux rt)) * 7)" by (intro mult_le_mono2 mult_le_mono R C)
  finally show ?thesis by (simp only: mult.assoc)
qed

text \<open>
  They do grow with the methods a client makes up: a request with any method is served by the
  catch-all, which counts it under that method, so a client that sends a new word as the method of
  every request adds a series with every request.
\<close>

lemma unmatched_dispatch:
  assumes "order_Routes = Some rt" and "method \<noteq> ''''"
  shows "\<exists>vals. dispatch (Some rt) method ''/x'' = Some (Serve Unmatched vals)"
proof -
  have t: "map_option ro_mux order_Routes = Some
     [(\<lparr>pt_Method = '''', pt_Segs = [Multi]\<rparr>, Unmatched),
      (\<lparr>pt_Method = ''GET'', pt_Segs = [Lit ''orders'', Lit ''health'']\<rparr>, ProbeOK),
      (\<lparr>pt_Method = ''GET'', pt_Segs = [Lit ''orders'']\<rparr>, Endpoint ''handleList''),
      (\<lparr>pt_Method = ''GET'', pt_Segs = [Lit ''orders'', Wild ''orderId'']\<rparr>, Endpoint ''handleGet''),
      (\<lparr>pt_Method = ''POST'', pt_Segs = [Lit ''orders'', Wild ''orderId'', Lit ''cancel'']\<rparr>, Endpoint ''handleCancel'')]" by code_simp
  have p: "cleanPath ''/x'' = ''/x''" "path_segs ''/x'' = [''x'']" by code_simp+
  note t = t [unfolded assms(1) option.map option.inject]
  show ?thesis using assms(2)
    by (simp add: dispatch_def p t mux_match_def with_method_def under_lit_def under_wild_def leaf_def List.map_filter_simps)
qed

lemma method_label_unbounded:
  assumes rt: "order_Routes = Some rt" and "distinct ms" "'''' \<notin> set ms"
  shows "length ms \<le> card (request_series (fold (metered label rt) (map (\<lambda>m. (m, ''/x'', 200)) ms) empty_registry))"
proof -
  let ?s = "\<lambda>m. (''quorum_http_server_requests_total'', [m, ''unmatched'', ''4xx''])"
  have "request_series (fold (metered label rt) (map (\<lambda>m. (m, ''/x'', 200)) ms) r) = request_series r \<union> ?s ` set ms" for r
    using assms(3)
  proof (induction ms arbitrary: r)
    case (Cons m ms)
    obtain vals where "dispatch (Some rt) m ''/x'' = Some (Serve Unmatched vals)" using unmatched_dispatch [OF rt, of m] Cons.prems by fastforce
    then have "request_series (metered label rt (m, ''/x'', 200) r) = insert (?s m) (request_series r)"
      by (simp add: metered_def request_series_Instrument statusClass_def isProbe_def)
    with Cons show ?case by auto
  qed simp
  moreover have "card (?s ` set ms) = length ms" using assms(2) by (simp add: card_image inj_on_def distinct_card)
  ultimately show ?thesis by (simp add: request_series_def empty_registry_def)
qed


text \<open>
  A path that ends like a probe's is taken for one, whatever its method: storing the product \<open>health\<close>
  reaches the handler, is never turned away by the cap on requests in flight, and is not counted.
\<close>

lemma put_health_uncapped:
  "fst (admit ''/product/health'' f)"
  "dispatch product_Routes ''PUT'' ''/product/health'' = Some (Serve (Endpoint ''handlePut'') [''health''])"
  "snd (Instrument route ''PUT'' ''/product/health'' e next m) = snd (next m)"
  using health_product_shadowed(1) by (simp_all add: admit_def isProbe_def Instrument_def)


end
