(* ===== verification/Health.thy ===== *)
theory Health
  imports Httpx_Errors "HOL-Library.Multiset"
begin

text \<open>
  \<^verbatim>\<open>src/internal/obs/health.go\<close> and the readiness endpoint of \<^verbatim>\<open>src/internal/obs/admin.go\<close>: probes
  run concurrently, so their outcomes arrive in any order. Times are nanoseconds; how long a probe
  took and the build information, which the report only displays, are left out, and an error is kept
  as the value it renders.
\<close>

record Check =
  hc_Name :: string
  hc_Optional :: bool

record CheckResult =
  hr_Status :: string
  hr_Error :: "go_error option"
  hr_Optional :: bool

record Report =
  rp_Overall :: string
  rp_Checks :: "string \<rightharpoonup> CheckResult"

definition StatusUp :: string where "StatusUp = ''up''"
definition StatusDegraded :: string where "StatusDegraded = ''degraded''"
definition StatusDown :: string where "StatusDown = ''down''"

lemma statuses_distinct [simp]:
  "StatusUp \<noteq> StatusDegraded" "StatusUp \<noteq> StatusDown" "StatusDegraded \<noteq> StatusDown"
  "StatusDegraded \<noteq> StatusUp" "StatusDown \<noteq> StatusUp" "StatusDown \<noteq> StatusDegraded"
  by (simp_all add: StatusUp_def StatusDegraded_def StatusDown_def)

text \<open>What one probe sends, given the error it returned.\<close>

definition probe_outcome :: "Check \<Rightarrow> go_error option \<Rightarrow> string \<times> CheckResult" where
  "probe_outcome c err =
     (hc_Name c, \<lparr>hr_Status = (if err = None then StatusUp else StatusDown), hr_Error = err, hr_Optional = hc_Optional c\<rparr>)"

definition collect :: "string \<times> CheckResult \<Rightarrow> Report \<Rightarrow> Report" where
  "collect got report =
     (let r = report\<lparr>rp_Checks := (rp_Checks report)(fst got \<mapsto> snd got)\<rparr>
      in if hr_Status (snd got) = StatusUp then r
         else if hr_Optional (snd got) then (if rp_Overall r = StatusUp then r\<lparr>rp_Overall := StatusDegraded\<rparr> else r)
         else r\<lparr>rp_Overall := StatusDown\<rparr>)"

text \<open>\<open>evaluate\<close>: the outcomes in the order they were received.\<close>

definition evaluate :: "(string \<times> CheckResult) list \<Rightarrow> Report" where
  "evaluate received = fold collect received \<lparr>rp_Overall = StatusUp, rp_Checks = Map.empty\<rparr>"

record Health =
  h_ttl :: int
  h_draining :: bool
  h_cached :: Report
  h_cachedAt :: int

definition NewHealth :: Health where
  "NewHealth = \<lparr>h_ttl = 2000000000, h_draining = False, h_cached = \<lparr>rp_Overall = '''', rp_Checks = Map.empty\<rparr>, h_cachedAt = 0\<rparr>"

definition Drain :: "Health \<Rightarrow> Health" where "Drain h = h\<lparr>h_draining := True\<rparr>"

definition health_Report :: "int \<Rightarrow> int \<Rightarrow> (string \<times> CheckResult) list \<Rightarrow> Health \<Rightarrow> Report \<times> Health" where
  "health_Report now later received h =
     (if h_draining h
      then (\<lparr>rp_Overall = StatusDown, rp_Checks = [''shutdown'' \<mapsto> \<lparr>hr_Status = ''draining'', hr_Error = None, hr_Optional = False\<rparr>]\<rparr>, h)
      else if now - h_cachedAt h < h_ttl h \<and> rp_Overall (h_cached h) \<noteq> '''' then (h_cached h, h)
      else (let report = evaluate received in (report, h\<lparr>h_cached := report, h_cachedAt := later\<rparr>)))"

definition readyz :: "Report \<Rightarrow> int" where
  "readyz report = (if rp_Overall report = StatusDown then StatusServiceUnavailable else StatusOK)"

section \<open>Readiness is what the dependencies say\<close>

definition failed :: "bool \<Rightarrow> string \<times> CheckResult \<Rightarrow> bool" where
  "failed optional got \<longleftrightarrow> hr_Status (snd got) \<noteq> StatusUp \<and> hr_Optional (snd got) = optional"

definition overall :: "(string \<times> CheckResult) set \<Rightarrow> string" where
  "overall S = (if \<exists>x \<in> S. failed False x then StatusDown else if \<exists>x \<in> S. failed True x then StatusDegraded else StatusUp)"

lemma collect_status:
  "rp_Overall (collect got report) =
     (if failed False got then StatusDown
      else if failed True got \<and> rp_Overall report = StatusUp then StatusDegraded else rp_Overall report)"
  by (auto simp: collect_def failed_def Let_def)

lemma evaluate_fold:
  "rp_Overall (fold collect received \<lparr>rp_Overall = overall S, rp_Checks = m\<rparr>) = overall (S \<union> set received)"
proof (induction received arbitrary: S m)
  case (Cons got received)
  have "collect got \<lparr>rp_Overall = overall S, rp_Checks = m\<rparr> =
      \<lparr>rp_Overall = overall (insert got S), rp_Checks = m(fst got \<mapsto> snd got)\<rparr>"
    by (auto simp: collect_def overall_def failed_def Let_def)
  with Cons.IH [of "insert got S"] show ?case by simp
qed simp

lemma evaluate_overall: "rp_Overall (evaluate received) = overall (set received)"
  using evaluate_fold [of received "{}" Map.empty] by (simp add: evaluate_def overall_def)

lemma failed_probe [simp]: "failed b (probe_outcome c err) \<longleftrightarrow> err \<noteq> None \<and> hc_Optional c = b"
  by (simp add: failed_def probe_outcome_def)

lemma overall_probes:
  "overall ((\<lambda>(c, err). probe_outcome c err) ` S) =
     (if \<exists>(c, err) \<in> S. err \<noteq> None \<and> \<not> hc_Optional c then StatusDown
      else if \<exists>(c, err) \<in> S. err \<noteq> None then StatusDegraded else StatusUp)"
proof -
  have "(\<exists>x \<in> (\<lambda>(c, err). probe_outcome c err) ` S. failed b x) \<longleftrightarrow> (\<exists>(c, err) \<in> S. err \<noteq> None \<and> hc_Optional c = b)" for b
    by (simp add: case_prod_beta)
  from this [of False] this [of True] show ?thesis by (simp add: overall_def) fastforce
qed

lemma readyz_status: "readyz r = StatusOK \<longleftrightarrow> rp_Overall r \<noteq> StatusDown"
  by (simp add: readyz_def)

lemma draining_is_down: "readyz (fst (health_Report now later received (Drain h))) = StatusServiceUnavailable"
  by (simp add: readyz_def health_Report_def Drain_def)

text \<open>
  Readiness depends on the outcomes of the probes and not on the order they arrive in: the
  service is down exactly if a required dependency failed, degraded if only optional ones did, up
  if none did, and only down takes it out of rotation; once draining has begun it is always down.
\<close>

lemma readiness_correct:
  assumes "mset received = mset (map (\<lambda>(c, err). probe_outcome c err) outcomes)"
  shows "(rp_Overall (evaluate received) = StatusDown \<longleftrightarrow> (\<exists>(c, err) \<in> set outcomes. err \<noteq> None \<and> \<not> hc_Optional c)) \<and>
         (rp_Overall (evaluate received) = StatusUp \<longleftrightarrow> (\<forall>(c, err) \<in> set outcomes. err = None)) \<and>
         (readyz (evaluate received) = StatusOK \<longleftrightarrow> (\<forall>(c, err) \<in> set outcomes. err = None \<or> hc_Optional c)) \<and>
         readyz (fst (health_Report now later received (Drain h))) = StatusServiceUnavailable"
proof -
  have "set received = (\<lambda>(c, err). probe_outcome c err) ` set outcomes" using mset_eq_setD [OF assms] by simp
  then have "rp_Overall (evaluate received) =
     (if \<exists>(c, err) \<in> set outcomes. err \<noteq> None \<and> \<not> hc_Optional c then StatusDown
      else if \<exists>(c, err) \<in> set outcomes. err \<noteq> None then StatusDegraded else StatusUp)"
    by (simp only: evaluate_overall overall_probes)
  then show ?thesis by (fastforce simp: readyz_status draining_is_down split: if_splits)
qed

lemma readiness_correct_witness:
  "rp_Overall (evaluate [probe_outcome \<lparr>hc_Name = ''redis'', hc_Optional = True\<rparr> (Some (Sentinel ''down'')),
                         probe_outcome \<lparr>hc_Name = ''db'', hc_Optional = False\<rparr> None]) \<noteq> StatusDown"
  using readiness_correct [of "[probe_outcome \<lparr>hc_Name = ''redis'', hc_Optional = True\<rparr> (Some (Sentinel ''down'')),
      probe_outcome \<lparr>hc_Name = ''db'', hc_Optional = False\<rparr> None]"
      "[(\<lparr>hc_Name = ''db'', hc_Optional = False\<rparr>, None), (\<lparr>hc_Name = ''redis'', hc_Optional = True\<rparr>, Some (Sentinel ''down''))]"]
  by simp

end
