(* ===== verification/Serving.thy ===== *)
theory Serving
  imports Envx Health Mux
begin

text \<open>
  Running a service: \<^verbatim>\<open>src/internal/httpx/server.go\<close> with its shutdown sequence,
  \<^verbatim>\<open>src/internal/httpx/probe.go\<close>, the admin endpoint of \<^verbatim>\<open>src/internal/obs/admin.go\<close> and
  \<^verbatim>\<open>src/cmd/healthcheck/main.go\<close>. The operating system, the clock and the clients decide which step comes
  next: a request arrives or ends, time passes, the signal comes, the listener fails.
\<close>

section \<open>Settings\<close>

record ServerConfig =
  sc_Addr :: string
  sc_Health :: "Health option"
  sc_DrainDelay :: int
  sc_ShutdownTimeout :: int

definition server_withDefaults :: "(string \<Rightarrow> int option) \<Rightarrow> env \<Rightarrow> ServerConfig \<Rightarrow> ServerConfig" where
  "server_withDefaults ParseDuration env c0 =
     (let c1 = (if sc_DrainDelay c0 \<le> 0 then c0\<lparr>sc_DrainDelay := env_Millis ParseDuration env ''DRAIN_DELAY_MS'' 5000000000\<rparr> else c0)
      in if sc_ShutdownTimeout c1 \<le> 0
         then c1\<lparr>sc_ShutdownTimeout := env_Millis ParseDuration env ''SHUTDOWN_TIMEOUT_MS'' 25000000000\<rparr> else c1)"

definition DefaultMaxInFlight :: "env \<Rightarrow> int \<Rightarrow> int" where
  "DefaultMaxInFlight env procs = env_Int env ''MAX_IN_FLIGHT'' (64 * procs)"

section \<open>Serving and draining\<close>

datatype phase = Running | Draining | Stopping | Returned "go_error option"

text \<open>A server: the requests it is working on, when the timer of the drain delay was set, and when the
  deadline for the requests was.\<close>

record server =
  sv_cfg :: ServerConfig
  sv_health :: "Health option"
  sv_now :: int
  sv_phase :: phase
  sv_requests :: "nat list"
  sv_drainAt :: "int option"
  sv_stopAt :: "int option"

definition Serve_start :: "(string \<Rightarrow> int option) \<Rightarrow> env \<Rightarrow> ServerConfig \<Rightarrow> int \<Rightarrow> server" where
  "Serve_start ParseDuration env cfg now =
     \<lparr>sv_cfg = server_withDefaults ParseDuration env cfg, sv_health = sc_Health cfg, sv_now = now, sv_phase = Running,
      sv_requests = [], sv_drainAt = None, sv_stopAt = None\<rparr>"

text \<open>\<open>ctx.Done()\<close>: with a health endpoint the instance is marked not ready and goes on serving, without
  one it stops at once.\<close>

definition Serve_cancelled :: "server \<Rightarrow> server" where
  "Serve_cancelled s =
     (case sv_health s of
        Some h \<Rightarrow> s\<lparr>sv_health := Some (Drain h), sv_phase := Draining, sv_drainAt := Some (sv_now s)\<rparr>
      | None \<Rightarrow> s\<lparr>sv_phase := Stopping, sv_stopAt := Some (sv_now s)\<rparr>)"

text \<open>\<open>Shutdown\<close> closes the listeners at once and returns what that gave when no request is left.\<close>

inductive Serve_step :: "server \<Rightarrow> server \<Rightarrow> bool" where
  arrive: "sv_phase s \<in> {Running, Draining} \<Longrightarrow> Serve_step s (s\<lparr>sv_requests := rq # sv_requests s\<rparr>)"
| finish: "rq \<in> set (sv_requests s) \<Longrightarrow> Serve_step s (s\<lparr>sv_requests := remove1 rq (sv_requests s)\<rparr>)"
| tick: "0 \<le> d \<Longrightarrow> Serve_step s (s\<lparr>sv_now := sv_now s + d\<rparr>)"
| report: "sv_health s = Some h \<Longrightarrow> Serve_step s (s\<lparr>sv_health := Some (snd (health_Report now later received h))\<rparr>)"
| listen_failed: "sv_phase s \<in> {Running, Draining} \<Longrightarrow> Serve_step s (s\<lparr>sv_phase := Returned (Some err)\<rparr>)"
| cancelled: "sv_phase s = Running \<Longrightarrow> Serve_step s (Serve_cancelled s)"
| drained: "sv_phase s = Draining \<Longrightarrow> sv_drainAt s = Some t \<Longrightarrow> t + sc_DrainDelay (sv_cfg s) \<le> sv_now s \<Longrightarrow>
     Serve_step s (s\<lparr>sv_phase := Stopping, sv_stopAt := Some (sv_now s)\<rparr>)"
| shut: "sv_phase s = Stopping \<Longrightarrow> sv_requests s = [] \<Longrightarrow> Serve_step s (s\<lparr>sv_phase := Returned close_err\<rparr>)"
| shut_late: "sv_phase s = Stopping \<Longrightarrow> sv_stopAt s = Some t \<Longrightarrow> t + sc_ShutdownTimeout (sv_cfg s) \<le> sv_now s \<Longrightarrow>
     Serve_step s (s\<lparr>sv_phase := Returned (Some (Sentinel ''context deadline exceeded''))\<rparr>)"

definition draining :: "server \<Rightarrow> bool" where
  "draining s \<longleftrightarrow> (case sv_health s of None \<Rightarrow> False | Some h \<Rightarrow> h_draining h)"

inductive_cases Serve_stepE: "Serve_step s s'"

lemma health_Report_draining: "h_draining (snd (health_Report now later received h)) = h_draining h"
  by (simp add: health_Report_def Let_def)

text \<open>What holds of a server from its start, from the signal at \<open>t\<close>, and from the end of the drain delay at \<open>t\<close>.\<close>

definition serving_inv :: "ServerConfig \<Rightarrow> server \<Rightarrow> bool" where
  "serving_inv c s \<longleftrightarrow> sv_cfg s = c \<and> (sv_health s = None \<longleftrightarrow> sc_Health c = None)"

definition draining_inv :: "ServerConfig \<Rightarrow> int \<Rightarrow> server \<Rightarrow> bool" where
  "draining_inv c t s \<longleftrightarrow>
     sv_cfg s = c \<and> draining s \<and> sv_phase s \<noteq> Running \<and> (sv_phase s = Draining \<longrightarrow> sv_drainAt s = Some t) \<and>
     (sv_phase s = Stopping \<longrightarrow> t + sc_DrainDelay c \<le> sv_now s) \<and> (sv_phase s = Returned None \<longrightarrow> sv_requests s = [])"

definition stopping_inv :: "ServerConfig \<Rightarrow> int \<Rightarrow> server \<Rightarrow> bool" where
  "stopping_inv c t s \<longleftrightarrow>
     sv_cfg s = c \<and> sv_stopAt s = Some t \<and> sv_phase s \<notin> {Running, Draining} \<and>
     (\<forall>r. sv_phase s = Returned r \<longrightarrow> sv_requests s = [] \<or> t + sc_ShutdownTimeout c \<le> sv_now s)"

lemma draining_report: "sv_health s = Some h \<Longrightarrow> draining (s\<lparr>sv_health := Some (snd (health_Report now later received h))\<rparr>) = draining s"
  by (simp add: draining_def health_Report_draining)

interpretation serving: invariant_system "\<lambda>s. \<exists>now. s = Serve_start ParseDuration env cfg now" Serve_step
  "serving_inv (server_withDefaults ParseDuration env cfg)" for ParseDuration env cfg
proof unfold_locales
  fix s s'
  show "serving_inv (server_withDefaults ParseDuration env cfg) s" if "\<exists>now. s = Serve_start ParseDuration env cfg now"
    using that by (auto simp: serving_inv_def Serve_start_def server_withDefaults_def Let_def)
  show "serving_inv c s'" if "serving_inv c s" "Serve_step s s'" for c
    using that(2,1) by cases (auto simp: serving_inv_def Serve_cancelled_def split: option.splits)
qed

interpretation draining: invariant_system
  "\<lambda>s. \<exists>s0. s = Serve_cancelled s0 \<and> sv_cfg s0 = c \<and> sv_health s0 \<noteq> None \<and> sv_now s0 = t" Serve_step "draining_inv c t" for c t
proof unfold_locales
  fix s s'
  show "draining_inv c t s" if "\<exists>s0. s = Serve_cancelled s0 \<and> sv_cfg s0 = c \<and> sv_health s0 \<noteq> None \<and> sv_now s0 = t"
    using that by (auto simp: draining_inv_def Serve_cancelled_def draining_def Drain_def)
  assume inv: "draining_inv c t s" and "Serve_step s s'"
  from this(2) show "draining_inv c t s'"
  proof cases
    case (report h now later received)
    with inv show ?thesis by (simp add: draining_inv_def draining_report)
  qed (use inv in \<open>auto simp: draining_inv_def draining_def\<close>)
qed

interpretation stopping: invariant_system
  "\<lambda>s. \<exists>s1. sv_phase s1 = Draining \<and> sv_cfg s1 = c \<and> Serve_step s1 s \<and> sv_phase s = Stopping \<and> sv_now s = t" Serve_step "stopping_inv c t" for c t
proof unfold_locales
  fix s s'
  show "stopping_inv c t s" if "\<exists>s1. sv_phase s1 = Draining \<and> sv_cfg s1 = c \<and> Serve_step s1 s \<and> sv_phase s = Stopping \<and> sv_now s = t"
    using that by (auto simp: stopping_inv_def elim: Serve_stepE)
  show "stopping_inv c t s'" if "stopping_inv c t s" "Serve_step s s'"
    using that(2,1) by cases (auto simp: stopping_inv_def)
qed

text \<open>
  C30. A shutdown severs no request before its time. However requests arrive and end around the
  signal: in every state from the signal on, the readiness endpoint answers 503; the server stops
  accepting only when the drain delay has passed since the signal; when it returns without an error
  every request it accepted has been answered; and when it returns with one after it stopped accepting and
  a request is left, the requests had the whole shutdown timeout to finish.
\<close>

theorem shutdown_graceful:
  assumes up: "Serve_step\<^sup>*\<^sup>* (Serve_start ParseDuration env cfg now) s0" "sv_phase s0 = Running"
    and health: "sc_Health cfg = Some h" and conf: "server_withDefaults ParseDuration env cfg = c"
    and signal: "Serve_step\<^sup>*\<^sup>* (Serve_cancelled s0) s"
  shows "(\<exists>h'. sv_health s = Some h' \<and> readyz (fst (health_Report now' later received h')) = StatusServiceUnavailable) \<and>
         (sv_phase s = Stopping \<longrightarrow> sv_now s0 + sc_DrainDelay c \<le> sv_now s) \<and>
         (sv_phase s = Returned None \<longrightarrow> sv_requests s = []) \<and>
         (\<forall>s1 s2 err. Serve_step\<^sup>*\<^sup>* (Serve_cancelled s0) s1 \<and> sv_phase s1 = Draining \<and> Serve_step s1 s2 \<and> sv_phase s2 = Stopping \<and>
            Serve_step\<^sup>*\<^sup>* s2 s \<and> sv_phase s = Returned (Some err) \<and> sv_requests s \<noteq> [] \<longrightarrow>
            sv_now s2 + sc_ShutdownTimeout c \<le> sv_now s)"
proof -
  have "serving_inv c s0" using serving.reachable_inv [OF _ up(1)] conf by blast
  moreover have "sc_Health c = Some h" using health conf by (auto simp: server_withDefaults_def Let_def)
  ultimately have s0: "sv_cfg s0 = c" "sv_health s0 \<noteq> None" by (auto simp: serving_inv_def)
  have inv: "draining_inv c (sv_now s0) s'" if "Serve_step\<^sup>*\<^sup>* (Serve_cancelled s0) s'" for s'
    using draining.reachable_inv [OF _ that] s0 by blast
  have "\<exists>h'. sv_health s = Some h' \<and> readyz (fst (health_Report now' later received h')) = StatusServiceUnavailable"
    using inv [OF signal] by (auto simp: draining_inv_def draining_def health_Report_def readyz_def split: option.splits)
  moreover have "sv_now s2 + sc_ShutdownTimeout c \<le> sv_now s"
    if run: "Serve_step\<^sup>*\<^sup>* (Serve_cancelled s0) s1" "sv_phase s1 = Draining" "Serve_step s1 s2" "sv_phase s2 = Stopping" "Serve_step\<^sup>*\<^sup>* s2 s"
      and ret: "sv_phase s = Returned (Some err)" "sv_requests s \<noteq> []" for s1 s2 err
  proof -
    have "sv_cfg s1 = c" using inv [OF run(1)] by (simp add: draining_inv_def)
    then have "stopping_inv c (sv_now s2) s" using stopping.reachable_inv [OF _ run(5)] run(2-4) by blast
    with ret show ?thesis by (auto simp: stopping_inv_def)
  qed
  ultimately show ?thesis using inv [OF signal] unfolding draining_inv_def by blast
qed

theorem shutdown_graceful_witness:
  "\<exists>s0 s. Serve_step\<^sup>*\<^sup>* (Serve_start (\<lambda>s. None) (\<lambda>k. None) \<lparr>sc_Addr = '':8080'', sc_Health = Some NewHealth, sc_DrainDelay = 0, sc_ShutdownTimeout = 0\<rparr> 0) s0 \<and>
     Serve_step\<^sup>*\<^sup>* (Serve_cancelled s0) s \<and> sv_requests s0 = [7] \<and> sv_phase s = Returned None \<and> sv_requests s = [] \<and>
     (\<exists>h'. sv_health s = Some h' \<and> readyz (fst (health_Report 0 0 [] h')) = StatusServiceUnavailable)"
proof -
  let ?cfg = "\<lparr>sc_Addr = '':8080'', sc_Health = Some NewHealth, sc_DrainDelay = 0, sc_ShutdownTimeout = 0\<rparr>"
  let ?s0 = "Serve_start (\<lambda>s. None) (\<lambda>k. None) ?cfg 0"
  let ?s1 = "?s0\<lparr>sv_requests := [7]\<rparr>"
  let ?s2 = "Serve_cancelled ?s1"
  let ?s3 = "?s2\<lparr>sv_now := sv_now ?s2 + 5000000000\<rparr>"
  let ?s4 = "?s3\<lparr>sv_phase := Stopping, sv_stopAt := Some (sv_now ?s3)\<rparr>"
  let ?s5 = "?s4\<lparr>sv_requests := remove1 7 (sv_requests ?s4)\<rparr>"
  let ?s6 = "?s5\<lparr>sv_phase := Returned None\<rparr>"
  have c: "server_withDefaults (\<lambda>s. None) (\<lambda>k. None) ?cfg = ?cfg\<lparr>sc_DrainDelay := 5000000000, sc_ShutdownTimeout := 25000000000\<rparr>"
    by (simp add: server_withDefaults_def env_Millis_def env_parsed_def)
  note sv = Serve_start_def Serve_cancelled_def c
  have up: "Serve_step\<^sup>*\<^sup>* ?s0 ?s1" using Serve_step.arrive [of ?s0 7] by (simp add: sv r_into_rtranclp)
  have "Serve_step ?s2 ?s3" by (rule Serve_step.tick) simp
  moreover have "Serve_step ?s3 ?s4" by (rule Serve_step.drained [of _ 0]) (simp_all add: sv)
  moreover have "Serve_step ?s4 ?s5" by (rule Serve_step.finish) (simp add: sv)
  moreover have "Serve_step ?s5 ?s6" by (rule Serve_step.shut) (simp_all add: sv)
  ultimately have run: "Serve_step\<^sup>*\<^sup>* ?s2 ?s6" by (meson r_into_rtranclp rtranclp_trans)
  have st: "sv_phase ?s1 = Running" "sv_requests ?s1 = [7]" "sv_phase ?s6 = Returned None" by (simp_all add: sv)
  have "sc_Health ?cfg = Some NewHealth" by simp
  note g = shutdown_graceful [OF up st(1) this refl run]
  from g [of 0 0 "[]"] st(3) have "sv_requests ?s6 = []" by blast
  moreover have "\<exists>h'. sv_health ?s6 = Some h' \<and> readyz (fst (health_Report 0 0 [] h')) = StatusServiceUnavailable"
    using g [of 0 0 "[]"] by blast
  ultimately show ?thesis using up run st by blast
qed

section \<open>Probes\<close>

text \<open>\<open>Ping\<close>: whether the request could be built, and what the client returned for it.\<close>

definition Ping :: "bool \<Rightarrow> int res \<Rightarrow> go_error option" where
  "Ping built resp =
     (if \<not> built then Some (Wrapped ''%s: building probe request: %w'' [])
      else (case resp of
              Inl err \<Rightarrow> Some (Wrapped ''%s: unreachable: %w'' [err])
            | Inr code \<Rightarrow> if code < 200 \<or> code > 299 then Some (Sentinel ''%s: health endpoint returned %d'') else None))"

text \<open>\<open>healthcheck\<close>: the exit code and the timeout it asked with.\<close>

definition healthcheck_timeout :: "(string \<Rightarrow> int option) \<Rightarrow> env \<Rightarrow> int" where
  "healthcheck_timeout ParseDuration env =
     (case env ''HEALTHCHECK_TIMEOUT'' of
        None \<Rightarrow> 3000000000
      | Some raw \<Rightarrow> if raw = '''' then 3000000000 else (case ParseDuration raw of None \<Rightarrow> 3000000000 | Some d \<Rightarrow> d))"

definition healthcheck_main :: "nat \<Rightarrow> bool \<Rightarrow> int res \<Rightarrow> int" where
  "healthcheck_main nargs built resp =
     (if nargs \<noteq> 2 then 2
      else if \<not> built then 1
      else (case resp of Inl err \<Rightarrow> 1 | Inr code \<Rightarrow> if code < 200 \<or> code > 299 then 1 else 0))"

text \<open>The prober of the containers and the probe of a dependency agree.\<close>

lemma healthcheck_Ping: "healthcheck_main 2 built resp = 0 \<longleftrightarrow> Ping built resp = None"
  by (simp add: healthcheck_main_def Ping_def split: sum.split)

section \<open>The admin endpoint\<close>

fun mux_register :: "(string \<times> endpoint) list \<Rightarrow> (pattern \<times> endpoint) list \<Rightarrow> (pattern \<times> endpoint) list option" where
  "mux_register [] t = Some t"
| "mux_register ((s, h) # hs) t = (case mux_Handle s h t of None \<Rightarrow> None | Some t' \<Rightarrow> mux_register hs t')"

definition AdminHandler :: "(pattern \<times> endpoint) list option" where
  "AdminHandler = mux_register
     [(''GET /metrics'', Endpoint ''metrics''), (''GET /healthz'', Endpoint ''healthz''), (''GET /readyz'', Endpoint ''readyz''),
      (''GET /version'', Endpoint ''version''), (''GET /debug/pprof/'', Endpoint ''pprof.Index''),
      (''GET /debug/pprof/cmdline'', Endpoint ''pprof.Cmdline''), (''GET /debug/pprof/profile'', Endpoint ''pprof.Profile''),
      (''GET /debug/pprof/symbol'', Endpoint ''pprof.Symbol''), (''GET /debug/pprof/trace'', Endpoint ''pprof.Trace'')] []"

text \<open>The admin routes register without a conflict, a profile is served by its own handler and not by
  the index of its directory, and none of them is answered on a public listener.\<close>

lemma admin_routes:
  "map_option (\<lambda>t. mux_match t ''GET'' ''/readyz'') AdminHandler = Some (Some (Endpoint ''readyz'', []))"
  "map_option (\<lambda>t. mux_match t ''GET'' ''/debug/pprof/profile'') AdminHandler = Some (Some (Endpoint ''pprof.Profile'', []))"
  "map_option (\<lambda>t. mux_match t ''GET'' ''/debug/pprof/heap'') AdminHandler = Some (Some (Endpoint ''pprof.Index'', []))"
  "map_option (\<lambda>t. mux_match t ''POST'' ''/metrics'') AdminHandler = Some None"
  by code_simp+

lemma admin_not_public:
  assumes "rt \<in> {cart_Routes, order_Routes, kv_Routes, warehouse_Routes, cca_Routes, identity_Routes, notification_Routes, product_Routes}"
    and "path \<in> {''/metrics'', ''/readyz'', ''/debug/pprof/profile''}"
  shows "dispatch rt ''GET'' path = Some (Serve Unmatched [])"
proof -
  have "\<forall>rt \<in> set [cart_Routes, order_Routes, kv_Routes, warehouse_Routes, cca_Routes, identity_Routes, notification_Routes, product_Routes].
      \<forall>path \<in> set [''/metrics'', ''/readyz'', ''/debug/pprof/profile'']. dispatch rt ''GET'' path = Some (Serve Unmatched [])"
    by code_simp
  with assms show ?thesis by auto
qed

text \<open>The addresses the services probe each other at are the probe routes of their targets.\<close>

lemma probes_are_served:
  "dispatch kv_Routes ''GET'' ''/health'' = Some (Serve ProbeOK [])"
  "dispatch product_Routes ''GET'' ''/product/health'' = Some (Serve ProbeOK [])"
  "dispatch warehouse_Routes ''GET'' ''/warehouse/health'' = Some (Serve ProbeOK [])"
  "dispatch cca_Routes ''GET'' ''/credit-card-authorizer/health'' = Some (Serve ProbeOK [])"
  "dispatch identity_Routes ''GET'' ''/identity/health'' = Some (Serve ProbeOK [])"
  "dispatch cart_Routes ''GET'' ''/shopping-cart/health'' = Some (Serve ProbeOK [])"
  "dispatch order_Routes ''GET'' ''/orders/health'' = Some (Serve ProbeOK [])"
  "dispatch notification_Routes ''GET'' ''/notifications/health'' = Some (Serve ProbeOK [])"
  by code_simp+


end
