(* ===== verification/Programs.thy ===== *)
theory Programs
  imports Gateway Identity_Sessions Redis Serving
begin

text \<open>
  What the programs under \<^verbatim>\<open>src/cmd\<close> put together before they serve: the settings they read, the
  dependencies they refuse to start without, and the checks their readiness consists of. A program is
  a function of its environment and of what it finds when it dials its dependencies.
\<close>

section \<open>Settings of Redis\<close>

record redis_Config =
  rc_Addr :: string
  rc_Password :: string
  rc_DB :: int
  rc_PoolSize :: int
  rc_MinIdleConns :: int
  rc_DialTimeout :: int
  rc_ReadTimeout :: int
  rc_WriteTimeout :: int
  rc_DialAttempts :: int
  rc_DialBackoff :: int

definition redisx_ConfigFromEnv :: "(string \<Rightarrow> int option) \<Rightarrow> env \<Rightarrow> redis_Config" where
  "redisx_ConfigFromEnv ParseDuration env =
     \<lparr>rc_Addr = env_String env ''REDIS_ADDR'' ''localhost:6379'', rc_Password = env_String env ''REDIS_PASSWORD'' '''',
      rc_DB = env_Int env ''REDIS_DB'' 0, rc_PoolSize = env_Int env ''REDIS_POOL_SIZE'' 64,
      rc_MinIdleConns = env_Int env ''REDIS_MIN_IDLE_CONNS'' 8,
      rc_DialTimeout = env_Millis ParseDuration env ''REDIS_DIAL_TIMEOUT_MS'' 2000000000,
      rc_ReadTimeout = env_Millis ParseDuration env ''REDIS_READ_TIMEOUT_MS'' 200000000,
      rc_WriteTimeout = env_Millis ParseDuration env ''REDIS_WRITE_TIMEOUT_MS'' 200000000,
      rc_DialAttempts = env_Int env ''REDIS_DIAL_ATTEMPTS'' 30,
      rc_DialBackoff = env_Millis ParseDuration env ''REDIS_DIAL_BACKOFF_MS'' 1000000000\<rparr>"

definition redisx_Probe :: "bool \<Rightarrow> go_error option \<Rightarrow> go_error option" where
  "redisx_Probe client ping = (if \<not> client then Some (Sentinel ''redisx: no client'') else ping)"

definition dial_redis :: "(string \<Rightarrow> int option) \<Rightarrow> env \<Rightarrow> (nat \<Rightarrow> dial_attempt) \<Rightarrow> go_error option" where
  "dial_redis ParseDuration env dial = redisx_Connect (rc_DialAttempts (redisx_ConfigFromEnv ParseDuration env)) dial"

section \<open>The checks of the services\<close>

definition optional_check :: "string \<Rightarrow> Check" where
  "optional_check name = \<lparr>hc_Name = name, hc_Optional = True\<rparr>"

definition cartsvc_checks :: "Check list" where
  "cartsvc_checks = map optional_check [''cart-db'', ''product-service'', ''warehouse-service'', ''credit-card-authorizer'', ''rabbitmq'']"

definition gatewaysvc_checks :: "bool \<Rightarrow> Check list" where
  "gatewaysvc_checks redis = map optional_check
     ([''identity-service'', ''product-service'', ''shopping-cart-service'', ''order-service'', ''notification-service''] @
      (if redis then [''redis''] else []))"

definition identitysvc_checks :: "Check list" where
  "identitysvc_checks = map optional_check [''core-db'', ''redis'']"

definition ordersvc_checks :: "Check list" where
  "ordersvc_checks = map optional_check [''core-db'', ''rabbitmq'']"

definition productsvc_checks :: "bool \<Rightarrow> Check list" where
  "productsvc_checks redis = map optional_check ([''product-db''] @ (if redis then [''redis''] else []))"

definition warehousesvc_checks :: "Check list" where
  "warehousesvc_checks = [optional_check ''rabbitmq'']"

definition notificationsvc_checks :: "Check list" where
  "notificationsvc_checks = map optional_check [''redis'', ''rabbitmq'']"

definition ccasvc_checks :: "Check list" where
  "ccasvc_checks = []"

definition peerChecks :: "Config \<Rightarrow> Check list" where
  "peerChecks cfg = map optional_check (c_Peers cfg)"

section \<open>The gateway and the identity service\<close>

definition Getenv :: "env \<Rightarrow> string \<Rightarrow> string" where
  "Getenv env key = (case env key of None \<Rightarrow> '''' | Some v \<Rightarrow> v)"

text \<open>\<open>gatewaysvc\<close>: the configuration it serves with, or the error it exits on. Without Redis it serves with
  neither a rate limit nor a denylist.\<close>

definition gatewaysvc_main :: "(string \<Rightarrow> int option) \<Rightarrow> (string \<Rightarrow> bool) \<Rightarrow> (string \<Rightarrow> bool res) \<Rightarrow> (nat \<Rightarrow> dial_attempt) \<Rightarrow> env
    \<Rightarrow> (gw_Config \<times> Check list) res" where
  "gatewaysvc_main ParseDuration parses check dial env =
     (case NewVerifier (Getenv env ''JWT_SECRET'') (env_String env ''JWT_ISSUER'' ''quorum-market'') of
        Inl err \<Rightarrow> Inl err
      | Inr verifier \<Rightarrow>
          (let redis = env_String env ''REDIS_ADDR'' '''' \<noteq> '''' \<and> dial_redis ParseDuration env dial = None;
               limiter = (if redis then Some (limiter_New True \<lparr>ro_Scope = ''gateway'', ro_Prefix = ''ratelimit:gateway:'',
                            ro_Limit = env_Int env ''RATE_LIMIT'' 600,
                            ro_Window = env_Millis ParseDuration env ''RATE_LIMIT_WINDOW_MS'' 60000000000, ro_FailOpen = None\<rparr>) else None);
               v = (if redis then WithRevocationCheck check verifier else verifier);
               routes =
                 [\<lparr>rt_Prefix = ''/identity'', rt_Upstream = env_String env ''IDENTITY_SERVICE_URL'' ''http://localhost:8085'', rt_Public = True, rt_Name = ''identity''\<rparr>,
                  \<lparr>rt_Prefix = ''/product'', rt_Upstream = env_String env ''PRODUCT_SERVICE_URL'' ''http://localhost:8081'', rt_Public = True, rt_Name = ''product''\<rparr>,
                  \<lparr>rt_Prefix = ''/shopping-cart'', rt_Upstream = env_String env ''CART_SERVICE_URL'' ''http://localhost:8082'', rt_Public = False, rt_Name = ''shopping-cart''\<rparr>,
                  \<lparr>rt_Prefix = ''/orders'', rt_Upstream = env_String env ''ORDER_SERVICE_URL'' ''http://localhost:8086'', rt_Public = False, rt_Name = ''orders''\<rparr>,
                  \<lparr>rt_Prefix = ''/notifications'', rt_Upstream = env_String env ''NOTIFICATION_SERVICE_URL'' ''http://localhost:8087'', rt_Public = False, rt_Name = ''notifications''\<rparr>]
           in case gateway_New parses
                     \<lparr>gc_Routes = routes, gc_Verifier = Some v, gc_Limiter = limiter,
                      gc_AnonymousLimitFactor = env_Int env ''ANONYMOUS_LIMIT_FACTOR'' 1,
                      gc_UpstreamTimeout = env_Millis ParseDuration env ''UPSTREAM_TIMEOUT_MS'' 30000000000\<rparr> of
                Inl err \<Rightarrow> Inl err
              | Inr cfg \<Rightarrow> Inr (cfg, gatewaysvc_checks redis)))"

text \<open>\<open>identitysvc\<close>: the signer and the verifier it serves with. Redis is required.\<close>

definition identitysvc_main :: "(string \<Rightarrow> int option) \<Rightarrow> (string \<Rightarrow> bool res) \<Rightarrow> (nat \<Rightarrow> dial_attempt) \<Rightarrow> env
    \<Rightarrow> (Signer \<times> Verifier \<times> Check list) res" where
  "identitysvc_main ParseDuration check dial env =
     (let secret = Getenv env ''JWT_SECRET''; issuer = env_String env ''JWT_ISSUER'' ''quorum-market''
      in case NewSigner secret issuer (env_Millis ParseDuration env ''ACCESS_TOKEN_TTL_MS'' 900000000000) of
           Inl err \<Rightarrow> Inl err
         | Inr signer \<Rightarrow>
             (case NewVerifier secret issuer of
                Inl err \<Rightarrow> Inl err
              | Inr verifier \<Rightarrow>
                  (case dial_redis ParseDuration env dial of
                     Some err \<Rightarrow> Inl err
                   | None \<Rightarrow> Inr (signer, WithRevocationCheck check verifier, identitysvc_checks))))"

text \<open>\<open>kvnode\<close>: a node with a configuration that can never meet its quorum does not start.\<close>

definition kvnode_main :: "(string \<Rightarrow> int option) \<Rightarrow> string res \<Rightarrow> env \<Rightarrow> (Config \<times> Store \<times> Check list) res" where
  "kvnode_main ParseDuration hostname env =
     (let cfg = kv_ConfigFromEnv ParseDuration hostname env
      in case Validate cfg of Some err \<Rightarrow> Inl err | None \<Rightarrow> Inr (cfg, NewStore (c_NodeID cfg), peerChecks cfg))"

section \<open>An outage of a dependency does not empty the fleet\<close>

definition program_checks :: "bool \<Rightarrow> Config \<Rightarrow> Check list list" where
  "program_checks redis cfg =
     [cartsvc_checks, gatewaysvc_checks redis, identitysvc_checks, ordersvc_checks, productsvc_checks redis, warehousesvc_checks,
      notificationsvc_checks, ccasvc_checks, peerChecks cfg]"

lemma program_checks_optional: "checks \<in> set (program_checks redis cfg) \<Longrightarrow> c \<in> set checks \<Longrightarrow> hc_Optional c"
  by (auto simp: program_checks_def cartsvc_checks_def gatewaysvc_checks_def identitysvc_checks_def ordersvc_checks_def
      productsvc_checks_def warehousesvc_checks_def notificationsvc_checks_def ccasvc_checks_def peerChecks_def optional_check_def
      split: if_splits)

definition probed :: "Check list \<Rightarrow> (Check \<Rightarrow> go_error option) \<Rightarrow> (string \<times> CheckResult) list \<Rightarrow> bool" where
  "probed checks err received \<longleftrightarrow> mset received = mset (map (\<lambda>c. probe_outcome c (err c)) checks)"

lemma evaluate_program:
  assumes prog: "checks \<in> set (program_checks redis cfg)" and answers: "probed checks err received"
  shows "rp_Overall (evaluate received) = (if \<exists>c \<in> set checks. err c \<noteq> None then StatusDegraded else StatusUp)"
proof -
  have "set received = (\<lambda>(c, e). probe_outcome c e) ` (\<lambda>c. (c, err c)) ` set checks"
    using mset_eq_setD [OF answers [unfolded probed_def]] by (simp add: image_image)
  then have "rp_Overall (evaluate received) = overall ((\<lambda>(c, e). probe_outcome c e) ` (\<lambda>c. (c, err c)) ` set checks)"
    by (simp only: evaluate_overall)
  also have "\<dots> = (if \<exists>c \<in> set checks. err c \<noteq> None then StatusDegraded else StatusUp)"
    using program_checks_optional [OF prog] by (simp add: overall_probes)
  finally show ?thesis .
qed

text \<open>The life of a readiness endpoint: reports one after the other, reports whose probes began earlier and
  which store their result over a newer one, since the lock is not held while the probes run, and the
  beginning of a shutdown.\<close>

inductive health_step :: "Check list \<Rightarrow> Health \<Rightarrow> Health \<Rightarrow> bool" for checks where
  report: "probed checks err received \<Longrightarrow> health_step checks h (snd (health_Report now later received h))"
| overtaken: "probed checks err received \<Longrightarrow> health_step checks h (h\<lparr>h_cached := evaluate received, h_cachedAt := later\<rparr>)"
| drain: "health_step checks h (Drain h)"

interpretation readiness: invariant_system "\<lambda>h. h = NewHealth" "health_step checks"
  "\<lambda>h. h_ttl h = 2000000000 \<and> (rp_Overall (h_cached h) = '''' \<or> (\<exists>err received. probed checks err received \<and> h_cached h = evaluate received))"
  for checks
proof unfold_locales
  fix h h'
  assume inv: "h_ttl h = 2000000000 \<and> (rp_Overall (h_cached h) = '''' \<or> (\<exists>err received. probed checks err received \<and> h_cached h = evaluate received))"
    and "health_step checks h h'"
  from this(2) show "h_ttl h' = 2000000000 \<and> (rp_Overall (h_cached h') = '''' \<or> (\<exists>err received. probed checks err received \<and> h_cached h' = evaluate received))"
    by cases (use inv in \<open>auto simp: health_Report_def Drain_def Let_def\<close>)
qed (simp add: NewHealth_def)

text \<open>
  C31. No outage of a shared dependency takes an instance out of rotation. Whatever the probes of a
  service have found since it started, in whatever order their answers arrive, and whether the endpoint
  evaluates them anew or answers from its cache, an instance that is not shutting down answers its readiness
  check with 200; and when the cached result is at least two seconds old it reports that it is degraded
  exactly when a probe failed just now.
\<close>

theorem fleet_stays_ready:
  assumes prog: "checks \<in> set (program_checks redis cfg)" and run: "(health_step checks)\<^sup>*\<^sup>* NewHealth h"
    and up: "\<not> h_draining h" and answers: "probed checks err received"
  shows "readyz (fst (health_Report now later received h)) = StatusOK \<and>
         (h_cachedAt h + 2000000000 \<le> now \<longrightarrow>
            (rp_Overall (fst (health_Report now later received h)) = StatusDegraded \<longleftrightarrow> (\<exists>c \<in> set checks. err c \<noteq> None)))"
proof -
  have h: "h_ttl h = 2000000000" "rp_Overall (h_cached h) = '''' \<or> (\<exists>err received. probed checks err received \<and> h_cached h = evaluate received)"
    using readiness.reachable_inv [OF refl run] by simp_all
  have "rp_Overall (fst (health_Report now later received h)) \<noteq> StatusDown"
    using h(2) up evaluate_program [OF prog] answers by (auto simp: health_Report_def Let_def split: if_splits)
  with h(1) up show ?thesis by (auto simp: readyz_def health_Report_def Let_def evaluate_program [OF prog answers])
qed

theorem fleet_stays_ready_witness:
  "let received = map (\<lambda>c. probe_outcome c (Some (Sentinel ''down''))) (rev cartsvc_checks);
       h = snd (health_Report 0 1 received NewHealth)
   in readyz (fst (health_Report 2 3 received h)) = StatusOK \<and>
      rp_Overall (fst (health_Report 2000000001 2000000002 received h)) = StatusDegraded"
proof -
  let ?received = "map (\<lambda>c. probe_outcome c (Some (Sentinel ''down''))) (rev cartsvc_checks)" and ?cfg = "kv_ConfigFromEnv (\<lambda>s. None) (Inr ''n'') Map.empty"
  let ?h = "snd (health_Report 0 1 ?received NewHealth)"
  have prog: "cartsvc_checks \<in> set (program_checks True ?cfg)" by (simp add: program_checks_def)
  have pr: "probed cartsvc_checks (\<lambda>c. Some (Sentinel ''down'')) ?received" by (simp add: probed_def)
  have run: "(health_step cartsvc_checks)\<^sup>*\<^sup>* NewHealth ?h" by (rule r_into_rtranclp, rule health_step.report [OF pr])
  have h: "\<not> h_draining ?h" "h_cachedAt ?h = 1" by (simp_all add: health_Report_def NewHealth_def Let_def)
  have "cartsvc_checks \<noteq> []" by (simp add: cartsvc_checks_def)
  with fleet_stays_ready [OF prog run h(1) pr, of 2 3] fleet_stays_ready [OF prog run h(1) pr, of 2000000001 2000000002] h(2)
  show ?thesis by (auto simp: Let_def)
qed

section \<open>A token of the identity service opens the gateway\<close>

lemma gatewaysvc_verifier:
  assumes "gatewaysvc_main ParseDuration parses check dial env = Inr (g, checks)"
  shows "\<exists>v. gc_Verifier g = Some v \<and> vf_secret v = Getenv env ''JWT_SECRET'' \<and> vf_issuer v = env_String env ''JWT_ISSUER'' ''quorum-market'' \<and>
     (if env_String env ''REDIS_ADDR'' '''' \<noteq> '''' \<and> dial_redis ParseDuration env dial = None
      then vf_revoked v = Some check \<and> gc_Limiter g \<noteq> None else vf_revoked v = None \<and> gc_Limiter g = None)"
  using assms
  by (auto simp: gatewaysvc_main_def NewVerifier_def gateway_New_def WithRevocationCheck_def Let_def split: if_splits sum.splits)

lemma identitysvc_signer:
  assumes "identitysvc_main ParseDuration check dial env = Inr (signer, verifier, checks)"
  shows "sg_secret signer = Getenv env ''JWT_SECRET'' \<and> sg_issuer signer = env_String env ''JWT_ISSUER'' ''quorum-market''"
  using assms by (auto simp: identitysvc_main_def NewSigner_def Let_def split: if_splits sum.splits option.splits)

text \<open>
  C11. Two services that were started apart agree on who is logged in. When the identity service and
  the gateway start with the same secret and issuer in their environments, a token the one issues
  is accepted by the other until it expires, unless the denylist the gateway was given names its session.
\<close>

theorem issued_token_admitted:
  assumes L: "jwt_ok L"
    and id: "identitysvc_main ParseDuration check1 dial1 env1 = Inr (signer, verifier, checks1)"
    and gw: "gatewaysvc_main ParseDuration parses check2 dial2 env2 = Inr (g, checks2)"
    and same: "Getenv env1 ''JWT_SECRET'' = Getenv env2 ''JWT_SECRET''"
      "env_String env1 ''JWT_ISSUER'' ''quorum-market'' = env_String env2 ''JWT_ISSUER'' ''quorum-market''"
    and tok: "signer_Issue L signer t0 customer email roles session = Inr (token, claims)" and "customer \<noteq> ''''"
    and "BearerToken (header_Get (rq_Header r) ''Authorization'') = Some token"
    and "t0 \<le> now" "now < NewNumericDate (t0 + sg_ttl signer)" and live: "check2 session \<noteq> Inr True"
  shows "authenticate L g now r = Inr claims \<and> cl_Subject claims = customer"
proof -
  obtain v where v: "gc_Verifier g = Some v" "vf_secret v = sg_secret signer" "vf_issuer v = sg_issuer signer"
      "vf_revoked v = None \<or> vf_revoked v = Some check2"
    using gatewaysvc_verifier [OF gw] identitysvc_signer [OF id] same by (auto split: if_splits)
  have "Verify L v now token = Inr claims \<and> cl_Subject claims = customer"
    by (rule Issue_Verify [OF L tok]) (use v assms(7,9,10) live in auto)
  with v(1) assms(8) show ?thesis by (simp add: authenticate_def)
qed

text \<open>
  Without Redis at its start the gateway serves all the same, and then logging out has no effect: a
  token is accepted until it expires whatever the denylist says, and no rate is limited.
\<close>

lemma logout_ignored_without_redis:
  assumes L: "jwt_ok L"
    and gw: "gatewaysvc_main ParseDuration parses check dial env = Inr (g, checks)"
    and down: "env_String env ''REDIS_ADDR'' '''' = '''' \<or> dial_redis ParseDuration env dial \<noteq> None"
    and tok: "signer_Issue L signer t0 customer email roles session = Inr (token, claims)" "customer \<noteq> ''''"
      "sg_secret signer = Getenv env ''JWT_SECRET''" "sg_issuer signer = env_String env ''JWT_ISSUER'' ''quorum-market''"
    and "BearerToken (header_Get (rq_Header r) ''Authorization'') = Some token"
    and "t0 \<le> now" "now < NewNumericDate (t0 + sg_ttl signer)"
  shows "authenticate L g now r = Inr claims \<and> gc_Limiter g = None"
proof -
  obtain v where v: "gc_Verifier g = Some v" "vf_secret v = sg_secret signer" "vf_issuer v = sg_issuer signer" "vf_revoked v = None"
      "gc_Limiter g = None"
    using gatewaysvc_verifier [OF gw] down tok(3,4) by (auto split: if_splits)
  have "Verify L v now token = Inr claims \<and> cl_Subject claims = customer"
    by (rule Issue_Verify [OF L tok(1)]) (use v tok(2) assms(9,10) in auto)
  with v(1,5) assms(8) show ?thesis by (simp add: authenticate_def)
qed


text \<open>One environment for both, with a Redis that answers.\<close>

definition shop_env :: env where
  "shop_env = [''JWT_SECRET'' \<mapsto> demo_secret, ''JWT_ISSUER'' \<mapsto> ''shop'', ''REDIS_ADDR'' \<mapsto> ''redis:6379'']"

definition redis_up :: "nat \<Rightarrow> dial_attempt" where
  "redis_up i = \<lparr>da_ctx = None, da_ping = None, da_wait = None\<rparr>"

theorem issued_token_admitted_witness:
  "\<exists>signer verifier checks1 g checks2.
     identitysvc_main (\<lambda>s. None) (\<lambda>s. Inr False) redis_up shop_env = Inr (signer, verifier, checks1) \<and>
     gatewaysvc_main (\<lambda>s. None) (\<lambda>u. True) (\<lambda>s. Inr False) redis_up shop_env = Inr (g, checks2) \<and>
     signer_Issue demo_jwt signer 0 ''cust-1'' ''a@b.c'' [''customer''] ''sess-1'' = Inr (''tok'', demo_claims) \<and>
     authenticate demo_jwt g 5 (gw_request ''GET'' ''/orders'' ''Bearer tok'') = Inr demo_claims"
proof -
  have secret: "length demo_secret = 32" by (simp add: demo_secret_def)
  have up: "dial_redis (\<lambda>s. None) shop_env redis_up = None"
    by (simp add: dial_redis_def redisx_ConfigFromEnv_def redisx_Connect_def redis_up_def shop_env_def env_Int_def env_parsed_def eval_nat_numeral)
  have env: "Getenv shop_env ''JWT_SECRET'' = demo_secret" "env_String shop_env ''JWT_ISSUER'' ''quorum-market'' = ''shop''"
    "env_Millis (\<lambda>s. None) shop_env ''ACCESS_TOKEN_TTL_MS'' 900000000000 = 900000000000"
    by (simp_all add: Getenv_def env_String_def env_Millis_def env_parsed_def shop_env_def)
  obtain verifier checks1 where id: "identitysvc_main (\<lambda>s. None) (\<lambda>s. Inr False) redis_up shop_env = Inr (demo_signer, verifier, checks1)"
    by (simp add: identitysvc_main_def env up NewSigner_def NewVerifier_def MinSecretLength_def secret demo_signer_def Let_def)
  obtain g checks2 where gw: "gatewaysvc_main (\<lambda>s. None) (\<lambda>u. True) (\<lambda>s. Inr False) redis_up shop_env = Inr (g, checks2)"
    by (simp add: gatewaysvc_main_def env up NewVerifier_def MinSecretLength_def secret gateway_New_def Let_def)
  have bearer: "BearerToken (header_Get (rq_Header (gw_request ''GET'' ''/orders'' ''Bearer tok'')) ''Authorization'') = Some ''tok''"
    by (simp add: gw_request_def header_Get_def bearer_tok)
  have "authenticate demo_jwt g 5 (gw_request ''GET'' ''/orders'' ''Bearer tok'') = Inr demo_claims"
    using issued_token_admitted [OF demo_jwt_ok id gw refl refl demo_issue _ bearer]
    by (simp add: demo_signer_def NewNumericDate_def)
  with id gw demo_issue show ?thesis by blast
qed


section \<open>A node that starts can meet its quorum\<close>

text \<open>
  C22. A database node that starts is well formed, whatever is in its environment. Its mode is one of the
  two there are, both quorums are at least one and, unless it is a follower, no larger than the
  cluster; its store is empty and every peer has a readiness check of its own; any other
  configuration is an error and nothing is started.
\<close>

theorem kvnode_well_formed:
  assumes "kvnode_main ParseDuration hostname env = Inr (cfg, store, checks)"
  shows "cfg = kv_ConfigFromEnv ParseDuration hostname env \<and> c_Mode cfg \<in> {ModeLeaderFollower, ModeLeaderless} \<and>
    1 \<le> c_WriteQuorum cfg \<and> 1 \<le> c_ReadQuorum cfg \<and>
    (c_Mode cfg = ModeLeaderless \<or> c_Role cfg = ''leader'' \<longrightarrow> c_WriteQuorum cfg \<le> ClusterSize cfg \<and> c_ReadQuorum cfg \<le> ClusterSize cfg) \<and>
    store_wf store \<and> dom (s_data store) = {} \<and> map hc_Name checks = c_Peers cfg"
proof -
  have cfg: "cfg = kv_ConfigFromEnv ParseDuration hostname env" and v: "Validate cfg = None"
    and rest: "store = NewStore (c_NodeID cfg)" "checks = peerChecks cfg"
    using assms by (auto simp: kvnode_main_def Let_def split: option.splits)
  have "c_Mode cfg \<in> {ModeLeaderFollower, ModeLeaderless}" "1 \<le> c_WriteQuorum cfg" "1 \<le> c_ReadQuorum cfg"
    "c_Mode cfg = ModeLeaderless \<or> c_Role cfg = ''leader'' \<longrightarrow> c_WriteQuorum cfg \<le> ClusterSize cfg \<and> c_ReadQuorum cfg \<le> ClusterSize cfg"
    using v by (auto simp: Validate_def ModeLeaderFollower_def ModeLeaderless_def split: if_splits)
  moreover have "store_wf store" "dom (s_data store) = {}" using rest(1) NewStore_wf by (simp_all add: NewStore_def)
  moreover have "map hc_Name checks = c_Peers cfg" using rest(2) by (simp add: peerChecks_def optional_check_def comp_def)
  ultimately show ?thesis using cfg by blast
qed

theorem kvnode_well_formed_witness:
  "\<exists>cfg store checks. kvnode_main (\<lambda>s. None) (Inr ''n1'') Map.empty = Inr (cfg, store, checks) \<and> 1 \<le> c_WriteQuorum cfg \<and> store_wf store"
proof -
  have "case kvnode_main (\<lambda>s. None) (Inr ''n1'') (\<lambda>k. None) of Inl err \<Rightarrow> False | Inr x \<Rightarrow> True"
    by (simp add: kvnode_main_def kv_ConfigFromEnv_def env_String_def env_List_def env_Int_def env_parsed_def Validate_def ClusterSize_def
        ModeLeaderFollower_def ModeLeaderless_def Let_def)
  then obtain cfg store checks where run: "kvnode_main (\<lambda>s. None) (Inr ''n1'') Map.empty = Inr (cfg, store, checks)"
    by (auto split: sum.splits)
  from kvnode_well_formed [OF run] run show ?thesis by blast
qed


end
