(* ===== verification/Rmq_Worker.thy ===== *)
theory Rmq_Worker
  imports Rmq_Topology Rmq_Conn Rmq_Config
begin

text \<open>
  The rest of \<^verbatim>\<open>src/internal/rmq/consumer.go\<close> and \<^verbatim>\<open>src/internal/rmq/publisher.go\<close>: how a worker gets its
  subscription, loses it and comes back, and what a publisher does before its first message. What the
  broker answers, what a \<open>select\<close> sees next and whether the context is done are arguments.
\<close>

section \<open>Consumers and subscribers\<close>

datatype topology = WorkQueue string | EventExchange string | EventQueue string string "string list"

definition run_declare :: "'b amqp \<Rightarrow> topology \<Rightarrow> 'b \<Rightarrow> go_error option \<times> 'b" where
  "run_declare A t b =
     (case t of
        WorkQueue queue \<Rightarrow> DeclareTopology A queue b
      | EventExchange exchange \<Rightarrow> DeclareTopic A exchange b
      | EventQueue exchange queue patterns \<Rightarrow> DeclareSubscription A exchange queue patterns b)"

record subscriber =
  su_queue :: string
  su_declare :: topology
  su_consumer :: Consumer

definition rmq_NewConsumer :: "rmq_Config \<Rightarrow> subscriber" where
  "rmq_NewConsumer cfg =
     \<lparr>su_queue = rc_Queue cfg, su_declare = WorkQueue (rc_Queue cfg), su_consumer = NewConsumer (rc_Workers cfg) (rc_Prefetch cfg)\<rparr>"

definition NewSubscriber :: "rmq_Config \<Rightarrow> string \<Rightarrow> string \<Rightarrow> string list \<Rightarrow> subscriber" where
  "NewSubscriber cfg exchange queue patterns =
     (rmq_NewConsumer cfg)\<lparr>su_queue := queue, su_declare := EventQueue exchange queue patterns\<rparr>"

definition consumer_tag :: "string \<Rightarrow> int \<Rightarrow> string" where
  "consumer_tag queue n = queue @ ''-worker-'' @ itoa n"

section \<open>One subscription\<close>

text \<open>What the \<open>select\<close> of \<open>subscribe\<close> sees; a subscription that has not ended is waiting.\<close>

datatype sub_event = CtxDone | ChannelClosed "go_error option" | StreamEnded | Delivered delivery

datatype sub_result = Waiting | Ended "go_error option"

fun deliver_loop :: "(string \<Rightarrow> 's \<Rightarrow> go_error option \<times> 's) \<Rightarrow> sub_event list \<Rightarrow> 's \<times> Consumer \<times> (delivery \<times> settlement) list
    \<Rightarrow> sub_result \<times> 's \<times> Consumer \<times> (delivery \<times> settlement) list" where
  "deliver_loop h [] st = (Waiting, st)"
| "deliver_loop h (CtxDone # es) st = (Ended None, st)"
| "deliver_loop h (ChannelClosed reason # es) st =
     (Ended (Some (Wrapped ''channel closed: %w'' (case reason of None \<Rightarrow> [] | Some e \<Rightarrow> [e]))), st)"
| "deliver_loop h (StreamEnded # es) st = (Ended (Some (Sentinel ''delivery stream ended'')), st)"
| "deliver_loop h (Delivered d # es) (s, c, settled) =
     (case consumer_handle h d s c of (a, s', c') \<Rightarrow> deliver_loop h es (s', c', settled @ [(d, a)]))"

text \<open>One round of a worker: whether the context is done before it, after it or during the wait, and what
  the broker answers.\<close>

record sub_round =
  rn_ctxBefore :: bool
  rn_channel :: "nat res"
  rn_qos :: "go_error option"
  rn_consume :: "go_error option"
  rn_events :: "sub_event list"
  rn_ctxAfter :: bool
  rn_ctxWait :: bool

record ('b, 's) worker_state =
  wk_broker :: 'b
  wk_state :: 's
  wk_consumer :: Consumer
  wk_settled :: "(delivery \<times> settlement) list"
  wk_channels :: "nat list"

text \<open>\<open>subscribe\<close>: the deferred \<open>Close\<close> runs on every return, so a channel is held only while waiting.\<close>

definition subscribe :: "'b amqp \<Rightarrow> topology \<Rightarrow> (string \<Rightarrow> 's \<Rightarrow> go_error option \<times> 's) \<Rightarrow> sub_round \<Rightarrow> ('b, 's) worker_state
    \<Rightarrow> sub_result \<times> ('b, 's) worker_state" where
  "subscribe A t h r w =
     (case rn_channel r of
        Inl err \<Rightarrow> (Ended (Some (Wrapped ''opening channel: %w'' [err])), w)
      | Inr ch \<Rightarrow>
          (case run_declare A t (wk_broker w) of
             (Some err, b') \<Rightarrow> (Ended (Some err), w\<lparr>wk_broker := b'\<rparr>)
           | (None, b') \<Rightarrow>
               (case rn_qos r of
                  Some err \<Rightarrow> (Ended (Some (Wrapped ''setting qos: %w'' [err])), w\<lparr>wk_broker := b'\<rparr>)
                | None \<Rightarrow>
                    (case rn_consume r of
                       Some err \<Rightarrow> (Ended (Some (Wrapped ''subscribing: %w'' [err])), w\<lparr>wk_broker := b'\<rparr>)
                     | None \<Rightarrow>
                         (case deliver_loop h (rn_events r) (wk_state w, wk_consumer w, wk_settled w) of
                            (res, s', c', settled') \<Rightarrow>
                              (res, w\<lparr>wk_broker := b', wk_state := s', wk_consumer := c', wk_settled := settled',
                                      wk_channels := (if res = Waiting then ch # wk_channels w else wk_channels w)\<rparr>))))))"

section \<open>A worker\<close>

definition maxBackoff :: int where "maxBackoff = 10000000000"

text \<open>\<open>worker\<close>: whether it returned, how long it waited after each subscription it lost, and the state.\<close>

fun worker :: "'b amqp \<Rightarrow> topology \<Rightarrow> (string \<Rightarrow> 's \<Rightarrow> go_error option \<times> 's) \<Rightarrow> sub_round list \<Rightarrow> int \<Rightarrow> ('b, 's) worker_state
    \<Rightarrow> bool \<times> int list \<times> ('b, 's) worker_state" where
  "worker A t h [] backoff w = (False, [], w)"
| "worker A t h (r # rs) backoff w =
     (if rn_ctxBefore r then (True, [], w)
      else (case subscribe A t h r w of
              (Waiting, w') \<Rightarrow> (False, [], w')
            | (Ended err, w') \<Rightarrow>
                (if rn_ctxAfter r then (True, [], w')
                 else if rn_ctxWait r then (True, [], w')
                 else (let b2 = backoff * 2;
                           (returned, waits, w'') = worker A t h rs (if b2 > maxBackoff then maxBackoff else b2) w'
                       in (returned, backoff # waits, w'')))))"

definition run_worker :: "'b amqp \<Rightarrow> subscriber \<Rightarrow> (string \<Rightarrow> 's \<Rightarrow> go_error option \<times> 's) \<Rightarrow> sub_round list \<Rightarrow> 'b \<Rightarrow> 's
    \<Rightarrow> bool \<times> int list \<times> ('b, 's) worker_state" where
  "run_worker A su h rs b s = worker A (su_declare su) h rs 500000000
     \<lparr>wk_broker = b, wk_state = s, wk_consumer = su_consumer su, wk_settled = [], wk_channels = []\<rparr>"

definition cancelled :: "sub_round \<Rightarrow> bool" where
  "cancelled r \<longleftrightarrow> rn_ctxBefore r \<or> rn_ctxAfter r \<or> rn_ctxWait r"

lemma subscribe_channels:
  "subscribe A t h r w = (res, w') \<Longrightarrow> length (wk_channels w') = length (wk_channels w) + (if res = Waiting then 1 else 0)"
  by (auto simp: subscribe_def split: sum.splits prod.splits option.splits if_splits)

lemma backoff_doubles: "0 < b \<Longrightarrow> b \<le> m \<Longrightarrow> min (min (b * 2) m * 2 ^ k) m = min (b * 2 ^ Suc k) (m :: int)"
proof (cases "b * 2 \<le> m")
  case False
  assume b: "0 < b" "b \<le> m"
  then have "m * 1 \<le> m * 2 ^ k" by (intro mult_left_mono) simp_all
  moreover have "b * 2 * 1 \<le> b * 2 * 2 ^ k" using b by (intro mult_left_mono) simp_all
  ultimately show ?thesis using False by (simp add: min_def)
qed (simp add: ac_simps)

lemma worker_run:
  assumes "0 < backoff" "backoff \<le> maxBackoff" "\<forall>r \<in> set rs. \<not> cancelled r" and "worker A t h rs backoff w = (returned, waits, w')"
  shows "\<not> returned \<and> waits = map (\<lambda>k. min (backoff * 2 ^ k) maxBackoff) [0..<length waits] \<and> length waits \<le> length rs \<and>
    length (wk_channels w') = length (wk_channels w) + (if length waits = length rs then 0 else 1)"
  using assms
proof (induction rs arbitrary: backoff w returned waits w')
  case (Cons r rs)
  obtain res w1 where sub: "subscribe A t h r w = (res, w1)" by force
  have live: "\<not> rn_ctxBefore r" "\<not> rn_ctxAfter r" "\<not> rn_ctxWait r" using Cons.prems(3) by (auto simp: cancelled_def)
  show ?case
  proof (cases res)
    case Waiting
    then show ?thesis using Cons.prems(4) sub live subscribe_channels [OF sub] by auto
  next
    case (Ended err)
    let ?b = "min (backoff * 2) maxBackoff"
    obtain waits' where rest: "worker A t h rs ?b w1 = (returned, waits', w')" and waits: "waits = backoff # waits'"
      using Cons.prems(4) sub live Ended by (auto simp: min_def Let_def split: prod.splits if_splits)
    have b: "0 < ?b" "?b \<le> maxBackoff" using Cons.prems(1,2) by (simp_all add: maxBackoff_def)
    have IH: "\<not> returned" "waits' = map (\<lambda>k. min (?b * 2 ^ k) maxBackoff) [0..<length waits']" "length waits' \<le> length rs"
        "length (wk_channels w') = length (wk_channels w1) + (if length waits' = length rs then 0 else 1)"
      using Cons.IH [OF b _ rest] Cons.prems(3) by auto
    have "map (\<lambda>k. min (?b * 2 ^ k) maxBackoff) [0..<n] = map (\<lambda>k. min (backoff * 2 ^ Suc k) maxBackoff) [0..<n]" for n
      using backoff_doubles [OF Cons.prems(1,2)] by simp
    from trans [OF IH(2) this] have "waits' = map (\<lambda>k. min (backoff * 2 ^ Suc k) maxBackoff) [0..<length waits']" .
    moreover have "map (\<lambda>k. min (backoff * 2 ^ k) maxBackoff) [0..<Suc n] =
        backoff # map (\<lambda>k. min (backoff * 2 ^ Suc k) maxBackoff) [0..<n]" for n
      using Cons.prems(2) by (simp add: upt_conv_Cons map_Suc_upt [symmetric] comp_def del: upt_Suc)
    ultimately have "waits = map (\<lambda>k. min (backoff * 2 ^ k) maxBackoff) [0..<length waits]" using waits by simp
    then show ?thesis using IH waits Ended subscribe_channels [OF sub] by auto
  qed
qed simp

text \<open>
  A worker never gives up its queue. However often the channel, the declarations or the stream
  fail, a worker whose context is not cancelled does not return: after each loss it tries again, having
  waited half a second, twice as long each time up to ten seconds, and it holds at most one channel, the
  one of the subscription it has.
\<close>

lemma worker_keeps_trying:
  assumes "\<forall>r \<in> set rs. \<not> cancelled r" and "run_worker A su h rs b s = (returned, waits, w)"
  shows "\<not> returned \<and> waits = map (\<lambda>k. min (500000000 * 2 ^ k) 10000000000) [0..<length waits] \<and>
    length (wk_channels w) = (if length waits = length rs then 0 else 1)"
  using worker_run [OF _ _ assms(1) assms(2) [unfolded run_worker_def]] by (auto simp: maxBackoff_def)

definition lost_round :: sub_round where
  "lost_round = \<lparr>rn_ctxBefore = False, rn_channel = Inl ErrClosed, rn_qos = None, rn_consume = None, rn_events = [],
     rn_ctxAfter = False, rn_ctxWait = False\<rparr>"

lemma worker_keeps_trying_witness:
  "\<exists>w. run_worker list_amqp (NewSubscriber (rmq_ConfigFromEnv (\<lambda>s. None) (\<lambda>k. None) ''orders_queue'') ''events'' ''q'' [''order.*''])
      (\<lambda>body (s :: nat). (None, s)) [lost_round, lost_round, lost_round\<lparr>rn_channel := Inr 4\<rparr>] [] 0 = (False, [500000000, 1000000000], w) \<and> length (wk_channels w) = 1"
proof -
  obtain returned waits w where run: "run_worker list_amqp (NewSubscriber (rmq_ConfigFromEnv (\<lambda>s. None) (\<lambda>k. None) ''orders_queue'') ''events'' ''q'' [''order.*''])
      (\<lambda>body (s :: nat). (None, s)) [lost_round, lost_round, lost_round\<lparr>rn_channel := Inr 4\<rparr>] [] 0 = (returned, waits, w)"
    using prod_cases3 by blast
  have "length (fst (snd (run_worker list_amqp (NewSubscriber (rmq_ConfigFromEnv (\<lambda>s. None) (\<lambda>k. None) ''orders_queue'') ''events'' ''q'' [''order.*''])
      (\<lambda>body (s :: nat). (None, s)) [lost_round, lost_round, lost_round\<lparr>rn_channel := Inr 4\<rparr>] [] 0))) = 2"
    by code_simp
  then have n: "length waits = 2" by (simp add: run)
  have "\<forall>r \<in> set [lost_round, lost_round, lost_round\<lparr>rn_channel := Inr 4\<rparr>]. \<not> cancelled r" by (simp add: lost_round_def cancelled_def)
  from worker_keeps_trying [OF this run] n run show ?thesis by (simp add: eval_nat_numeral)
qed

section \<open>Starting a publisher\<close>

record pub_setup =
  pu_exchange :: string
  pu_routingKey :: string
  pu_declare :: topology
  pu_name :: string
  pu_pool :: Publisher

text \<open>\<open>declareTopology\<close>: a channel of its own, closed afterwards.\<close>

definition declareTopology :: "'b amqp \<Rightarrow> nat res \<Rightarrow> topology \<Rightarrow> 'b \<Rightarrow> go_error option \<times> 'b" where
  "declareTopology A channel t b =
     (case channel of
        Inl err \<Rightarrow> (Some (Wrapped ''rmq: opening channel to declare %q: %w'' [err]), b)
      | Inr ch \<Rightarrow> run_declare A t b)"

definition rmq_newPublisher :: "'b amqp \<Rightarrow> nat res \<Rightarrow> rmq_Config \<Rightarrow> string \<Rightarrow> string \<Rightarrow> string \<Rightarrow> topology \<Rightarrow> 'b \<Rightarrow> pub_setup res \<times> 'b" where
  "rmq_newPublisher A channel cfg exchange routingKey name t b =
     (let p = \<lparr>pu_exchange = exchange, pu_routingKey = routingKey, pu_declare = t, pu_name = name, pu_pool = newPublisher (rc_PoolSize cfg)\<rparr>
      in case declareTopology A channel t b of (Some err, b') \<Rightarrow> (Inl err, b') | (None, b') \<Rightarrow> (Inr p, b'))"

definition NewPublisher :: "'b amqp \<Rightarrow> nat res \<Rightarrow> rmq_Config \<Rightarrow> 'b \<Rightarrow> pub_setup res \<times> 'b" where
  "NewPublisher A channel cfg b = rmq_newPublisher A channel cfg '''' (rc_Queue cfg) (rc_Queue cfg) (WorkQueue (rc_Queue cfg)) b"

definition NewTopicPublisher :: "'b amqp \<Rightarrow> nat res \<Rightarrow> rmq_Config \<Rightarrow> string \<Rightarrow> 'b \<Rightarrow> pub_setup res \<times> 'b" where
  "NewTopicPublisher A channel cfg exchange b = rmq_newPublisher A channel cfg exchange '''' exchange (EventExchange exchange) b"

text \<open>\<open>openConfirming\<close>: the channel, or the error, and the channels that stay open.\<close>

definition openConfirming :: "nat res \<Rightarrow> go_error option \<Rightarrow> nat list \<Rightarrow> nat res \<times> nat list" where
  "openConfirming channel confirm chans =
     (case channel of
        Inl err \<Rightarrow> (Inl (Wrapped ''rmq: opening channel: %w'' [err]), chans)
      | Inr ch \<Rightarrow>
          (case confirm of
             Some err \<Rightarrow> (Inl (Wrapped ''rmq: enabling publisher confirms: %w'' [err]), chans)
           | None \<Rightarrow> (Inr ch, ch # chans)))"

text \<open>
  The queue exists before the first message. When the command publisher has started, its work queue
  and the way to the dead-letter queue are there, and a consumer with the same settings, whenever it
  starts, declares the same and changes nothing.
\<close>

lemma NewPublisher_declares:
  assumes A: "amqp_ok A" and start: "NewPublisher A channel cfg b = (Inr p, b')"
  shows "am_Has A (QueueDeclare (pu_routingKey p) (Some (DeadLetterExchange (pu_routingKey p)))) b'"
    and "pu_exchange p = '''' \<and> pu_routingKey p = su_queue (rmq_NewConsumer cfg)"
    and "run_declare A (su_declare (rmq_NewConsumer cfg)) b' = (None, b')"
    and "1 \<le> pb_cap (pu_pool p)"
proof -
  have d: "DeclareTopology A (rc_Queue cfg) b = (None, b')" and p: "pu_routingKey p = rc_Queue cfg" "pu_exchange p = ''''"
      "pu_pool p = newPublisher (rc_PoolSize cfg)"
    using start by (auto simp: NewPublisher_def rmq_newPublisher_def declareTopology_def run_declare_def Let_def split: sum.splits prod.splits option.splits)
  show "am_Has A (QueueDeclare (pu_routingKey p) (Some (DeadLetterExchange (pu_routingKey p)))) b'"
    using topology_declared_once(2) [OF A d] p by simp
  show "pu_exchange p = '''' \<and> pu_routingKey p = su_queue (rmq_NewConsumer cfg)" using p by (simp add: rmq_NewConsumer_def)
  show "run_declare A (su_declare (rmq_NewConsumer cfg)) b' = (None, b')"
    using topology_declared_once(1) [OF A d] by (simp add: rmq_NewConsumer_def run_declare_def)
  show "1 \<le> pb_cap (pu_pool p)" using p(3) by (auto simp: newPublisher_def Let_def)
qed

text \<open>The workers of a consumer subscribe under different tags.\<close>

lemma consumer_tag_inj: "in_int64 m \<Longrightarrow> in_int64 n \<Longrightarrow> consumer_tag queue m = consumer_tag queue n \<Longrightarrow> m = n"
  by (simp add: consumer_tag_def itoa_inj)

end
