(* ===== verification/Busywait.thy ===== *)
theory Busywait
  imports Envx Go_Float
begin

text \<open>
  The simulated work of \<^verbatim>\<open>src/internal/busywait/busywait.go\<close>. The sample \<open>exp (mu + sigma * Z)\<close> is an
  argument, and so are the readings of the clock while the processor is kept busy.
\<close>

definition env_Float :: "(string \<Rightarrow> float64 option) \<Rightarrow> env \<Rightarrow> string \<Rightarrow> float64 \<Rightarrow> float64" where
  "env_Float ParseFloat = env_parsed ParseFloat"

record busy_Config =
  bw_Mu :: float64
  bw_Sigma :: float64
  bw_Min :: int
  bw_Max :: int

definition busy_Default :: busy_Config where
  "busy_Default = \<lparr>bw_Mu = rnd (55 / 10), bw_Sigma = rnd (8 / 10), bw_Min = 50000000, bw_Max = 5000000000\<rparr>"

definition busy_FromEnv :: "(string \<Rightarrow> float64 option) \<Rightarrow> (string \<Rightarrow> int option) \<Rightarrow> env \<Rightarrow> busy_Config" where
  "busy_FromEnv ParseFloat ParseDuration env =
     (let c = \<lparr>bw_Mu = env_Float ParseFloat env ''DELAY_MU'' (bw_Mu busy_Default),
               bw_Sigma = env_Float ParseFloat env ''DELAY_SIGMA'' (bw_Sigma busy_Default),
               bw_Min = env_Millis ParseDuration env ''DELAY_MIN_MS'' (bw_Min busy_Default),
               bw_Max = env_Millis ParseDuration env ''DELAY_MAX_MS'' (bw_Max busy_Default)\<rparr>
      in if bw_Min c > bw_Max c then c\<lparr>bw_Min := bw_Max c\<rparr> else c)"

text \<open>\<open>time.Duration(ms)\<close> truncates; what it gives out of range is up to the implementation.\<close>

definition float_to_int64 :: "(rat \<Rightarrow> int) \<Rightarrow> rat \<Rightarrow> int" where
  "float_to_int64 impl a = (let t = (if a < 0 then - \<lfloor>- a\<rfloor> else \<lfloor>a\<rfloor>) in if in_int64 t then t else impl a)"

definition busy_Delay :: "(rat \<Rightarrow> int) \<Rightarrow> busy_Config \<Rightarrow> float64 \<Rightarrow> int" where
  "busy_Delay impl c ms =
     (case ms of
        NaN \<Rightarrow> bw_Max c
      | Inf neg \<Rightarrow> bw_Max c
      | Fin a \<Rightarrow>
          (let d = wrap64 (float_to_int64 impl a * 1000000)
           in if d < bw_Min c then bw_Min c else if d > bw_Max c then bw_Max c else d))"

text \<open>\<open>Burn\<close>: the clock is read once a round; the result is the number of rounds before the last, with the
  buffers held and the reading that ended it. \<open>None\<close> is a run that is still going.\<close>

fun burn_loop :: "int \<Rightarrow> int list \<Rightarrow> nat \<Rightarrow> nat \<Rightarrow> (nat \<times> nat \<times> int) option" where
  "burn_loop deadline [] n hog = None"
| "burn_loop deadline (t # ts) n hog =
     (let hog' = (if n mod 100 = 0 then (if hog + 1 > 1000 then hog else hog + 1) else hog)
      in if \<not> t < deadline then Some (n, hog', t) else burn_loop deadline ts (n + 1) hog')"

definition Burn :: "int \<Rightarrow> int \<Rightarrow> int list \<Rightarrow> (nat \<times> nat \<times> int) option" where
  "Burn d start clock = (if d \<le> 0 then Some (0, 0, start) else burn_loop (start + d) clock 0 0)"

definition Simulate :: "(rat \<Rightarrow> int) \<Rightarrow> busy_Config \<Rightarrow> float64 \<Rightarrow> int \<Rightarrow> int list \<Rightarrow> (nat \<times> nat \<times> int) option" where
  "Simulate impl c ms start clock = (if bw_Max c \<le> 0 then Some (0, 0, start) else Burn (busy_Delay impl c ms) start clock)"

section \<open>Bounds\<close>

lemma busy_FromEnv_ordered: "bw_Min (busy_FromEnv PF PD env) \<le> bw_Max (busy_FromEnv PF PD env)"
  by (simp add: busy_FromEnv_def Let_def)

lemma busy_Delay_range:
  assumes "bw_Min c \<le> bw_Max c"
  shows "bw_Min c \<le> busy_Delay impl c ms \<and> busy_Delay impl c ms \<le> bw_Max c"
  using assms by (cases ms) (simp_all add: busy_Delay_def Let_def)

lemma burn_loop_ends:
  assumes "hog \<le> 1000" and "\<exists>t \<in> set clock. deadline \<le> t"
  shows "\<exists>n' hog' t. burn_loop deadline clock n hog = Some (n', hog', t) \<and> hog' \<le> 1000 \<and> deadline \<le> t \<and> t \<in> set clock"
  using assms
proof (induction clock arbitrary: n hog)
  case (Cons t ts)
  define h where "h = (if n mod 100 = 0 then (if hog + 1 > 1000 then hog else hog + 1) else hog)"
  have h: "h \<le> 1000" using Cons.prems(1) by (simp add: h_def)
  have run: "burn_loop deadline (t # ts) n hog = (if t < deadline then burn_loop deadline ts (n + 1) h else Some (n, h, t))"
    by (simp add: h_def Let_def)
  show ?case
  proof (cases "t < deadline")
    case True
    then have "\<exists>t \<in> set ts. deadline \<le> t" using Cons.prems(2) by auto
    from Cons.IH [OF h this, of "n + 1"] True show ?thesis unfolding run by auto
  next
    case False
    with h show ?thesis unfolding run by auto
  qed
qed simp

text \<open>
  Simulated work always ends, lasts what was asked and keeps to its memory. Whatever the settings and
  the sample, \<open>Simulate\<close> returns once the clock has gone on by the largest delay, no earlier than the
  delay it drew, which is between the two bounds of the settings, and never holds more than 1000
  buffers; a maximum of zero turns it off.
\<close>

lemma Simulate_bounded:
  assumes c: "c = busy_FromEnv PF PD env" and clock: "\<exists>t \<in> set clock. start + bw_Max c \<le> t"
  shows "\<exists>n hog t. Simulate impl c ms start clock = Some (n, hog, t) \<and> hog \<le> 1000 \<and>
    (if bw_Max c \<le> 0 then t = start
     else bw_Min c \<le> busy_Delay impl c ms \<and> busy_Delay impl c ms \<le> bw_Max c \<and> start + busy_Delay impl c ms \<le> t)"
proof -
  note range = busy_Delay_range [OF busy_FromEnv_ordered, of PF PD env impl ms, folded c]
  show ?thesis
  proof (cases "bw_Max c \<le> 0 \<or> busy_Delay impl c ms \<le> 0")
    case True
    then show ?thesis using range by (auto simp: Simulate_def Burn_def)
  next
    case False
    have "\<exists>t \<in> set clock. start + busy_Delay impl c ms \<le> t" using clock range by (meson add_left_mono order_trans)
    from burn_loop_ends [OF _ this, of 0 0] False range show ?thesis by (auto simp: Simulate_def Burn_def)
  qed
qed

text \<open>
  A sample far beyond the maximum can come out as the minimum: the product with the nanoseconds of a
  millisecond wraps before it is compared.
\<close>

lemma delay_wraps: "busy_Delay impl busy_Default (Fin 18446744073710) = bw_Min busy_Default"
  by (simp add: busy_Delay_def float_to_int64_def busy_Default_def wrap64_def MinInt_def MaxInt_def Let_def)

end
