(* ===== verification/Loader.thy ===== *)
theory Loader
  imports Catalogue Cart_Model
begin

text \<open>
  The tool of \<^verbatim>\<open>src/cmd/productloader/main.go\<close> that fills the catalogue, and the two calls of
  \<^verbatim>\<open>src/internal/product/client.go\<close>. The outcomes of the requests, the signal and the random samples are
  arguments.
\<close>

section \<open>The product client\<close>

text \<open>\<open>Get\<close> and \<open>Put\<close>: the address they ask, given the base without its last slash.\<close>

definition product_base :: "string \<Rightarrow> string" where
  "product_base baseURL = (if baseURL \<noteq> '''' \<and> List.last baseURL = CHR ''/'' then butlast baseURL else baseURL)"

definition product_url :: "string \<Rightarrow> string \<Rightarrow> string" where
  "product_url baseURL productID = product_base baseURL @ ''/product/'' @ productID"

definition client_GetProduct :: "(string \<Rightarrow> Product res) \<Rightarrow> string \<Rightarrow> string \<Rightarrow> Product res" where
  "client_GetProduct getJSON baseURL productID =
     (case getJSON (product_url baseURL productID) of Inl err \<Rightarrow> Inl err | Inr p \<Rightarrow> Inr p)"

definition client_PutProduct :: "(string \<Rightarrow> Product \<Rightarrow> go_error option) \<Rightarrow> string \<Rightarrow> Product \<Rightarrow> go_error option" where
  "client_PutProduct putJSON baseURL p = putJSON (product_url baseURL (p_ProductID p)) p"

section \<open>Products\<close>

fun flt_less :: "float64 \<Rightarrow> float64 \<Rightarrow> bool" where
  "flt_less NaN y = False"
| "flt_less x NaN = False"
| "flt_less (Inf s) (Inf t) = (s \<and> \<not> t)"
| "flt_less (Inf s) (Fin b) = s"
| "flt_less (Fin a) (Inf t) = (\<not> t)"
| "flt_less (Fin a) (Fin b) = (a < b)"

definition clamp :: "float64 \<Rightarrow> float64 \<Rightarrow> float64 \<Rightarrow> float64" where
  "clamp v lo hi = (if flt_less v lo then lo else if flt_less hi v then hi else v)"

definition adjectives :: "string list" where
  "adjectives = [''Compact'', ''Rugged'', ''Wireless'', ''Insulated'', ''Adjustable'', ''Portable'', ''Stainless'', ''Ceramic'',
     ''Refurbished'', ''Heavy-Duty'', ''Ultralight'', ''Modular'']"

definition nouns :: "string list" where
  "nouns = [''Desk Lamp'', ''Water Bottle'', ''Keyboard'', ''Backpack'', ''Monitor Stand'', ''Cable Kit'', ''Frying Pan'', ''Headphones'',
     ''Tool Set'', ''Office Chair'', ''Space Heater'', ''Bookshelf'']"

text \<open>\<open>generate\<close> with its four draws: the two exponentials and the indices of the name.\<close>

definition generate :: "string \<Rightarrow> float64 \<Rightarrow> float64 \<Rightarrow> nat \<Rightarrow> nat \<Rightarrow> Product" where
  "generate productID w p a n =
     (let weight = clamp w (rnd (5 / 100)) (Fin 60); price = clamp p (rnd (99 / 100)) (Fin 5000)
      in \<lparr>p_ProductID = productID, p_Name = adjectives ! a @ '' '' @ nouns ! n, p_Weight = round2 weight, p_Price = round2 price\<rparr>)"

section \<open>Uploading\<close>

record upload_env =
  up_ctx :: "go_error option"
  up_put :: "go_error option"
  up_wait :: "go_error option"

text \<open>\<open>upload\<close>: its result and how many requests it made.\<close>

fun upload_loop :: "nat \<Rightarrow> (nat \<Rightarrow> upload_env) \<Rightarrow> nat \<Rightarrow> go_error option \<Rightarrow> go_error option \<times> nat" where
  "upload_loop 0 ev attempt lastErr = (Some (case lastErr of None \<Rightarrow> Sentinel ''unknown failure'' | Some e \<Rightarrow> e), 0)"
| "upload_loop (Suc n) ev attempt lastErr =
     (case up_ctx (ev attempt) of
        Some err \<Rightarrow> (Some err, 0)
      | None \<Rightarrow>
          (case up_put (ev attempt) of
             None \<Rightarrow> (None, 1)
           | Some err \<Rightarrow>
               (case up_wait (ev attempt) of
                  Some e \<Rightarrow> (Some e, 1)
                | None \<Rightarrow> (let (res, puts) = upload_loop n ev (Suc attempt) (Some err) in (res, Suc puts)))))"

definition upload :: "int \<Rightarrow> (nat \<Rightarrow> upload_env) \<Rightarrow> go_error option \<times> nat" where
  "upload attempts ev = upload_loop (nat attempts) ev 1 None"

text \<open>The identifiers the generator sends: all of them, or those before it saw the signal.\<close>

definition generated :: "int \<Rightarrow> int \<Rightarrow> string \<Rightarrow> nat option \<Rightarrow> string list" where
  "generated count start pre stop =
     map (\<lambda>i. pre @ itoa (wrap64 (start + int i))) [0..<(case stop of None \<Rightarrow> nat count | Some k \<Rightarrow> min k (nat count))]"

text \<open>\<open>main\<close>: the exit code, the identifiers created and the number of failures. Every product that was
  generated is uploaded by one of the workers.\<close>

definition loader_main :: "int \<Rightarrow> int \<Rightarrow> string \<Rightarrow> int \<Rightarrow> nat option \<Rightarrow> (string \<Rightarrow> nat \<Rightarrow> upload_env) \<Rightarrow> int \<times> string list \<times> nat" where
  "loader_main count start pre attempts stop ev =
     (if count \<le> 0 then (1, [], 0)
      else (let ids = generated count start pre stop;
                created = filter (\<lambda>i. fst (upload attempts (ev i)) = None) ids;
                failed = length (filter (\<lambda>i. fst (upload attempts (ev i)) \<noteq> None) ids)
            in (if failed > 0 then 1 else 0, created, failed)))"

section \<open>What the loader leaves behind\<close>

lemma rnd_nonneg: "0 \<le> x \<Longrightarrow> \<not> flt_neg (rnd x)"
proof -
  assume x: "0 \<le> x"
  have "0 \<le> round_even y" if "0 \<le> y" for y
  proof -
    have "0 \<le> \<lfloor>y\<rfloor>" using that by simp
    then show ?thesis by (auto simp: round_even_def Let_def)
  qed
  then have "0 \<le> round_even (x / 2 powi u) \<and> 0 \<le> (2 powi u :: rat)" for u using x by simp
  with x show ?thesis by (auto simp: rnd_def Let_def not_less)
qed

lemma round2_nonneg: "\<not> flt_neg v \<Longrightarrow> \<not> flt_neg (round2 v)"
proof (cases v)
  case (Fin a)
  assume "\<not> flt_neg v"
  then have "\<not> flt_neg (rnd (a * 100))" using Fin by (intro rnd_nonneg) simp
  then have "\<not> flt_neg (math_Round (rnd (a * 100)))" by (cases "rnd (a * 100)") auto
  then show ?thesis using Fin rnd_nonneg by (cases "math_Round (rnd (a * 100))") (auto simp: round2_def)
qed (simp_all add: round2_def)

lemma clamp_nonneg: "\<not> flt_neg lo \<Longrightarrow> \<not> flt_neg hi \<Longrightarrow> \<not> flt_neg v \<or> flt_less v lo \<Longrightarrow> \<not> flt_neg (clamp v lo hi)"
  by (auto simp: clamp_def)

text \<open>Whatever is drawn, the catalogue does not refuse a generated product.\<close>

lemma generate_accepted:
  assumes "productID \<noteq> ''''"
  shows "p_ProductID (generate productID w p a n) \<noteq> ''''" and "\<not> flt_neg (p_Weight (generate productID w p a n))"
    and "\<not> flt_neg (p_Price (generate productID w p a n))"
proof -
  have low: "\<not> flt_neg v \<or> flt_less v (rnd x)" if "0 \<le> x" for v x
    using rnd_nonneg [OF that] by (cases v; cases "rnd x") (auto simp: rnd_def Let_def split: if_splits)
  show "p_ProductID (generate productID w p a n) \<noteq> ''''" using assms by (simp add: generate_def Let_def)
  show "\<not> flt_neg (p_Weight (generate productID w p a n))" "\<not> flt_neg (p_Price (generate productID w p a n))"
    using clamp_nonneg [OF rnd_nonneg _ low] by (auto simp: generate_def Let_def intro!: round2_nonneg)
qed

lemma upload_loop_puts: "snd (upload_loop n ev i lastErr) \<le> n"
  by (induction n ev i lastErr rule: upload_loop.induct) (auto split: option.split prod.split)

lemma upload_loop_ok: "fst (upload_loop n ev i lastErr) = None \<Longrightarrow> \<exists>j < n. up_put (ev (i + j)) = None"
proof (induction n ev i lastErr rule: upload_loop.induct)
  case (2 n ev i lastErr)
  show ?case
  proof (cases "up_put (ev i) = None")
    case True
    then show ?thesis by (intro exI [of _ 0]) simp
  next
    case False
    then obtain err where err: "up_put (ev i) = Some err" by blast
    have live: "up_ctx (ev i) = None" "up_wait (ev i) = None" and rest: "fst (upload_loop n ev (Suc i) (Some err)) = None"
      using 2(2) err by (auto split: option.splits prod.splits)
    obtain j where "j < n" "up_put (ev (Suc i + j)) = None" using 2(1) [OF live(1) err live(2) rest] by blast
    then show ?thesis by (intro exI [of _ "Suc j"]) simp
  qed
qed simp

text \<open>
  When the loader was not interrupted and exits with 0, every product of the range was stored: one of
  at most \<open>attempts\<close> requests for it succeeded; it exits with 1 exactly when one was not.
\<close>

lemma loader_complete:
  assumes "0 < count" and "loader_main count start pre attempts None ev = (code, created, failed)"
  shows "code = 0 \<longleftrightarrow> (\<forall>i < nat count. fst (upload attempts (ev (pre @ itoa (wrap64 (start + int i))))) = None)"
    and "code = 0 \<Longrightarrow> created = map (\<lambda>i. pre @ itoa (wrap64 (start + int i))) [0..<nat count]"
    and "snd (upload attempts (ev i)) \<le> nat attempts"
proof -
  let ?ids = "map (\<lambda>i. pre @ itoa (wrap64 (start + int i))) [0..<nat count]" and ?up = "\<lambda>i. fst (upload attempts (ev i))"
  have run: "code = (if filter (\<lambda>i. ?up i \<noteq> None) ?ids \<noteq> [] then 1 else 0)" "created = filter (\<lambda>i. ?up i = None) ?ids"
    using assms by (auto simp: loader_main_def generated_def Let_def)
  then have ok: "code = 0 \<longleftrightarrow> (\<forall>i \<in> set ?ids. ?up i = None)" by (auto simp: filter_empty_conv)
  then show "code = 0 \<longleftrightarrow> (\<forall>i < nat count. ?up (pre @ itoa (wrap64 (start + int i))) = None)" by auto
  show "created = ?ids" if "code = 0" using that ok run(2) by (simp add: filter_id_conv)
  show "snd (upload attempts (ev i)) \<le> nat attempts" using upload_loop_puts by (simp add: upload_def)
qed

text \<open>Interrupted before the first product, the loader reports success with an empty catalogue.\<close>

lemma loader_interrupted_reports_success: "loader_main 1000 1 ''p'' 3 (Some 0) ev = (0, [], 0)"
  by (simp add: loader_main_def generated_def)

end
