(* ===== verification/Kv_Transport.thy ===== *)
theory Kv_Transport
  imports Http_Client
begin

text \<open>
  The transport between database nodes, \<^verbatim>\<open>src/internal/kv/replicator.go\<close>: one HTTP client, and so one
  circuit breaker, for every peer. \<open>parse\<close> is the host that \<open>url.Parse\<close> finds in an address.
\<close>

record Replicator =
  rp_timeout :: int
  rp_clients :: "string \<rightharpoonup> Client"

definition NewReplicator :: "int \<Rightarrow> Replicator" where
  "NewReplicator rpcTimeout = \<lparr>rp_timeout = rpcTimeout, rp_clients = Map.empty\<rparr>"

definition strip_prefix :: "string \<Rightarrow> string \<Rightarrow> string" where
  "strip_prefix pre s = (if take (length pre) s = pre then drop (length pre) s else s)"

definition hostOf :: "(string \<Rightarrow> string option) \<Rightarrow> string \<Rightarrow> string" where
  "hostOf parse peer =
     (case parse peer of
        None \<Rightarrow> strip_prefix ''https://'' (strip_prefix ''http://'' peer)
      | Some host \<Rightarrow> if host = '''' then strip_prefix ''https://'' (strip_prefix ''http://'' peer) else host)"

definition peer_client :: "(string \<Rightarrow> string option) \<Rightarrow> int \<Rightarrow> string \<Rightarrow> Client" where
  "peer_client parse timeout peer =
     NewClient \<lparr>Dependency = ''kv-peer:'' @ hostOf parse peer, ConnectTimeout = 500000000, RequestTimeout = timeout, MaxAttempts = 1,
       RetryBaseDelay = 0, RetryMaxDelay = 0, BreakerCfg = \<lparr>FailureThreshold = 0, OpenFor = 0, HalfOpenSuccesses = 0\<rparr>, DisableBreaker = False\<rparr>"

definition clientFor :: "(string \<Rightarrow> string option) \<Rightarrow> string \<Rightarrow> Replicator \<Rightarrow> Client \<times> Replicator" where
  "clientFor parse peer r =
     (case rp_clients r peer of
        Some client \<Rightarrow> (client, r)
      | None \<Rightarrow> (let client = peer_client parse (rp_timeout r) peer in (client, r\<lparr>rp_clients := (rp_clients r)(peer \<mapsto> client)\<rparr>)))"

text \<open>A call to a peer through its client: the error, the requests on the wire, and the client afterwards.\<close>

definition peer_call :: "(string \<Rightarrow> string option) \<Rightarrow> string \<Rightarrow> http_method \<Rightarrow> bool \<Rightarrow> go_error option \<Rightarrow> (nat \<Rightarrow> attempt_env) \<Rightarrow> Replicator
    \<Rightarrow> go_error option \<times> wire list \<times> Replicator" where
  "peer_call parse peer m wants enc env r =
     (let (client, r1) = clientFor parse peer r; (err, client', ws) = do_call client m wants enc env
      in (err, ws, r1\<lparr>rp_clients := (rp_clients r1)(peer \<mapsto> client')\<rparr>))"

definition replicator_Push :: "(string \<Rightarrow> string option) \<Rightarrow> string \<Rightarrow> go_error option \<Rightarrow> (nat \<Rightarrow> attempt_env) \<Rightarrow> Replicator
    \<Rightarrow> go_error option \<times> wire list \<times> Replicator" where
  "replicator_Push parse peer enc env r = peer_call parse peer PUT False enc env r"

fun peer_calls :: "(string \<Rightarrow> string option) \<Rightarrow> (string \<times> http_method \<times> bool \<times> go_error option \<times> (nat \<Rightarrow> attempt_env)) list \<Rightarrow> Replicator
    \<Rightarrow> (string \<times> wire list) list \<times> Replicator" where
  "peer_calls parse [] r = ([], r)"
| "peer_calls parse ((peer, m, wants, enc, env) # cs) r =
     (let (err, ws, r1) = peer_call parse peer m wants enc env r; (rest, r2) = peer_calls parse cs r1 in ((peer, ws) # rest, r2))"

section \<open>One dead replica does not cost another\<close>

definition single_attempt :: "Replicator \<Rightarrow> bool" where
  "single_attempt r \<longleftrightarrow> (\<forall>peer client. rp_clients r peer = Some client \<longrightarrow> maxAttempts client = 1)"

lemma do_call_client: "do_call c m wants enc env = (err, c', ws) \<Longrightarrow> maxAttempts c' = maxAttempts c"
  by (auto simp: do_call_def Let_def split: option.splits prod.splits)

lemma do_call_wires: "length (snd (snd (do_call c m wants enc env))) \<le> max 1 (nat (maxAttempts c))"
  using do_loop_wire_bound [of wants 1 1 env "breaker c"] do_loop_wire_bound [of wants 1 "nat (maxAttempts c)" env "breaker c"]
  by (auto simp: do_call_def isIdempotent_def Let_def split: option.splits prod.splits)

lemma clientFor_facts:
  assumes "single_attempt r" and "clientFor parse peer r = (client, r1)"
  shows "maxAttempts client = 1" and "single_attempt r1" and "q \<noteq> peer \<Longrightarrow> rp_clients r1 q = rp_clients r q" and "rp_timeout r1 = rp_timeout r"
proof -
  have new: "maxAttempts (peer_client parse t peer) = 1" for t by (simp add: peer_client_def NewClient_def client_withDefaults_def Let_def)
  show "maxAttempts client = 1" "single_attempt r1" "q \<noteq> peer \<Longrightarrow> rp_clients r1 q = rp_clients r q" "rp_timeout r1 = rp_timeout r"
    using assms new by (auto simp: clientFor_def single_attempt_def Let_def split: option.splits if_splits)
qed

lemma peer_call_facts:
  assumes "single_attempt r" and "peer_call parse peer m wants enc env r = (err, ws, r')"
  shows "single_attempt r'" and "length ws \<le> 1" and "q \<noteq> peer \<Longrightarrow> rp_clients r' q = rp_clients r q" and "rp_timeout r' = rp_timeout r"
proof -
  obtain client r1 where c: "clientFor parse peer r = (client, r1)" by force
  obtain client' where d: "do_call client m wants enc env = (err, client', ws)" and r': "r' = r1\<lparr>rp_clients := (rp_clients r1)(peer \<mapsto> client')\<rparr>"
    using assms(2) c by (auto simp: peer_call_def Let_def split: prod.splits)
  note f = clientFor_facts [OF assms(1) c]
  show "single_attempt r'" using f(1,2) do_call_client [OF d] r' by (auto simp: single_attempt_def)
  show "length ws \<le> 1" using do_call_wires [of client m wants enc env] d f(1) by simp
  show "q \<noteq> peer \<Longrightarrow> rp_clients r' q = rp_clients r q" using f(3) r' by simp
  show "rp_timeout r' = rp_timeout r" using f(4) r' by simp
qed

lemma peer_calls_facts:
  assumes "single_attempt r0" and "peer_calls parse calls r0 = (sent, r)"
  shows "single_attempt r" and "\<forall>(peer, m, wants, enc, env) \<in> set calls. peer \<noteq> q \<Longrightarrow> rp_clients r q = rp_clients r0 q"
    and "rp_timeout r = rp_timeout r0" and "\<forall>(peer, ws) \<in> set sent. length ws \<le> 1"
proof -
  have "single_attempt r \<and> ((\<forall>(peer, m, wants, enc, env) \<in> set calls. peer \<noteq> q) \<longrightarrow> rp_clients r q = rp_clients r0 q) \<and>
      rp_timeout r = rp_timeout r0 \<and> (\<forall>(peer, ws) \<in> set sent. length ws \<le> 1)"
    using assms
  proof (induction calls arbitrary: r0 sent)
    case (Cons x calls)
    obtain peer m wants enc env where x: "x = (peer, m, wants, enc, env)" by (cases x)
    obtain err ws r1 where call: "peer_call parse peer m wants enc env r0 = (err, ws, r1)" by (cases "peer_call parse peer m wants enc env r0")
    obtain rest where rest: "peer_calls parse calls r1 = (rest, r)" "sent = (peer, ws) # rest"
      using Cons.prems(2) call x by (auto simp: Let_def split: prod.splits)
    note f = peer_call_facts [OF Cons.prems(1) call]
    show ?case using Cons.IH [OF f(1) rest(1)] f(2,4) f(3) [of q] rest(2) by (auto simp: x)
  qed simp
  then show "single_attempt r" "\<forall>(peer, m, wants, enc, env) \<in> set calls. peer \<noteq> q \<Longrightarrow> rp_clients r q = rp_clients r0 q"
    "rp_timeout r = rp_timeout r0" "\<forall>(peer, ws) \<in> set sent. length ws \<le> 1" by blast+
qed

text \<open>
  C21. The loss of a replica is not the loss of the quorum. Whatever a node sends to its other peers and
  however those calls end, the client of a peer and its circuit breaker are the ones they were, so a
  dead replica never makes the node refuse to call a healthy one; and every call puts at most one
  request on the wire, the retry being the quorum's.
\<close>

theorem peer_breakers_independent:
  assumes before: "peer_calls parse earlier (NewReplicator t) = (sent0, r0)"
    and others: "\<forall>(peer, m, wants, enc, env) \<in> set calls. peer \<noteq> q" and run: "peer_calls parse calls r0 = (sent, r)"
  shows "fst (clientFor parse q r) = fst (clientFor parse q r0) \<and> (\<forall>(peer, ws) \<in> set sent. length ws \<le> 1)"
proof -
  have one: "single_attempt r0" using peer_calls_facts(1) [OF _ before] by (simp add: NewReplicator_def single_attempt_def)
  have "rp_clients r q = rp_clients r0 q" "rp_timeout r = rp_timeout r0" "\<forall>(peer, ws) \<in> set sent. length ws \<le> 1"
    using peer_calls_facts(2,3,4) [OF one run] others by blast+
  then show ?thesis by (simp add: clientFor_def Let_def split: option.split)
qed

definition dead_wire :: attempt_env where
  "dead_wire = \<lparr>ctx_err = None, allow_at = 0, on_wire = TransportFailed (Sentinel ''refused''), record_at = 0, wait_err = None\<rparr>"

theorem peer_breakers_independent_witness:
  "fst (clientFor (\<lambda>u. None) ''http://b'' (snd (peer_calls (\<lambda>u. None)
      (replicate 9 (''http://a'', PUT, False, None, \<lambda>i. dead_wire)) (NewReplicator 1000)))) = peer_client (\<lambda>u. None) 1000 ''http://b''"
proof -
  let ?cs = "replicate 9 (''http://a'', PUT, False, None :: go_error option, \<lambda>i :: nat. dead_wire)"
  obtain sent r where run: "peer_calls (\<lambda>u. None) ?cs (NewReplicator 1000) = (sent, r)" by force
  have start: "peer_calls (\<lambda>u. None) [] (NewReplicator 1000) = ([], NewReplicator 1000)" by simp
  have others: "\<forall>(peer, m, wants, enc, env) \<in> set ?cs. peer \<noteq> ''http://b''" by simp
  have "fst (clientFor (\<lambda>u. None) ''http://b'' r) = fst (clientFor (\<lambda>u. None) ''http://b'' (NewReplicator 1000))"
    by (rule conjunct1 [OF peer_breakers_independent [OF start others run]])
  also have "\<dots> = peer_client (\<lambda>u. None) 1000 ''http://b''" by (simp add: clientFor_def NewReplicator_def Let_def)
  finally show ?thesis unfolding run by simp
qed

end
