(* ===== verification/Spec2Isabelle.thy ===== *)
theory Spec2Isabelle
  imports Http_Client Cart_Failures Cart_Handlers Fulfilment Order_Customer Identity_Sessions Gateway Notification Rmq_Conn Rmq_Topology Rmq_Config
    Metrics Programs Rmq_Worker Busywait Loader Kv_Transport
begin

text \<open>
  A model of \<^bold>\<open>quorum-market\<close>, an online shop built of Go services, and the theorems that make it
  correct. All paths are relative to \<^verbatim>\<open>src/\<close>.

  \<^bold>\<open>The program.\<close> Customers reach the services through an API gateway, which authenticates them,
  limits their rate and passes their identity on in headers. The cart service keeps carts in a
  replicated key-value store and runs the checkout: it claims an idempotency key, holds stock at the
  warehouse, charges a card, stores the order, and sends two messages through the broker, an event
  that the order was placed and a command to ship it. The warehouse ships and announces it; the order
  service builds the customer's order history from the events; the notification service fills an
  inbox from them. The catalogue is read through a Redis cache; identities, sessions and rate limits
  live in Redis as well. Every call from service to service goes through one HTTP client with retries
  and a circuit breaker.

  \<^bold>\<open>Conventions\<close> (\<open>Prelude\<close>). A Go \<open>int\<close> is an \<^typ>\<open>int\<close> that is wrapped to 64 bits where the program can
  overflow; counters that wrap are words; strings are byte strings; a \<open>float64\<close> is the type of
  \<open>Go_Float\<close> with the rounding of IEEE 754. A method of a struct is a function that takes and returns
  the struct's record. Errors are values of \<open>go_error\<close>, and every early return is a branch. What the
  environment decides in a call (the clock, fresh identifiers, whether a remote call fails before or
  after it took effect, the order in which answers arrive or a map is walked) is an argument, so a
  theorem holds for every such choice. Steps that interleave are inductive relations; the locale
  \<open>invariant_system\<close> turns an inductive invariant into one of all reachable states and is interpreted
  for every state machine of the development.

  \<^bold>\<open>The theories\<close>, bottom up.
  \<^item> \<open>Go_Strconv\<close>, \<open>Go_Strings\<close>, \<open>Go_Float\<close>, \<open>Http_Headers\<close>: what the code uses of Go's library (numbers,
    trimming, binary64, header names, what a reverse proxy forwards).
  \<^item> \<open>Httpx_Errors\<close>, \<open>Breaker\<close>, \<open>Http_Client\<close>, \<open>Middleware\<close>, \<open>Metrics\<close>, \<open>Health\<close>, \<open>Serving\<close>: \<^verbatim>\<open>internal/httpx\<close> and
    \<^verbatim>\<open>internal/obs\<close>. The breaker's reachable states; how often a request is sent; request ids, panics and
    the cap on requests in flight; the time series a service can produce; readiness; the shutdown
    sequence as a state machine, the admin routes and the probes.
  \<^item> \<open>Mux\<close>: the patterns of Go's request multiplexer with their conflicts, the router of
    \<^verbatim>\<open>internal/httpx/router.go\<close> and the route tables of all services. A request is served by the most
    specific of the routes that match it (lemma \<open>router_serves_most_specific\<close>).
  \<^item> \<open>Kv_Store\<close>, \<open>Kv_Config\<close>, \<open>Kv_Service\<close>, \<open>Kv_Scan\<close>, \<open>Kv_Txn\<close>, \<open>Kv_Server\<close>, \<open>Kv_Transport\<close>,
    \<open>Rpc\<close>, \<open>Kv_Client\<close>: \<^verbatim>\<open>internal/kv\<close>.
    The locales \<open>last_write_wins\<close> (conflict rule), \<open>kv_map\<close> (a store is a map) and \<open>quorum_system\<close> (write
    and read quorums meet) are interpreted on the store and the configuration; from them replicas
    converge, and quorum reads and scans see acknowledged writes of keys that are only written without a
    TTL; with a TTL they need not (C38 in \<open>Kv_Service\<close>). A breaker per peer.
  \<^item> \<open>Envx\<close>, \<open>Rmq_Config\<close>: \<^verbatim>\<open>internal/envx\<close> and the settings read with it; what a deployment writes is what
    a node runs with.
  \<^item> \<open>Orders\<close>, \<open>Warehouse_Inventory\<close>, \<open>Warehouse_Concurrent\<close>, \<open>Warehouse_Server\<close>: \<^verbatim>\<open>internal/warehouse\<close> as
    whole methods and as critical sections that interleave; the methods refine the steps, stock is
    conserved, a request id gets one reservation.
  \<^item> \<open>Cca\<close>, \<open>Events\<close>: \<^verbatim>\<open>internal/cca\<close> and \<^verbatim>\<open>internal/events\<close>.
  \<^item> \<open>Cart_Model\<close>, \<open>Cart_Service\<close>, \<open>Cart_Checkout\<close>, \<open>Cart_Failures\<close>, \<open>Cart_Handlers\<close>: \<^verbatim>\<open>internal/cart\<close>. What a
    successful checkout means, that it charges at most once, that a retry replays, what a failure
    leaves behind, totals in floating point.
  \<^item> \<open>Order_Service\<close>, \<open>Order_Customer\<close>, \<open>Notification\<close>: \<^verbatim>\<open>internal/order\<close> and \<^verbatim>\<open>internal/notification\<close>. Events may
    come in any order and more than once; the inbox refines a bounded list.
  \<^item> \<open>Fulfilment\<close>: from a paid checkout over the warehouse to the recorded shipment.
  \<^item> \<open>Redis\<close>, \<open>Cache\<close>, \<open>Catalogue\<close>, \<open>Ratelimit\<close>: \<^verbatim>\<open>internal/redisx\<close>, \<^verbatim>\<open>internal/cache\<close>, \<^verbatim>\<open>internal/product\<close>,
    \<^verbatim>\<open>internal/ratelimit\<close> with its Lua script.
  \<^item> \<open>Auth\<close>, \<open>Identity\<close>, \<open>Identity_Sessions\<close>, \<open>Gateway\<close>: \<^verbatim>\<open>internal/auth\<close>, \<^verbatim>\<open>internal/identity\<close>,
    \<^verbatim>\<open>internal/gateway\<close> and its routes in \<^verbatim>\<open>cmd/gatewaysvc\<close>. The longest prefix decides the route.
  \<^item> \<open>Rmq_Publisher\<close>, \<open>Rmq_Consumer\<close>, \<open>Rmq_Topology\<close>, \<open>Rmq_Conn\<close>, \<open>Rmq_Worker\<close>: \<^verbatim>\<open>internal/rmq\<close>. The pool conserves its
    channels, a queue drains without losing a message while its channel stays open, declarations are idempotent, a closed
    connection leaks nothing, a worker that loses its subscription tries again for ever.
  \<^item> \<open>Busywait\<close>, \<open>Loader\<close>, \<open>Programs\<close>: the simulated work, the catalogue loader, and what the programs under
    \<^verbatim>\<open>cmd\<close> put together before they serve: which dependencies they need, which checks make them ready, that
    the gateway accepts the tokens the identity service signs.
  \<^item> This theory: the gateway in front of the cart, the orders and the notifications.

  \<^bold>\<open>Code that is not in the repository\<close> is a parameter, a record of functions, with the documented
  behaviour a theorem needs as a hypothesis: \<open>redis_ok\<close>, \<open>zset_ok\<close> and \<open>rlist_ok\<close> for Redis commands,
  \<open>jwt_ok\<close> and \<open>bcrypt_ok\<close> for the token and password libraries, \<open>broker_ok\<close> and \<open>amqp_ok\<close> for the message
  broker, \<open>codec_ok\<close> for JSON encoders that are read back by their decoders. Each is met by a concrete
  instance, with which the witnesses of the theorems run.

  \<^bold>\<open>Bounds.\<close> The loops of the code end by themselves (retries, attempts of compare-and-swap, dialling
  are bounded by a configured number) and are structural recursions on what is left. The only fuel is
  the number of deliveries a worker handles; twice the number of waiting messages suffices, because a
  message is requeued at most once.

  \<^bold>\<open>What does not hold.\<close> Some theorems and lemmas prove that the code falls short of what its comments
  say: below, that a header of the client removes the identity the gateway has set; that a failed
  checkout can keep the charge (\<open>Cart_Failures\<close>), a cancelled order can ship (\<open>Order_Customer\<close>) and an
  acknowledged write can be invisible (\<open>Kv_Service\<close>); and the lemmas \<open>anonymous_put_reaches_catalogue\<close>,
  \<open>AddItem_overflow\<close>, \<open>catalogue_stale_after_write\<close>, \<open>order_history_may_omit_newest\<close>,
  \<open>breaker_two_probes_in_flight\<close>, \<open>huge_ttl_never_expires\<close>, \<open>panic_answer_has_no_id\<close>, \<open>first_failure_may_park\<close>,
  \<open>reconnect_gives_up\<close>, \<open>password_received\<close>, \<open>env_List_slash\<close>, \<open>logout_ignored_without_redis\<close>,
  \<open>put_health_uncapped\<close>, \<open>health_product_shadowed\<close>, \<open>method_label_unbounded\<close>, \<open>delay_wraps\<close> and
  \<open>loader_interrupted_reports_success\<close>. The readiness checks in \<open>Programs\<close> are all optional, also the cart
  service's check of its database, which a comment in \<^verbatim>\<open>internal/obs/health.go\<close> says is not.

  \<^bold>\<open>Not modelled.\<close> Log output, build stamps, the declarations of the metric collectors and the statistics
  endpoints, which no operation reads; sockets and signals beyond the steps they cause; the main
  programs that only hand settings to components; JSON itself; a settlement that does not reach the broker; the tickers that call the sweepers,
  whose runs are steps of the state machines; deployment files.
\<close>

section \<open>The gateway in front of the cart\<close>

lemma cart_authorize_caller: "caller \<noteq> '''' \<Longrightarrow> cart_authorize caller cartID = Inr owner \<Longrightarrow> owner = caller"
  by (auto simp: cart_authorize_def split: sum.splits if_splits)

lemma forwarded_identity:
  assumes "handlerFor L Z g route now c r st = (Forwarded route r', hs, st')" and "\<not> rt_Public route"
    and "CustomerIDHeader \<notin> set (connection_names (rq_Header r'))"
  obtains claims where "authenticate L g now r = Inr claims" "header_Get (newProxy r') CustomerIDHeader = cl_Subject claims"
proof -
  obtain claims where cl: "authenticate L g now r = Inr claims" "r' = attach_identity claims (strip_identity r)"
    using handlerFor_forwarded(3) [OF assms(1)] assms(2) by blast
  have "newProxy r' CustomerIDHeader = [cl_Subject claims]" using assms(3) cl(2) by (simp add: newProxy_identity)
  with cl(1) that show thesis by (simp add: header_Get_def)
qed

text \<open>
  C7. Through the gateway a customer reaches only their own cart. When a request on a protected
  route does not name the identity header in its \<open>Connection\<close> header, the cart service admits it
  to a cart only if that cart is the one of the subject of the bearer token the gateway verified.
\<close>

theorem cart_behind_gateway:
  assumes L: "jwt_ok L" and fwd: "gw_Routes L Z g now c r st = (Forwarded route r', hs, st')" and "\<not> rt_Public route"
    and hop: "CustomerIDHeader \<notin> set (connection_names (rq_Header r'))"
    and admitted: "cart_authorize (header_Get (newProxy r') CustomerIDHeader) cartID = Inr owner"
  shows "cartID = IDFor owner \<and>
    (\<exists>v token claims. gc_Verifier g = Some v \<and> BearerToken (header_Get (rq_Header r) ''Authorization'') = Some token \<and>
       jwt_Valid L ''HS256'' (vf_secret v) token claims \<and> cl_Subject claims = owner \<and> (\<exists>x. cl_ExpiresAt claims = Some x \<and> now < x))"
proof -
  obtain claims where cl: "authenticate L g now r = Inr claims" "header_Get (newProxy r') CustomerIDHeader = cl_Subject claims"
    using forwarded_identity [OF gw_Routes_forwarded(3) [OF fwd] assms(3) hop] .
  obtain v token where v: "gc_Verifier g = Some v" "BearerToken (header_Get (rq_Header r) ''Authorization'') = Some token"
      "Verify L v now token = Inr claims" using authenticate_ok [OF cl(1)] .
  note ok = Verify_ok [OF L v(3)]
  have "owner = cl_Subject claims" using cart_authorize_caller [OF _ admitted] ok(3) cl(2) by simp
  moreover have "cartID = IDFor owner"
    using admitted ok(3) cl(2)
    by (auto simp: cart_authorize_def CustomerFor_def IDFor_def HasPrefix_def TrimPrefix_def Let_def prefix_def split: sum.splits if_splits)
  ultimately show ?thesis using v ok(1,4) by blast
qed

text \<open>A request for a cart by the customer \<open>cust-1\<close>, with a \<open>Connection\<close> header.\<close>

definition cart_request :: "string \<Rightarrow> string \<Rightarrow> Request" where
  "cart_request cartID connection =
     \<lparr>rq_Method = ''GET'', rq_Path = ''/shopping-cart/'' @ cartID, rq_Host = ''shop'', rq_RemoteAddr = ''10.0.0.1:5000'', rq_TLS = False,
      rq_Header = (\<lambda>k. if k = ''Authorization'' then [''Bearer tok''] else if k = ''Connection'' \<and> connection \<noteq> '''' then [connection] else [])\<rparr>"

lemma cart_request_forwarded:
  assumes "cartID \<in> {''cart-cust-1'', ''cart-victim''}"
  shows "\<exists>route hs st'. gw_Routes gw_jwt Z (gw_config None) 0 c (cart_request cartID connection) st =
      (Forwarded route (attach_identity gw_claims (strip_identity (cart_request cartID connection))), hs, st') \<and> \<not> rt_Public route"
proof -
  let ?r = "cart_request cartID connection"
  obtain route where route: "find (\<lambda>route. rt_Prefix route = ''/shopping-cart'') (gc_Routes (gw_config None)) = Some route"
      "\<not> rt_Public route"
    by (simp add: gw_config_def gw_routes_def)
  have auth: "authenticate gw_jwt (gw_config None) 0 ?r = Inr gw_claims"
    by (simp add: authenticate_def cart_request_def header_Get_def bearer_tok gw_config_def Verify_def gw_jwt_def verify_key_def gw_claims_def)
  have "handlerFor gw_jwt Z (gw_config None) route 0 c ?r st = (Forwarded route (attach_identity gw_claims (strip_identity ?r)), [], st)"
    by (simp add: handlerFor_def auth gw_allow_def case_prod_unfold Let_def) (simp add: gw_config_def)
  moreover have "dispatch (gw_mux (gw_config None)) (rq_Method ?r) (rq_Path ?r) = Some (Serve (Endpoint ''/shopping-cart'') [])"
    using assms by (auto simp: cart_request_def gw_dispatched)
  ultimately show ?thesis using route by (simp add: gw_Routes_def)
qed

lemma forwarded_connection:
  "rq_Header (attach_identity claims (strip_identity r)) ''Connection'' = rq_Header r ''Connection''"
  by (simp add: attach_identity_def strip_identity_def identity_headers Let_def)

theorem cart_behind_gateway_witness:
  "\<exists>route r' hs st'. gw_Routes gw_jwt list_zset (gw_config None) 0 (demo_call 0 ''m'') (cart_request ''cart-cust-1'' '''') (\<lambda>k. ([], None)) =
       (Forwarded route r', hs, st') \<and>
     cart_authorize (header_Get (newProxy r') CustomerIDHeader) ''cart-cust-1'' = Inr ''cust-1'' \<and>
     (\<exists>token claims. jwt_Valid gw_jwt ''HS256'' ''k'' token claims \<and> cl_Subject claims = ''cust-1'')"
proof -
  let ?r' = "attach_identity gw_claims (strip_identity (cart_request ''cart-cust-1'' ''''))"
  obtain route hs st' where fwd: "gw_Routes gw_jwt list_zset (gw_config None) 0 (demo_call 0 ''m'') (cart_request ''cart-cust-1'' '''')
      (\<lambda>k. ([], None)) = (Forwarded route ?r', hs, st')" and pub: "\<not> rt_Public route"
    using cart_request_forwarded [of "''cart-cust-1''"] by blast
  have hop: "connection_names (rq_Header ?r') = []"
    by (simp add: connection_names_def forwarded_connection cart_request_def)
  have id: "header_Get (newProxy ?r') CustomerIDHeader = ''cust-1''"
    using hop by (simp add: newProxy_identity header_Get_def gw_claims_def)
  have auth: "cart_authorize (header_Get (newProxy ?r') CustomerIDHeader) ''cart-cust-1'' = Inr ''cust-1''"
    unfolding id by (simp add: cart_authorize_def CustomerFor_def HasPrefix_def TrimPrefix_def cart_KeyPrefix_def)
  from cart_behind_gateway [OF gw_jwt_ok fwd pub _ auth] hop fwd auth show ?thesis by (auto simp: gw_config_def)
qed

text \<open>
  C8. A customer can reach any other customer's cart through the gateway. A request of \<open>cust-1\<close>
  that lists the identity header in its \<open>Connection\<close> header is forwarded, the reverse proxy removes
  the header the gateway has just set as one that ends at this hop, and the cart service takes
  the request without an identity for one from inside the network and admits it to the victim's
  cart.
\<close>

theorem connection_header_bypass:
  "\<exists>route r' hs st'. gw_Routes gw_jwt Z (gw_config None) 0 c (cart_request ''cart-victim'' ''x-customer-id'') st =
       (Forwarded route r', hs, st') \<and> rq_Header r' CustomerIDHeader = [''cust-1''] \<and>
     cart_authorize (header_Get (newProxy r') CustomerIDHeader) ''cart-victim'' = Inr ''victim''"
proof -
  let ?r' = "attach_identity gw_claims (strip_identity (cart_request ''cart-victim'' ''x-customer-id''))"
  obtain route hs st' where fwd: "gw_Routes gw_jwt Z (gw_config None) 0 c (cart_request ''cart-victim'' ''x-customer-id'') st =
      (Forwarded route ?r', hs, st')" using cart_request_forwarded [of "''cart-victim''"] by blast
  have "CanonicalHeaderKey ''x-customer-id'' = ''X-Customer-Id''" by code_simp
  then have "connection_names (rq_Header ?r') = [CustomerIDHeader]"
    by (simp add: connection_names_def forwarded_connection cart_request_def TrimString_def CustomerIDHeader_def)
  then have "header_Get (newProxy ?r') CustomerIDHeader = ''''" by (simp add: newProxy_identity header_Get_def)
  moreover have "cart_authorize '''' ''cart-victim'' = Inr ''victim''"
    by (simp add: cart_authorize_def CustomerFor_def HasPrefix_def TrimPrefix_def cart_KeyPrefix_def)
  moreover have "rq_Header ?r' CustomerIDHeader = [''cust-1'']" by (simp add: gw_claims_def)
  ultimately show ?thesis using fwd by metis
qed

section \<open>The gateway in front of orders and notifications\<close>








end
